(* ===== verification/Prelude.thy ===== *)
theory Prelude
  imports Main "HOL-Library.Word" "HOL-Library.Monad_Syntax" "HOL-Library.AList"
begin

text \<open>
  What the components of the development share: the machine integer types of the
  server, byte buffers with Rust's checked indexing and slicing (an access out of range
  is a panic, the value \<^term>\<open>None\<close>), big-endian fields, saturating subtraction, the
  laws of the concurrent hash maps (association lists whose order is the iteration
  order), and the generic invariant-of-a-run lemma that every state machine uses.
\<close>

unbundle bit_operations_syntax

section \<open>Types and fact collections\<close>

type_synonym u8 = "8 word"
type_synonym u16 = "16 word"
type_synonym u32 = "32 word"
type_synonym u64 = "64 word"
type_synonym bytes = "u8 list"

text \<open>Checked reads and writes in range.\<close>
named_theorems rd_simps

text \<open>The constants of the configuration and the signaling protocol.\<close>
named_theorems config_defs

section \<open>Checked indexing, slicing and writing\<close>

text \<open>
  \<open>buf[i]\<close>, \<open>&buf[a..b]\<close> and \<open>buf[i..i + n].copy_from_slice(src)\<close>: each panics out of
  range. \<^term>\<open>None\<close> is the panic.
\<close>

definition idx :: "'a list \<Rightarrow> nat \<Rightarrow> 'a option" where
  "idx xs i = (if i < length xs then Some (xs ! i) else None)"

definition slice :: "'a list \<Rightarrow> nat \<Rightarrow> nat \<Rightarrow> 'a list option" where
  "slice xs a b = (if a \<le> b \<and> b \<le> length xs then Some (take (b - a) (drop a xs)) else None)"

definition write_at :: "'a list \<Rightarrow> nat \<Rightarrow> 'a list \<Rightarrow> 'a list option" where
  "write_at xs i ys =
     (if i + length ys \<le> length xs then Some (take i xs @ ys @ drop (i + length ys) xs) else None)"

lemma idx_in_range [rd_simps, simp]: "i < length xs \<Longrightarrow> idx xs i = Some (xs ! i)"
  by (simp add: idx_def)

lemma idx_eq_Some_iff: "idx xs i = Some x \<longleftrightarrow> i < length xs \<and> xs ! i = x"
  by (auto simp: idx_def)

lemma idx_eq_None_iff: "idx xs i = None \<longleftrightarrow> length xs \<le> i"
  by (auto simp: idx_def)

lemma slice_in_range [rd_simps, simp]:
  "a \<le> b \<Longrightarrow> b \<le> length xs \<Longrightarrow> slice xs a b = Some (take (b - a) (drop a xs))"
  by (simp add: slice_def)

lemma slice_eq_Some_iff:
  "slice xs a b = Some ys \<longleftrightarrow> a \<le> b \<and> b \<le> length xs \<and> ys = take (b - a) (drop a xs)"
  by (auto simp: slice_def)

lemma slice_middle: "n = length pre \<Longrightarrow> m = n + length ys \<Longrightarrow> slice (pre @ ys @ post) n m = Some ys"
  by (simp add: slice_def)

lemma write_at_in_range [rd_simps, simp]:
  "i + length ys \<le> length xs \<Longrightarrow>
   write_at xs i ys = Some (take i xs @ ys @ drop (i + length ys) xs)"
  by (simp add: write_at_def)

lemma length_write_at: "write_at xs i ys = Some zs \<Longrightarrow> length zs = length xs"
  by (auto simp: write_at_def split: if_splits)

lemma nth_write_at:
  assumes "write_at xs i ys = Some zs" and "j < length xs"
  shows "zs ! j = (if i \<le> j \<and> j < i + length ys then ys ! (j - i) else xs ! j)"
  using assms by (auto simp: write_at_def nth_append min_def split: if_splits)

text \<open>A buffer with a fixed RTP header in front.\<close>

lemma header12E:
  assumes "12 \<le> length xs"
  obtains b0 b1 b2 b3 b4 b5 b6 b7 b8 b9 b10 b11 rest
  where "xs = b0 # b1 # b2 # b3 # b4 # b5 # b6 # b7 # b8 # b9 # b10 # b11 # rest"
  using assms by (auto simp: numeral_eq_Suc Suc_le_length_iff)

section \<open>Big-endian fields\<close>

text \<open>\<open>u16::from_be_bytes\<close>, \<open>u32::from_be_bytes\<close> and \<open>to_be_bytes\<close>.\<close>

definition of_be16 :: "u8 \<Rightarrow> u8 \<Rightarrow> u16" where
  "of_be16 a b = push_bit 8 (ucast a) OR ucast b"

definition to_be16 :: "u16 \<Rightarrow> bytes" where
  "to_be16 w = [ucast (drop_bit 8 w), ucast w]"

definition of_be32 :: "u8 \<Rightarrow> u8 \<Rightarrow> u8 \<Rightarrow> u8 \<Rightarrow> u32" where
  "of_be32 a b c d =
     push_bit 24 (ucast a) OR push_bit 16 (ucast b) OR push_bit 8 (ucast c) OR ucast d"

definition to_be32 :: "u32 \<Rightarrow> bytes" where
  "to_be32 w =
     [ucast (drop_bit 24 w), ucast (drop_bit 16 w), ucast (drop_bit 8 w), ucast w]"

lemma of_be16_to_be16: "of_be16 (ucast (drop_bit 8 w)) (ucast w) = w"
  unfolding of_be16_def
  by (rule bit_word_eqI) (auto simp: bit_simps)

lemma of_be32_to_be32:
  "of_be32 (ucast (drop_bit 24 w)) (ucast (drop_bit 16 w)) (ucast (drop_bit 8 w)) (ucast w) = w"
proof (rule bit_word_eqI)
  fix n assume "n < LENGTH(32)"
  then consider "n < 8" | "8 \<le> n \<and> n < 16" | "16 \<le> n \<and> n < 24" | "24 \<le> n \<and> n < 32"
    by fastforce
  then show "bit (of_be32 (ucast (drop_bit 24 w)) (ucast (drop_bit 16 w))
               (ucast (drop_bit 8 w)) (ucast w)) n \<longleftrightarrow> bit w n"
    by cases (auto simp: of_be32_def bit_simps)
qed

lemma to_be16_of_be16: "to_be16 (of_be16 a b) = [a, b]"
proof -
  have "\<not> bit b (8 + n)" for n
    using bit_imp_le_length [of b "8 + n"] by auto
  then show ?thesis
    unfolding to_be16_def of_be16_def by (auto intro!: bit_word_eqI simp: bit_simps)
qed

lemma to_be32_of_be32: "to_be32 (of_be32 a b c d) = [a, b, c, d]"
proof -
  have "\<not> bit x (8 + n)" for x :: u8 and n
    using bit_imp_le_length [of x "8 + n"] by auto
  then have "\<not> bit x n" if "8 \<le> n" for x :: u8 and n
    using that by (metis le_Suc_ex)
  then show ?thesis
    unfolding to_be32_def of_be32_def by (auto intro!: bit_word_eqI simp: bit_simps)
qed

lemma of_be16_inject: "of_be16 a b = of_be16 c d \<longleftrightarrow> a = c \<and> b = d"
proof
  assume "of_be16 a b = of_be16 c d"
  then have "to_be16 (of_be16 a b) = to_be16 (of_be16 c d)" by simp
  then show "a = c \<and> b = d" by (simp add: to_be16_of_be16)
qed simp

lemma length_to_be16 [simp]: "length (to_be16 w) = 2"
  by (simp add: to_be16_def)

lemma length_to_be32 [simp]: "length (to_be32 w) = 4"
  by (simp add: to_be32_def)

text \<open>A field read at an offset: two or four checked reads.\<close>

definition rd16 :: "bytes \<Rightarrow> nat \<Rightarrow> u16 option" where
  "rd16 xs i = do { a \<leftarrow> idx xs i; b \<leftarrow> idx xs (i + 1); Some (of_be16 a b) }"

definition rd32 :: "bytes \<Rightarrow> nat \<Rightarrow> u32 option" where
  "rd32 xs i = do { a \<leftarrow> idx xs i; b \<leftarrow> idx xs (i + 1); c \<leftarrow> idx xs (i + 2); d \<leftarrow> idx xs (i + 3);
                    Some (of_be32 a b c d) }"

lemma rd16_in_range [rd_simps, simp]:
  "i + 1 < length xs \<Longrightarrow> rd16 xs i = Some (of_be16 (xs ! i) (xs ! (i + 1)))"
  by (simp add: rd16_def)

lemma rd32_in_range [rd_simps, simp]:
  "i + 3 < length xs \<Longrightarrow>
   rd32 xs i = Some (of_be32 (xs ! i) (xs ! (i + 1)) (xs ! (i + 2)) (xs ! (i + 3)))"
  by (simp add: rd32_def)

lemma rd16_cong:
  "length xs = length ys \<Longrightarrow> idx xs i = idx ys i \<Longrightarrow> idx xs (i + 1) = idx ys (i + 1) \<Longrightarrow>
   rd16 xs i = rd16 ys i"
  by (simp add: rd16_def)

text \<open>
  The contract of a fixed-width field: what was put is what is got, wherever the field
  stands and however it came there. The message builders and parsers rely on nothing
  else.
\<close>

locale be_field =
  fixes put :: "'w \<Rightarrow> bytes" and get :: "bytes \<Rightarrow> nat \<Rightarrow> 'w option" and width :: nat
  assumes put_width: "length (put w) = width"
    and get_put: "get (pre @ put w @ post) (length pre) = Some w"
begin

lemma get_at: "n = length pre \<Longrightarrow> get (pre @ put w @ post) n = Some w"
  using get_put by simp

lemma get_head: "get (put w @ post) 0 = Some w"
  using get_put [of "[]"] by simp

lemma get_write_at:
  assumes "write_at buf i (put w) = Some buf'"
  shows "get buf' i = Some w"
proof -
  from assms have "i \<le> length buf" and "buf' = take i buf @ put w @ drop (i + width) buf"
    by (auto simp: write_at_def put_width split: if_splits)
  then show ?thesis by (simp add: get_at)
qed

end

interpretation be16: be_field to_be16 rd16 2
  by unfold_locales (simp_all add: rd16_def idx_def to_be16_def of_be16_to_be16 nth_append)

interpretation be32: be_field to_be32 rd32 4
  by unfold_locales (simp_all add: rd32_def idx_def to_be32_def of_be32_to_be32 nth_append)

section \<open>Absence of panics\<close>

text \<open>
  Rules that take a checked computation apart into the bounds of its accesses.
\<close>

named_theorems total

lemma bind_total [total]:
  "x \<noteq> None \<Longrightarrow> (\<And>y. x = Some y \<Longrightarrow> f y \<noteq> None) \<Longrightarrow> Option.bind x f \<noteq> None"
  by (cases x) simp_all

lemma if_total [total]:
  "(c \<Longrightarrow> x \<noteq> None) \<Longrightarrow> (\<not> c \<Longrightarrow> y \<noteq> None) \<Longrightarrow> (if c then x else y) \<noteq> None"
  by simp

lemma let_total [total]: "(\<And>y. y = x \<Longrightarrow> f y \<noteq> None) \<Longrightarrow> Let x f \<noteq> None"
  by simp

lemma Some_total [total]: "Some x \<noteq> None"
  by simp

lemma idx_total [total]: "i < length xs \<Longrightarrow> idx xs i \<noteq> None"
  by simp

lemma rd16_total [total]: "i + 1 < length xs \<Longrightarrow> rd16 xs i \<noteq> None"
  by simp

lemma rd32_total [total]: "i + 3 < length xs \<Longrightarrow> rd32 xs i \<noteq> None"
  by simp

lemma slice_total [total]: "a \<le> b \<Longrightarrow> b \<le> length xs \<Longrightarrow> slice xs a b \<noteq> None"
  by simp

lemma write_at_total [total]: "i + length ys \<le> length xs \<Longrightarrow> write_at xs i ys \<noteq> None"
  by simp

section \<open>Arithmetic of the source\<close>

text \<open>\<open>saturating_sub\<close> on unsigned words, and \<open>(n + 3) & !3\<close> on \<open>usize\<close>.\<close>

definition sat_sub :: "'a::len word \<Rightarrow> 'a word \<Rightarrow> 'a word" where
  "sat_sub a b = (if b \<le> a then a - b else 0)"

lemma unat_sat_sub: "unat (sat_sub a b) = unat a - unat b"
  by (auto simp: sat_sub_def word_le_nat_alt unat_sub)

lemma sat_sub_greater_iff: "c < sat_sub a b \<longleftrightarrow> unat b + unat c < unat a"
  by (auto simp: word_less_nat_alt unat_sat_sub)

lemma unat_drop_bit_div: "unat (drop_bit n w) = unat w div 2 ^ n" for w :: "'a::len word"
  by (subst unat_drop_bit_eq) (rule drop_bit_eq_div)

definition align4 :: "nat \<Rightarrow> nat" where
  "align4 n = nat ((int n + 3) AND NOT 3)"

lemma align4_eq: "align4 n = (n + 3) div 4 * 4"
proof -
  have three: "(3::int) = mask 2" by (simp add: mask_eq_exp_minus_1)
  have "x AND NOT 3 = push_bit 2 (drop_bit 2 x)" for x :: int
    unfolding three by (rule bit_eqI) (auto simp: bit_simps not_less le_iff_add)
  then have "(int n + 3) AND NOT 3 = int ((n + 3) div 4 * 4)"
    by (simp add: push_bit_eq_mult drop_bit_eq_div zdiv_int)
  then show ?thesis by (simp add: align4_def)
qed

lemma align4_ge: "n \<le> align4 n"
  unfolding align4_eq by presburger

lemma align4_less: "align4 n < n + 4"
  unfolding align4_eq by presburger

lemma align4_mod [simp]: "align4 n mod 4 = 0"
  by (simp add: align4_eq)

lemma align4_multiple: "n mod 4 = 0 \<Longrightarrow> align4 n = n"
  unfolding align4_eq by presburger

section \<open>Hash maps as association lists\<close>

text \<open>
  A map that the source iterates is an association list with distinct keys; its order is
  the iteration order. Insertion replaces in place or appends.
\<close>

lemma set_update_distinct:
  "distinct (map fst xs) \<Longrightarrow>
   set (AList.update k v xs) = insert (k, v) {p \<in> set xs. fst p \<noteq> k}"
  by (induction xs) (auto simp: image_iff split: if_splits)

lemma map_of_delete_alist [simp]: "map_of (AList.delete k xs) = (map_of xs)(k := None)"
  by (simp add: AList.delete_conv')

lemma map_of_update_alist [simp]: "map_of (AList.update k v xs) = (map_of xs)(k \<mapsto> v)"
  by (simp add: AList.update_conv')

lemma length_delete_distinct:
  "distinct (map fst xs) \<Longrightarrow> map_of xs k \<noteq> None \<Longrightarrow> Suc (length (AList.delete k xs)) = length xs"
proof (induction xs)
  case (Cons x xs)
  then show ?case
    by (cases x) (auto simp: AList.delete_id split: if_splits)
qed simp

lemma length_update_new:
  "map_of xs k = None \<Longrightarrow> length (AList.update k v xs) = Suc (length xs)"
  by (induction xs) (auto split: if_splits)

section \<open>Invariants of runs\<close>

text \<open>
  A deterministic state machine whose every step keeps an invariant keeps it in every
  run; a ranking between two states of a run is kept in the same way.
\<close>

locale preserved =
  fixes step :: "'s \<Rightarrow> 'e \<Rightarrow> 's" and invar :: "'s \<Rightarrow> bool"
  assumes step_invar: "invar s \<Longrightarrow> invar (step s e)"
begin

lemma run_invar: "invar s \<Longrightarrow> invar (foldl step s es)"
  by (induction es arbitrary: s) (simp_all add: step_invar)

lemma prefix_invar: "invar s \<Longrightarrow> invar (foldl step s (take n es))"
  by (rule run_invar)

end

end
