(* ===== verification/Config.thy ===== *)
theory Config
  imports Prelude
begin

text \<open>
  The constants of \<open>src/config.rs\<close> that the modelled code reads, the two mode
  enumerations, the opcodes of \<open>src/signaling/opcode.rs\<close> and the error type of
  \<open>src/error.rs\<close>. Every constant is in the collection \<open>config_defs\<close>.
\<close>

section \<open>Constants\<close>

definition REAPER_INTERVAL_MS :: u64 where [config_defs]: "REAPER_INTERVAL_MS = 30000"
definition ZOMBIE_TIMEOUT_MS :: u64 where [config_defs]: "ZOMBIE_TIMEOUT_MS = 120000"
definition ROOM_MAX_CAPACITY :: nat where [config_defs]: "ROOM_MAX_CAPACITY = 1000"
definition ROOM_DEFAULT_CAPACITY :: nat where [config_defs]: "ROOM_DEFAULT_CAPACITY = 1000"

definition DEMUX_STUN_MIN :: u8 where [config_defs]: "DEMUX_STUN_MIN = 0x00"
definition DEMUX_STUN_MAX :: u8 where [config_defs]: "DEMUX_STUN_MAX = 0x03"
definition DEMUX_DTLS_MIN :: u8 where [config_defs]: "DEMUX_DTLS_MIN = 0x14"
definition DEMUX_DTLS_MAX :: u8 where [config_defs]: "DEMUX_DTLS_MAX = 0x3F"
definition DEMUX_RTP_MIN :: u8 where [config_defs]: "DEMUX_RTP_MIN = 0x80"
definition DEMUX_RTP_MAX :: u8 where [config_defs]: "DEMUX_RTP_MAX = 0xBF"

definition EGRESS_QUEUE_SIZE :: nat where [config_defs]: "EGRESS_QUEUE_SIZE = 256"
definition RTP_HEADER_MIN_SIZE :: nat where [config_defs]: "RTP_HEADER_MIN_SIZE = 12"
definition RTP_CACHE_SIZE :: nat where [config_defs]: "RTP_CACHE_SIZE = 512"
definition RTX_PAYLOAD_TYPE :: u8 where [config_defs]: "RTX_PAYLOAD_TYPE = 97"
definition RTCP_PT_NACK :: u8 where [config_defs]: "RTCP_PT_NACK = 205"
definition RTCP_FMT_NACK :: u8 where [config_defs]: "RTCP_FMT_NACK = 1"
definition RTCP_PT_SR :: u8 where [config_defs]: "RTCP_PT_SR = 200"
definition RTCP_PT_RR :: u8 where [config_defs]: "RTCP_PT_RR = 201"
definition RTCP_PT_PSFB :: u8 where [config_defs]: "RTCP_PT_PSFB = 206"
definition RTCP_FMT_PLI :: u8 where [config_defs]: "RTCP_FMT_PLI = 1"
definition RTCP_FMT_REMB :: u8 where [config_defs]: "RTCP_FMT_REMB = 15"

definition TWCC_EXTMAP_ID :: u8 where [config_defs]: "TWCC_EXTMAP_ID = 6"
definition TWCC_RECORDER_CAPACITY :: nat where [config_defs]: "TWCC_RECORDER_CAPACITY = 8192"
definition RTCP_PT_RTPFB :: u8 where [config_defs]: "RTCP_PT_RTPFB = 205"
definition RTCP_FMT_TWCC :: u8 where [config_defs]: "RTCP_FMT_TWCC = 15"

definition FLOOR_MAX_BURST_MS :: u64 where [config_defs]: "FLOOR_MAX_BURST_MS = 30000"
definition FLOOR_PING_INTERVAL_MS :: u64 where [config_defs]: "FLOOR_PING_INTERVAL_MS = 2000"
definition FLOOR_PING_TIMEOUT_MS :: u64 where [config_defs]: "FLOOR_PING_TIMEOUT_MS = 5000"

section \<open>Modes\<close>

datatype room_mode = Conference | Ptt
datatype bwe_mode = Twcc | Remb

definition show_room_mode :: "room_mode \<Rightarrow> string" where
  "show_room_mode m = (case m of Conference \<Rightarrow> ''conference'' | Ptt \<Rightarrow> ''ptt'')"

section \<open>Errors\<close>

datatype light_error =
    NotAuthenticated | InvalidToken | AlreadyIdentified
  | RoomNotFound | RoomFull | AlreadyInRoom | NotInRoom | RoomNameRequired
  | InvalidOpcode | InvalidPayload | MissingPid
  | SdpParseError | DtlsHandshakeFailed | SrtpError
  | Internal string

fun error_code :: "light_error \<Rightarrow> u16" where
  "error_code NotAuthenticated = 1001"
| "error_code InvalidToken = 1002"
| "error_code AlreadyIdentified = 1003"
| "error_code RoomNotFound = 2001"
| "error_code RoomFull = 2002"
| "error_code AlreadyInRoom = 2003"
| "error_code NotInRoom = 2004"
| "error_code RoomNameRequired = 2005"
| "error_code InvalidOpcode = 3001"
| "error_code InvalidPayload = 3002"
| "error_code MissingPid = 3003"
| "error_code SdpParseError = 4001"
| "error_code DtlsHandshakeFailed = 4002"
| "error_code SrtpError = 4003"
| "error_code (Internal _) = 9001"

text \<open>The \<open>Display\<close> text of the error derive: the message a client sees.\<close>

fun error_message :: "light_error \<Rightarrow> string" where
  "error_message NotAuthenticated = ''[1001] not authenticated''"
| "error_message InvalidToken = ''[1002] invalid token''"
| "error_message AlreadyIdentified = ''[1003] already identified''"
| "error_message RoomNotFound = ''[2001] room not found''"
| "error_message RoomFull = ''[2002] room full''"
| "error_message AlreadyInRoom = ''[2003] already in room''"
| "error_message NotInRoom = ''[2004] not in room''"
| "error_message RoomNameRequired = ''[2005] room name required''"
| "error_message InvalidOpcode = ''[3001] invalid opcode''"
| "error_message InvalidPayload = ''[3002] invalid payload''"
| "error_message MissingPid = ''[3003] missing pid''"
| "error_message SdpParseError = ''[4001] sdp parse error''"
| "error_message DtlsHandshakeFailed = ''[4002] dtls handshake failed''"
| "error_message SrtpError = ''[4003] srtp error''"
| "error_message (Internal m) = ''[9001] internal error: '' @ m"

lemma error_code_inj:
  "error_code e = error_code e' \<Longrightarrow> (\<exists>m m'. e = Internal m \<and> e' = Internal m') \<or> e = e'"
  by (cases e; cases e') auto

end
