(* ===== verification/Floor_Control.thy ===== *)
theory Floor_Control
  imports Config
begin

text \<open>
  The floor controller of a push-to-talk room (\<open>src/room/floor.rs\<close>): a state machine
  under a mutex, so every operation is one atomic step from a state to an action and a
  state. The contract its callers rely on is the locale \<open>floor_arbiter\<close>; what a whole
  run of operations guarantees is the locale \<open>action_log\<close>.
\<close>

section \<open>State and actions\<close>

datatype floor_state =
    Idle
  | Taken string u64 u64  \<comment> \<open>speaker, \<open>burst_start\<close>, \<open>last_ping\<close>\<close>

datatype floor_action =
    Granted string
  | Denied string string  \<comment> \<open>reason, current speaker\<close>
  | Released string
  | Revoked string string  \<comment> \<open>previous speaker, cause\<close>
  | PingOk
  | PingDenied
  | NotPttRoom

section \<open>Operations\<close>

definition floor_new :: floor_state where
  "floor_new = Idle"

fun current_speaker :: "floor_state \<Rightarrow> string option" where
  "current_speaker (Taken speaker _ _) = Some speaker"
| "current_speaker Idle = None"

fun floor_request :: "floor_state \<Rightarrow> string \<Rightarrow> u64 \<Rightarrow> floor_action \<times> floor_state" where
  "floor_request Idle user now = (Granted user, Taken user now now)"
| "floor_request (Taken speaker b p) user now =
     (if speaker = user then (Granted user, Taken speaker b p)
      else (Denied ''channel busy'' speaker, Taken speaker b p))"

fun floor_release :: "floor_state \<Rightarrow> string \<Rightarrow> floor_action \<times> floor_state" where
  "floor_release (Taken speaker b p) user =
     (if speaker = user then (Released user, Idle) else (PingDenied, Taken speaker b p))"
| "floor_release Idle user = (Released user, Idle)"

fun floor_ping :: "floor_state \<Rightarrow> string \<Rightarrow> u64 \<Rightarrow> floor_action \<times> floor_state" where
  "floor_ping (Taken speaker b p) user now =
     (if speaker = user then (PingOk, Taken speaker b now) else (PingDenied, Taken speaker b p))"
| "floor_ping Idle user now = (PingDenied, Idle)"

fun check_timers :: "floor_state \<Rightarrow> u64 \<Rightarrow> floor_action option \<times> floor_state" where
  "check_timers (Taken speaker b p) now =
     (if FLOOR_MAX_BURST_MS < sat_sub now b
      then (Some (Revoked speaker ''max burst exceeded''), Idle)
      else if FLOOR_PING_TIMEOUT_MS < sat_sub now p
      then (Some (Revoked speaker ''participant lost''), Idle)
      else (None, Taken speaker b p))"
| "check_timers Idle now = (None, Idle)"

fun on_participant_leave :: "floor_state \<Rightarrow> string \<Rightarrow> floor_action option \<times> floor_state" where
  "on_participant_leave (Taken speaker b p) user =
     (if speaker = user then (Some (Released user), Idle) else (None, Taken speaker b p))"
| "on_participant_leave Idle user = (None, Idle)"

section \<open>The contract of the controller\<close>

text \<open>
  What the signaling handlers and the timer task rely on: who holds the floor after each
  kind of answer.
\<close>

locale floor_arbiter =
  fixes init :: "'s" and holder :: "'s \<Rightarrow> string option"
    and request :: "'s \<Rightarrow> string \<Rightarrow> u64 \<Rightarrow> floor_action \<times> 's"
    and release :: "'s \<Rightarrow> string \<Rightarrow> floor_action \<times> 's"
    and ping :: "'s \<Rightarrow> string \<Rightarrow> u64 \<Rightarrow> floor_action \<times> 's"
    and check :: "'s \<Rightarrow> u64 \<Rightarrow> floor_action option \<times> 's"
    and leave :: "'s \<Rightarrow> string \<Rightarrow> floor_action option \<times> 's"
  assumes holder_init: "holder init = None"
    and request_cases: "request s u t = (a, s') \<Longrightarrow>
      (a = Granted u \<and> holder s' = Some u \<and> holder s \<in> {None, Some u}) \<or>
      (\<exists>v. a = Denied ''channel busy'' v \<and> s' = s \<and> holder s = Some v \<and> v \<noteq> u)"
    and release_cases: "release s u = (a, s') \<Longrightarrow>
      (a = Released u \<and> holder s' = None \<and> holder s \<in> {None, Some u}) \<or>
      (a = PingDenied \<and> s' = s \<and> holder s \<notin> {None, Some u})"
    and ping_cases: "ping s u t = (a, s') \<Longrightarrow>
      holder s' = holder s \<and> a = (if holder s = Some u then PingOk else PingDenied)"
    and check_cases: "check s t = (r, s') \<Longrightarrow>
      (r = None \<and> s' = s) \<or>
      (\<exists>v c. r = Some (Revoked v c) \<and> holder s = Some v \<and> holder s' = None)"
    and leave_cases: "leave s u = (r, s') \<Longrightarrow>
      (r = Some (Released u) \<and> holder s = Some u \<and> holder s' = None) \<or>
      (r = None \<and> s' = s \<and> holder s \<noteq> Some u)"
begin

lemma request_granted_iff: "(\<exists>v. fst (request s u t) = Granted v) \<longleftrightarrow> holder s \<in> {None, Some u}"
  using request_cases [of s u t] by (cases "request s u t") fastforce

lemma request_holder:
  "holder (snd (request s u t)) = (if holder s \<in> {None, Some u} then Some u else holder s)"
  using request_cases [of s u t] by (cases "request s u t") fastforce

lemma release_holder:
  "holder (snd (release s u)) = (if holder s = Some u then None else holder s)"
  using release_cases [of s u] by (cases "release s u") fastforce

lemma leave_holder:
  "holder (snd (leave s u)) = (if holder s = Some u then None else holder s)"
  using leave_cases [of s u] by (cases "leave s u") fastforce

lemma ping_holder: "holder (snd (ping s u t)) = holder s"
  using ping_cases [of s u t] by (cases "ping s u t") fastforce

lemma check_holder:
  "holder (snd (check s t)) = (if fst (check s t) = None then holder s else None)"
  using check_cases [of s t] by (cases "check s t") fastforce

end

interpretation fc: floor_arbiter floor_new current_speaker floor_request floor_release
  floor_ping check_timers on_participant_leave
proof
  show "current_speaker floor_new = None" by (simp add: floor_new_def)
next
  fix s u t a s'
  show "floor_request s u t = (a, s') \<Longrightarrow>
      (a = Granted u \<and> current_speaker s' = Some u \<and> current_speaker s \<in> {None, Some u}) \<or>
      (\<exists>v. a = Denied ''channel busy'' v \<and> s' = s \<and> current_speaker s = Some v \<and> v \<noteq> u)"
    by (cases s) (auto split: if_splits)
next
  fix s u a s'
  show "floor_release s u = (a, s') \<Longrightarrow>
      (a = Released u \<and> current_speaker s' = None \<and> current_speaker s \<in> {None, Some u}) \<or>
      (a = PingDenied \<and> s' = s \<and> current_speaker s \<notin> {None, Some u})"
    by (cases s) (auto split: if_splits)
next
  fix s u t a s'
  show "floor_ping s u t = (a, s') \<Longrightarrow> current_speaker s' = current_speaker s \<and>
      a = (if current_speaker s = Some u then PingOk else PingDenied)"
    by (cases s) (auto split: if_splits)
next
  fix s t r s'
  show "check_timers s t = (r, s') \<Longrightarrow> (r = None \<and> s' = s) \<or>
      (\<exists>v c. r = Some (Revoked v c) \<and> current_speaker s = Some v \<and> current_speaker s' = None)"
    by (cases s) (auto split: if_splits)
next
  fix s u r s'
  show "on_participant_leave s u = (r, s') \<Longrightarrow>
      (r = Some (Released u) \<and> current_speaker s = Some u \<and> current_speaker s' = None) \<or>
      (r = None \<and> s' = s \<and> current_speaker s \<noteq> Some u)"
    by (cases s) (auto split: if_splits)
qed

section \<open>Runs of the controller\<close>

text \<open>
  Clients never see the state: they see the actions. The \<open>ledger\<close> of a list of actions
  is who holds the floor as far as the actions tell; a list is \<open>exclusive\<close> when every
  grant in it is to the holder of the moment or comes when nobody holds the floor.
\<close>

fun ledger :: "string option \<Rightarrow> floor_action list \<Rightarrow> string option" where
  "ledger h [] = h"
| "ledger h (Granted u # as) = ledger (Some u) as"
| "ledger h (Released u # as) = ledger None as"
| "ledger h (Revoked u c # as) = ledger None as"
| "ledger h (_ # as) = ledger h as"

fun exclusive :: "string option \<Rightarrow> floor_action list \<Rightarrow> bool" where
  "exclusive h [] = True"
| "exclusive h (Granted u # as) = (h \<in> {None, Some u} \<and> exclusive (Some u) as)"
| "exclusive h (Revoked u c # as) = (h = Some u \<and> exclusive None as)"
| "exclusive h (Released u # as) = (h \<in> {None, Some u} \<and> exclusive None as)"
| "exclusive h (Denied r v # as) = (h = Some v \<and> exclusive h as)"
| "exclusive h (_ # as) = exclusive h as"

fun frees :: "floor_action \<Rightarrow> bool" where
  "frees (Released u) = True"
| "frees (Revoked u c) = True"
| "frees _ = False"

lemma ledger_append [simp]: "ledger h (as @ bs) = ledger (ledger h as) bs"
  by (induction h as rule: ledger.induct) auto

lemma exclusive_append [simp]:
  "exclusive h (as @ bs) \<longleftrightarrow> exclusive h as \<and> exclusive (ledger h as) bs"
  by (induction h as rule: exclusive.induct) auto

text \<open>
  In an exclusive list two grants to different users have an action between them that
  frees the floor.
\<close>

lemma ledger_holds:
  "exclusive (Some u) as \<Longrightarrow> \<forall>a \<in> set as. \<not> frees a \<Longrightarrow> ledger (Some u) as = Some u"
proof (induction as)
  case (Cons a as)
  then show ?case by (cases a) auto
qed simp

lemma exclusive_handover:
  assumes "exclusive h (as @ Granted u # bs @ Granted v # cs)" and "u \<noteq> v"
  shows "\<exists>a \<in> set bs. frees a"
proof (rule ccontr)
  assume "\<not> (\<exists>a \<in> set bs. frees a)"
  moreover from assms(1) have "exclusive (Some u) bs"
    and "ledger (Some u) bs \<in> {None, Some v}" by simp_all
  ultimately show False using ledger_holds [of u bs] assms(2) by auto
qed

text \<open>
  The law of a step that reports its actions: the ledger follows the holder and the
  report is exclusive. Any machine with such a step has exclusive runs.
\<close>

locale action_log =
  fixes step :: "'s \<Rightarrow> 'e \<Rightarrow> floor_action list \<times> 's" and holder :: "'s \<Rightarrow> string option"
  assumes step_log: "step s e = (as, s') \<Longrightarrow> exclusive (holder s) as \<and> ledger (holder s) as = holder s'"
begin

fun run_log :: "'s \<Rightarrow> 'e list \<Rightarrow> floor_action list \<times> 's" where
  "run_log s [] = ([], s)"
| "run_log s (e # es) =
     (let (as, s1) = step s e; (bs, s2) = run_log s1 es in (as @ bs, s2))"

lemma run_exclusive:
  "run_log s es = (as, s') \<Longrightarrow> exclusive (holder s) as \<and> ledger (holder s) as = holder s'"
proof (induction es arbitrary: s as s')
  case (Cons e es)
  obtain as1 s1 where 1: "step s e = (as1, s1)" by fastforce
  obtain as2 s2 where 2: "run_log s1 es = (as2, s2)" by fastforce
  from Cons.prems 1 2 have "as = as1 @ as2" and "s' = s2" by simp_all
  with Cons.IH [OF 2] step_log [OF 1] show ?case by simp
qed simp

end

text \<open>The events of a run: the calls of the handlers and of the timer task.\<close>

datatype floor_event =
    Request string u64
  | Release string
  | Ping string u64
  | Check_timers u64
  | Leave string

fun floor_step :: "floor_state \<Rightarrow> floor_event \<Rightarrow> floor_action list \<times> floor_state" where
  "floor_step s (Request u t) = (case floor_request s u t of (a, s') \<Rightarrow> ([a], s'))"
| "floor_step s (Release u) = (case floor_release s u of (a, s') \<Rightarrow> ([a], s'))"
| "floor_step s (Ping u t) = (case floor_ping s u t of (a, s') \<Rightarrow> ([a], s'))"
| "floor_step s (Check_timers t) =
     (case check_timers s t of (None, s') \<Rightarrow> ([], s') | (Some a, s') \<Rightarrow> ([a], s'))"
| "floor_step s (Leave u) =
     (case on_participant_leave s u of (None, s') \<Rightarrow> ([], s') | (Some a, s') \<Rightarrow> ([a], s'))"

fun floor_run :: "floor_state \<Rightarrow> floor_event list \<Rightarrow> floor_action list \<times> floor_state" where
  "floor_run s [] = ([], s)"
| "floor_run s (e # es) =
     (let (as, s1) = floor_step s e; (bs, s2) = floor_run s1 es in (as @ bs, s2))"

interpretation fl: action_log floor_step current_speaker
proof
  fix s e as s'
  assume "floor_step s e = (as, s')"
  then show "exclusive (current_speaker s) as \<and> ledger (current_speaker s) as = current_speaker s'"
    by (cases e; cases s) (auto split: prod.splits option.splits if_splits)
qed

lemma floor_run_log: "floor_run s es = fl.run_log s es"
  by (induction es arbitrary: s) (simp_all split: prod.splits)

section \<open>Properties\<close>

text \<open>
  C8: mutual exclusion on the floor. In the actions that any run of requests, releases,
  pings, timer checks and departures produces from a free floor, a grant to one user and
  a later grant to another have a release or a revocation between them; and who holds the
  floor is at every moment what the actions say.
\<close>

theorem floor_mutual_exclusion:
  assumes "floor_run floor_new es = (as @ Granted u # bs @ Granted v # cs, s)" and "u \<noteq> v"
  shows "(\<exists>a \<in> set bs. frees a) \<and>
         current_speaker s = ledger None (as @ Granted u # bs @ Granted v # cs)"
proof -
  from fl.run_exclusive [OF assms(1) [unfolded floor_run_log]]
  have ex: "exclusive None (as @ Granted u # bs @ Granted v # cs)"
    and "ledger None (as @ Granted u # bs @ Granted v # cs) = current_speaker s"
    by (simp_all add: fc.holder_init)
  with exclusive_handover [OF ex assms(2)] show ?thesis by simp
qed

theorem floor_mutual_exclusion_witness:
  "(\<exists>a \<in> set [Denied ''channel busy'' ''a'', Released ''a'']. frees a) \<and>
   current_speaker (Taken ''b'' 9 9) =
     ledger None ([] @ Granted ''a'' # [Denied ''channel busy'' ''a'', Released ''a'']
       @ Granted ''b'' # [])"
  by (rule floor_mutual_exclusion
        [of "[Request ''a'' 1, Request ''b'' 2, Release ''a'', Request ''b'' 9]"])
     (simp_all add: floor_new_def)

text \<open>
  A talk burst keeps its start: while the floor is not freed, no event changes the
  speaker or the start of the burst, and only the speaker's own pings move the last ping.
\<close>

lemma floor_step_burst:
  assumes "floor_step (Taken u b p) e = (as, s')" and "\<forall>a \<in> set as. \<not> frees a"
  shows "\<exists>p'. s' = Taken u b p' \<and> (p' = p \<or> e = Ping u p')"
  using assms by (cases e) (auto split: if_splits option.splits prod.splits)

lemma floor_run_burst:
  assumes "floor_run (Taken u b p) es = (as, s')" and "\<forall>a \<in> set as. \<not> frees a"
  shows "\<exists>p'. s' = Taken u b p' \<and> (p' = p \<or> Ping u p' \<in> set es)"
  using assms
proof (induction es arbitrary: p as)
  case (Cons e es)
  obtain as1 s1 where 1: "floor_step (Taken u b p) e = (as1, s1)" by fastforce
  obtain as2 s2 where 2: "floor_run s1 es = (as2, s2)" by fastforce
  from Cons.prems 1 2 have as: "as = as1 @ as2" "s' = s2" by simp_all
  with Cons.prems floor_step_burst [OF 1] obtain p1
    where p1: "s1 = Taken u b p1" "p1 = p \<or> e = Ping u p1" by auto
  with Cons.IH [of p1 as2] 2 as Cons.prems show ?case by auto
qed simp

lemma floor_run_check:
  assumes "floor_run (Taken u b p) es = (as, s')" and "Check_timers t \<in> set es"
    and "unat b + 30000 < unat t \<or>
         (unat p + 5000 < unat t \<and> (\<forall>q. Ping u q \<notin> set es))"
  shows "\<exists>a \<in> set as. frees a"
  using assms
proof (induction es arbitrary: p as)
  case (Cons e es)
  obtain as1 s1 where 1: "floor_step (Taken u b p) e = (as1, s1)" by fastforce
  obtain as2 s2 where 2: "floor_run s1 es = (as2, s2)" by fastforce
  from Cons.prems 1 2 have as: "as = as1 @ as2" "s' = s2" by simp_all
  show ?case
  proof (rule ccontr)
    assume no: "\<not> (\<exists>a \<in> set as. frees a)"
    with as have "\<forall>a \<in> set as1. \<not> frees a" by auto
    with floor_step_burst [OF 1] obtain p1
      where p1: "s1 = Taken u b p1" "p1 = p \<or> e = Ping u p1" by auto
    show False
    proof (cases "e = Check_timers t")
      case True
      with 1 Cons.prems(3) have "\<exists>a \<in> set as1. frees a"
        by (auto simp: sat_sub_greater_iff config_defs split: if_splits)
      with no as show False by auto
    next
      case False
      with Cons.prems(2) have "Check_timers t \<in> set es" by auto
      moreover from p1 Cons.prems(3)
      have "unat b + 30000 < unat t \<or> (unat p1 + 5000 < unat t \<and> (\<forall>q. Ping u q \<notin> set es))"
        by auto
      ultimately have "\<exists>a \<in> set as2. frees a"
        using Cons.IH [of p1 as2] 2 p1(1) as(2) by simp
      with no as show False by auto
    qed
  qed
qed simp

text \<open>
  C34: no talk burst outlives its timers. From a state where a user has held the floor
  since \<open>b\<close> and pinged last at \<open>p\<close>, every run that contains a timer check later than
  \<open>b\<close> plus 30 s, or later than \<open>p\<close> plus 5 s with no ping of the speaker in the run,
  frees the floor, whatever the other users and the speaker do meanwhile: neither pings
  nor repeated requests extend a burst.
\<close>

theorem floor_burst_bounded:
  assumes "floor_run (Taken u b p) es = (as, s')" and "Check_timers t \<in> set es"
    and "unat b + 30000 < unat t \<or> (unat p + 5000 < unat t \<and> (\<forall>q. Ping u q \<notin> set es))"
  shows "\<exists>a \<in> set as. frees a"
  by (rule floor_run_check [OF assms])

theorem floor_burst_bounded_witness:
  "\<exists>a \<in> set [PingOk, Granted ''a'', Revoked ''a'' ''max burst exceeded'']. frees a"
  by (rule floor_burst_bounded [of "''a''" 0 0
        "[Ping ''a'' 29000, Request ''a'' 29500, Check_timers 30001]" _ Idle 30001])
     (simp_all add: sat_sub_def config_defs)

text \<open>
  A timer check that does not revoke changes nothing, and it does not revoke exactly
  when the floor is free or both limits still hold (also when the clock went backwards:
  the subtraction saturates). A revocation names the speaker and the first limit that
  was passed, the burst limit before the ping limit.
\<close>

theorem check_timers_spec:
  "check_timers s t =
     (case s of
        Idle \<Rightarrow> (None, Idle)
      | Taken u b p \<Rightarrow>
          (if unat b + 30000 < unat t then (Some (Revoked u ''max burst exceeded''), Idle)
           else if unat p + 5000 < unat t then (Some (Revoked u ''participant lost''), Idle)
           else (None, s)))"
  by (cases s) (simp_all add: sat_sub_greater_iff config_defs)

end
