(* ===== verification/Stun.thy ===== *)
theory Stun
  imports Config
begin

text \<open>
  The STUN parser and builder of the ICE-lite agent (\<open>src/transport/stun.rs\<close>), and the
  packet demultiplexer (\<open>src/transport/demux.rs\<close>). The HMAC-SHA1 of the \<open>hmac\<close> and
  \<open>sha1\<close> packages and the CRC-32 of \<open>crc32fast\<close> are parameters. A socket address is an
  IPv4 address or an IPv6 address (with flow information and scope) and its port.
\<close>

section \<open>Strings and addresses\<close>

definition bytes_of :: "string \<Rightarrow> bytes" where
  "bytes_of s = map (\<lambda>c. of_nat (of_char c)) s"

definition str_of :: "bytes \<Rightarrow> string" where
  "str_of bs = map (\<lambda>b. char_of (unat b)) bs"

lemma bytes_of_str_of [simp]: "bytes_of (str_of bs) = bs"
proof -
  have "unat b mod 256 = unat b" for b :: u8
  proof -
    have "unat b < 2 ^ LENGTH(8)" by (rule unsigned_less)
    then show ?thesis by simp
  qed
  then show ?thesis by (simp add: bytes_of_def str_of_def comp_def)
qed

lemma bytes_of_append [simp]: "bytes_of (s @ t) = bytes_of s @ bytes_of t"
  by (simp add: bytes_of_def)

lemma length_bytes_of [simp]: "length (bytes_of s) = length s"
  by (simp add: bytes_of_def)

text \<open>Well-formed UTF-8, as \<open>str::from_utf8\<close> decides it.\<close>

definition between :: "u8 \<Rightarrow> u8 \<Rightarrow> u8 \<Rightarrow> bool" where
  "between lo hi b \<longleftrightarrow> lo \<le> b \<and> b \<le> hi"

fun valid_utf8 :: "bytes \<Rightarrow> bool" where
  "valid_utf8 [] = True"
| "valid_utf8 (a # bs) =
     (if a < 0x80 then valid_utf8 bs
      else if between 0xC2 0xDF a then (case bs of
          b # rest \<Rightarrow> between 0x80 0xBF b \<and> valid_utf8 rest
        | _ \<Rightarrow> False)
      else if between 0xE0 0xEF a then (case bs of
          b # c # rest \<Rightarrow>
            (if a = 0xE0 then between 0xA0 0xBF b
             else if a = 0xED then between 0x80 0x9F b
             else between 0x80 0xBF b) \<and> between 0x80 0xBF c \<and> valid_utf8 rest
        | _ \<Rightarrow> False)
      else if between 0xF0 0xF4 a then (case bs of
          b # c # d # rest \<Rightarrow>
            (if a = 0xF0 then between 0x90 0xBF b
             else if a = 0xF4 then between 0x80 0x8F b
             else between 0x80 0xBF b) \<and> between 0x80 0xBF c \<and> between 0x80 0xBF d \<and>
            valid_utf8 rest
        | _ \<Rightarrow> False)
      else False)"

datatype sockaddr =
    V4 u32 u16
  | V6 "128 word" u16 u32 u32

definition to_be128 :: "128 word \<Rightarrow> bytes" where
  "to_be128 w = map (\<lambda>i. ucast (drop_bit (120 - 8 * i) w)) [0..<16]"

lemma length_to_be128 [simp]: "length (to_be128 w) = 16"
  by (simp add: to_be128_def)

section \<open>Constants\<close>

definition MAGIC_COOKIE :: u32 where [config_defs]: "MAGIC_COOKIE = 0x2112A442"
definition HEADER_SIZE :: nat where [config_defs]: "HEADER_SIZE = 20"
definition BINDING_REQUEST :: u16 where [config_defs]: "BINDING_REQUEST = 0x0001"
definition BINDING_RESPONSE :: u16 where [config_defs]: "BINDING_RESPONSE = 0x0101"
definition ATTR_USERNAME :: u16 where [config_defs]: "ATTR_USERNAME = 0x0006"
definition ATTR_MESSAGE_INTEGRITY :: u16 where [config_defs]: "ATTR_MESSAGE_INTEGRITY = 0x0008"
definition ATTR_XOR_MAPPED_ADDRESS :: u16 where [config_defs]: "ATTR_XOR_MAPPED_ADDRESS = 0x0020"
definition ATTR_PRIORITY :: u16 where [config_defs]: "ATTR_PRIORITY = 0x0024"
definition ATTR_USE_CANDIDATE :: u16 where [config_defs]: "ATTR_USE_CANDIDATE = 0x0025"
definition ATTR_FINGERPRINT :: u16 where [config_defs]: "ATTR_FINGERPRINT = 0x8028"
definition ATTR_SOFTWARE :: u16 where [config_defs]: "ATTR_SOFTWARE = 0x8022"
definition ADDR_FAMILY_IPV4 :: u8 where [config_defs]: "ADDR_FAMILY_IPV4 = 0x01"
definition ADDR_FAMILY_IPV6 :: u8 where [config_defs]: "ADDR_FAMILY_IPV6 = 0x02"

section \<open>Parsing\<close>

record stun_attribute =
  attr_type :: u16
  attr_value :: bytes

record stun_message =
  msg_type :: u16
  msg_length :: u16
  transaction_id :: bytes
  attributes :: "stun_attribute list"
  raw :: bytes

function attr_loop :: "bytes \<Rightarrow> nat \<Rightarrow> nat \<Rightarrow> stun_attribute list option" where
  "attr_loop buf total_len offset =
     (if offset + 4 \<le> total_len
      then do {
        t \<leftarrow> rd16 buf offset;
        l \<leftarrow> rd16 buf (offset + 2);
        let attr_len = unat l;
        if offset + 4 + attr_len > total_len then Some []
        else do {
          v \<leftarrow> slice buf (offset + 4) (offset + 4 + attr_len);
          attrs \<leftarrow> attr_loop buf total_len (offset + 4 + align4 attr_len);
          Some (\<lparr>attr_type = t, attr_value = v\<rparr> # attrs) } }
      else Some [])"
  by pat_completeness auto
termination
  by (relation "measure (\<lambda>(buf, total, off). total - off)") auto

declare attr_loop.simps [simp del]

definition stun_parse :: "bytes \<Rightarrow> stun_message option option" where
  "stun_parse buf =
     (if length buf < HEADER_SIZE then Some None
      else do {
        b0 \<leftarrow> idx buf 0;
        if b0 AND 0xC0 \<noteq> 0 then Some None
        else do {
          t \<leftarrow> rd16 buf 0;
          len \<leftarrow> rd16 buf 2;
          cookie \<leftarrow> rd32 buf 4;
          if cookie \<noteq> MAGIC_COOKIE then Some None
          else if len mod 4 \<noteq> 0 then Some None
          else do {
            let total_len = HEADER_SIZE + unat len;
            if length buf < total_len then Some None
            else do {
              tid \<leftarrow> slice buf 8 20;
              attrs \<leftarrow> attr_loop buf total_len HEADER_SIZE;
              r \<leftarrow> slice buf 0 total_len;
              Some (Some \<lparr>msg_type = t, msg_length = len, transaction_id = tid,
                          attributes = attrs, raw = r\<rparr>) } } } })"

definition get_attr :: "stun_message \<Rightarrow> u16 \<Rightarrow> stun_attribute option" where
  "get_attr msg t = List.find (\<lambda>a. attr_type a = t) (attributes msg)"

definition username :: "stun_message \<Rightarrow> string option" where
  "username msg = Option.bind (get_attr msg ATTR_USERNAME)
     (\<lambda>a. if valid_utf8 (attr_value a) then Some (str_of (attr_value a)) else None)"

definition has_use_candidate :: "stun_message \<Rightarrow> bool" where
  "has_use_candidate msg \<longleftrightarrow> get_attr msg ATTR_USE_CANDIDATE \<noteq> None"

definition priority :: "stun_message \<Rightarrow> u32 option option" where
  "priority msg =
     (case get_attr msg ATTR_PRIORITY of
        None \<Rightarrow> Some None
      | Some a \<Rightarrow> if length (attr_value a) = 4
          then do { w \<leftarrow> rd32 (attr_value a) 0; Some (Some w) }
          else Some None)"

definition message_integrity :: "stun_message \<Rightarrow> bytes option" where
  "message_integrity msg = map_option attr_value (get_attr msg ATTR_MESSAGE_INTEGRITY)"

section \<open>Building\<close>

definition write_attr :: "bytes \<Rightarrow> u16 \<Rightarrow> bytes \<Rightarrow> bytes" where
  "write_attr buf t value =
     (let padding = (4 - length value mod 4) mod 4
      in buf @ to_be16 t @ to_be16 (of_nat (length value)) @ value @ replicate padding 0)"

definition encode_xor_mapped_address :: "sockaddr \<Rightarrow> bytes \<Rightarrow> bytes" where
  "encode_xor_mapped_address addr tid =
     (case addr of
        V4 ip port \<Rightarrow>
          [0x00, ADDR_FAMILY_IPV4] @ to_be16 (port XOR ucast (drop_bit 16 MAGIC_COOKIE))
          @ map2 (XOR) (to_be32 ip) (to_be32 MAGIC_COOKIE)
      | V6 ip port flowinfo scope_id \<Rightarrow>
          [0x00, ADDR_FAMILY_IPV6] @ to_be16 (port XOR ucast (drop_bit 16 MAGIC_COOKIE))
          @ map2 (XOR) (to_be128 ip) (to_be32 MAGIC_COOKIE @ tid))"

definition build_binding_response ::
  "(bytes \<Rightarrow> bytes \<Rightarrow> bytes) \<Rightarrow> (bytes \<Rightarrow> u32) \<Rightarrow> bytes \<Rightarrow> sockaddr \<Rightarrow> bytes \<Rightarrow> bytes option" where
  "build_binding_response hmac_sha1 crc32 tid remote_addr integrity_key = do {
     let buf = to_be16 BINDING_RESPONSE @ to_be16 0 @ to_be32 MAGIC_COOKIE @ tid;
     let xma = encode_xor_mapped_address remote_addr tid;
     let buf = write_attr buf ATTR_XOR_MAPPED_ADDRESS xma;
     let buf = write_attr buf ATTR_SOFTWARE (bytes_of ''light-livechat'');
     let len_before_mi = length buf - HEADER_SIZE + 24;
     buf \<leftarrow> write_at buf 2 (to_be16 (of_nat len_before_mi));
     let hmac_value = hmac_sha1 buf integrity_key;
     let buf = write_attr buf ATTR_MESSAGE_INTEGRITY hmac_value;
     let len_before_fp = length buf - HEADER_SIZE + 8;
     buf \<leftarrow> write_at buf 2 (to_be16 (of_nat len_before_fp));
     let crc = crc32 buf XOR 0x5354554E;
     let buf = write_attr buf ATTR_FINGERPRINT (to_be32 crc);
     write_at buf 2 (to_be16 (of_nat (length buf - HEADER_SIZE))) }"

section \<open>Integrity\<close>

function attr_offset_loop :: "bytes \<Rightarrow> u16 \<Rightarrow> nat \<Rightarrow> nat option option" where
  "attr_offset_loop buf target offset =
     (if offset + 4 \<le> length buf
      then do {
        t \<leftarrow> rd16 buf offset;
        if t = target then Some (Some offset)
        else do {
          l \<leftarrow> rd16 buf (offset + 2);
          attr_offset_loop buf target (offset + (4 + align4 (unat l))) } }
      else Some None)"
  by pat_completeness auto
termination
  by (relation "measure (\<lambda>(buf, t, off). length buf - off)") auto

declare attr_offset_loop.simps [simp del]

definition find_attr_offset :: "bytes \<Rightarrow> u16 \<Rightarrow> nat option option" where
  "find_attr_offset buf target = attr_offset_loop buf target HEADER_SIZE"

definition verify_message_integrity ::
  "(bytes \<Rightarrow> bytes \<Rightarrow> bytes) \<Rightarrow> stun_message \<Rightarrow> bytes \<Rightarrow> bool option" where
  "verify_message_integrity hmac_sha1 msg key =
     (case message_integrity msg of
        None \<Rightarrow> Some False
      | Some received_hmac \<Rightarrow> do {
          mi \<leftarrow> find_attr_offset (raw msg) ATTR_MESSAGE_INTEGRITY;
          case mi of
            None \<Rightarrow> Some False
          | Some mi_offset \<Rightarrow> do {
              tmp \<leftarrow> slice (raw msg) 0 mi_offset;
              tmp \<leftarrow> write_at tmp 2 (to_be16 (of_nat (mi_offset - HEADER_SIZE + 24)));
              let expected = hmac_sha1 tmp key;
              Some (length expected = length received_hmac \<and>
                    list_all (\<lambda>(a, b). a = b) (zip expected received_hmac)) } })"

definition ice_integrity_key :: "string \<Rightarrow> bytes" where
  "ice_integrity_key password = bytes_of password"

section \<open>Demultiplexing\<close>

datatype packet_type = Stun_Packet | Dtls_Packet | Srtp_Packet | Unknown_Packet

definition classify :: "bytes \<Rightarrow> packet_type" where
  "classify buf =
     (case buf of
        [] \<Rightarrow> Unknown_Packet
      | first # _ \<Rightarrow>
          if DEMUX_STUN_MIN \<le> first \<and> first \<le> DEMUX_STUN_MAX then Stun_Packet
          else if DEMUX_DTLS_MIN \<le> first \<and> first \<le> DEMUX_DTLS_MAX then Dtls_Packet
          else if DEMUX_RTP_MIN \<le> first \<and> first \<le> DEMUX_RTP_MAX then Srtp_Packet
          else Unknown_Packet)"

section \<open>No panics\<close>

lemma attr_loop_total: "total_len \<le> length buf \<Longrightarrow> attr_loop buf total_len offset \<noteq> None"
proof (induction buf total_len offset rule: attr_loop.induct)
  case (1 buf total_len offset)
  show ?case
    by (subst attr_loop.simps, intro total) (use 1 in \<open>auto simp: not_less\<close>)
qed

lemma attr_offset_loop_total: "attr_offset_loop buf t offset \<noteq> None"
proof (induction buf t offset rule: attr_offset_loop.induct)
  case (1 buf t offset)
  show ?case
    by (subst attr_offset_loop.simps, intro total) (use 1 in auto)
qed

lemma attr_offset_loop_bounds:
  "attr_offset_loop buf t offset = Some (Some i) \<Longrightarrow> offset \<le> i \<and> i + 4 \<le> length buf"
proof (induction buf t offset rule: attr_offset_loop.induct)
  case (1 buf t offset)
  then show ?case
    unfolding attr_offset_loop.simps [of buf t offset]
    by (fastforce simp: Let_def split: if_splits Option.bind_splits)
qed

lemma verify_message_integrity_total: "verify_message_integrity h msg key \<noteq> None"
proof (cases "message_integrity msg")
  case (Some mac)
  obtain mi where mi: "find_attr_offset (raw msg) ATTR_MESSAGE_INTEGRITY = Some mi"
    using attr_offset_loop_total unfolding find_attr_offset_def by fast
  show ?thesis
  proof (cases mi)
    case None
    then show ?thesis by (simp add: verify_message_integrity_def Some mi)
  next
    case i: (Some i)
    have b: "20 \<le> i \<and> i + 4 \<le> length (raw msg)"
      using attr_offset_loop_bounds mi i by (fastforce simp: find_attr_offset_def HEADER_SIZE_def)
    have "take i (raw msg) \<noteq> [] \<and> 4 \<le> length (take i (raw msg))" using b by auto
    then show ?thesis using b by (simp add: verify_message_integrity_def Some mi i Let_def)
  qed
qed (simp add: verify_message_integrity_def)

text \<open>
  STUN input is handled without panics. Whatever bytes arrive, parsing them never
  indexes out of range, the attribute accessors neither, and verifying the integrity of
  any message (even one that no parser built) never slices out of range.
\<close>

theorem stun_input_total:
  "stun_parse buf \<noteq> None \<and> priority msg \<noteq> None \<and> verify_message_integrity h msg key \<noteq> None"
proof (intro conjI)
  show "stun_parse buf \<noteq> None"
    unfolding stun_parse_def
    by (intro total attr_loop_total) (auto simp: config_defs not_less)
  show "priority msg \<noteq> None"
    by (auto simp: priority_def split: option.splits)
  show "verify_message_integrity h msg key \<noteq> None"
    by (rule verify_message_integrity_total)
qed

section \<open>The wire format\<close>

text \<open>A message as a list of attributes, and its bytes.\<close>

definition encode_attr :: "stun_attribute \<Rightarrow> bytes" where
  "encode_attr a = write_attr [] (attr_type a) (attr_value a)"

definition encode_attrs :: "stun_attribute list \<Rightarrow> bytes" where
  "encode_attrs as = concat (map encode_attr as)"

definition stun_header :: "u16 \<Rightarrow> nat \<Rightarrow> bytes \<Rightarrow> bytes" where
  "stun_header t n tid = to_be16 t @ to_be16 (of_nat n) @ to_be32 MAGIC_COOKIE @ tid"

definition stun_packet :: "u16 \<Rightarrow> bytes \<Rightarrow> stun_attribute list \<Rightarrow> bytes" where
  "stun_packet t tid as = stun_header t (length (encode_attrs as)) tid @ encode_attrs as"

lemma write_attr_append: "write_attr buf t v = buf @ encode_attr \<lparr>attr_type = t, attr_value = v\<rparr>"
  by (simp add: encode_attr_def write_attr_def Let_def)

lemma padded_length: "n + (4 - n mod 4) mod 4 = align4 n"
proof -
  consider "n mod 4 = 0" | "n mod 4 = 1" | "n mod 4 = 2" | "n mod 4 = 3" by fastforce
  then show ?thesis
  proof cases
    case 1 then show ?thesis by (simp add: align4_eq) presburger
  next
    case 2 then show ?thesis by (simp add: align4_eq) presburger
  next
    case 3 then show ?thesis by (simp add: align4_eq) presburger
  next
    case 4 then show ?thesis by (simp add: align4_eq) presburger
  qed
qed

lemma length_encode_attr: "length (encode_attr a) = 4 + align4 (length (attr_value a))"
  using padded_length [of "length (attr_value a)"] by (simp add: encode_attr_def write_attr_def Let_def)

lemma encode_attrs_simps [simp]:
  "encode_attrs [] = []"
  "encode_attrs (a # as) = encode_attr a @ encode_attrs as"
  "encode_attrs (as @ bs) = encode_attrs as @ encode_attrs bs"
  by (simp_all add: encode_attrs_def)

lemma length_encode_attrs_mod: "length (encode_attrs as) mod 4 = 0"
proof (induction as)
  case (Cons a as)
  have "(x + y) mod 4 = 0" if "x mod 4 = 0" "y mod 4 = 0" for x y :: nat using that by presburger
  then show ?case using Cons by (simp add: length_encode_attr)
qed simp

lemma length_stun_header [simp]: "length (stun_header t n tid) = 8 + length tid"
  by (simp add: stun_header_def)

lemma unat_of_nat16 [simp]: "n < 65536 \<Longrightarrow> unat (of_nat n :: u16) = n"
  by (simp add: unat_of_nat take_bit_nat_eq_self)

text \<open>The type and the length of an attribute in place.\<close>

lemma attr_fields:
  fixes a :: stun_attribute
  shows "n = length pre \<Longrightarrow> rd16 (pre @ encode_attr a @ post) n = Some (attr_type a)"
    and "n = length pre + 2 \<Longrightarrow>
      rd16 (pre @ encode_attr a @ post) n = Some (of_nat (length (attr_value a)))"
    and "n = length pre + 4 \<Longrightarrow> m = n + length (attr_value a) \<Longrightarrow>
      slice (pre @ encode_attr a @ post) n m = Some (attr_value a)"
proof -
  let ?pad = "replicate ((4 - length (attr_value a) mod 4) mod 4) (0 :: u8)"
  let ?l = "of_nat (length (attr_value a)) :: u16"
  have e: "encode_attr a = to_be16 (attr_type a) @ to_be16 ?l @ attr_value a @ ?pad"
    by (simp add: encode_attr_def write_attr_def Let_def)
  show "n = length pre \<Longrightarrow> rd16 (pre @ encode_attr a @ post) n = Some (attr_type a)"
    unfolding e append_assoc by (rule be16.get_at)
  show "n = length pre + 2 \<Longrightarrow> rd16 (pre @ encode_attr a @ post) n = Some ?l"
    using be16.get_at [of n "pre @ to_be16 (attr_type a)" ?l "attr_value a @ ?pad @ post"]
    unfolding e by (simp del: rd16_in_range)
  show "n = length pre + 4 \<Longrightarrow> m = n + length (attr_value a) \<Longrightarrow>
      slice (pre @ encode_attr a @ post) n m = Some (attr_value a)"
    using slice_middle [of n "pre @ to_be16 (attr_type a) @ to_be16 ?l" m "attr_value a" "?pad @ post"]
    unfolding e by (simp del: slice_in_range)
qed

lemma attr_loop_encoded:
  assumes "\<forall>a \<in> set as. length (attr_value a) < 65536"
  shows "attr_loop (pre @ encode_attrs as @ post) (length pre + length (encode_attrs as)) (length pre) = Some as"
  using assms
proof (induction as arbitrary: pre)
  case Nil
  then show ?case by (subst attr_loop.simps) simp
next
  case (Cons a as)
  let ?buf = "pre @ encode_attr a @ encode_attrs as @ post"
  let ?total = "length pre + length (encode_attrs (a # as))"
  have "attr_loop ?buf ?total (length pre + 4 + align4 (length (attr_value a))) = Some as"
    using Cons.IH [of "pre @ encode_attr a"] Cons.prems by (simp add: length_encode_attr add.assoc)
  moreover have "rd16 ?buf (length pre) = Some (attr_type a)"
    "rd16 ?buf (length pre + 2) = Some (of_nat (length (attr_value a)))"
    "slice ?buf (length pre + 4) (length pre + 4 + length (attr_value a)) = Some (attr_value a)"
    by (rule attr_fields; simp)+
  moreover have "length pre + 4 + length (attr_value a) \<le> ?total"
    using align4_ge [of "length (attr_value a)"] by (simp add: length_encode_attr)
  ultimately show ?case using Cons.prems
    by (subst attr_loop.simps) (simp add: length_encode_attr Let_def del: rd16_in_range slice_in_range)
qed

lemma attr_offset_encoded:
  assumes "\<forall>a \<in> set as. attr_type a \<noteq> t \<and> length (attr_value a) < 65536" and "attr_type b = t"
  shows "attr_offset_loop (pre @ encode_attrs as @ encode_attr b @ post) t (length pre) =
    Some (Some (length pre + length (encode_attrs as)))"
  using assms(1)
proof (induction as arbitrary: pre)
  case Nil
  have "rd16 (pre @ encode_attr b @ post) (length pre) = Some (attr_type b)" by (rule attr_fields) simp
  then show ?case using assms(2)
    by (subst attr_offset_loop.simps) (simp add: length_encode_attr del: rd16_in_range)
next
  case (Cons a as)
  let ?post = "encode_attrs as @ encode_attr b @ post"
  let ?buf = "pre @ encode_attr a @ ?post"
  have "attr_offset_loop ?buf t (length pre + (4 + align4 (length (attr_value a)))) =
      Some (Some (length pre + length (encode_attrs (a # as))))"
    using Cons.IH [of "pre @ encode_attr a"] Cons.prems by (simp add: length_encode_attr add.assoc)
  moreover have "rd16 ?buf (length pre) = Some (attr_type a)"
    "rd16 ?buf (length pre + 2) = Some (of_nat (length (attr_value a)))"
    by (rule attr_fields; simp)+
  ultimately show ?case using Cons.prems
    by (subst attr_offset_loop.simps) (simp add: length_encode_attr Let_def del: rd16_in_range)
qed

definition sane_attrs :: "stun_attribute list \<Rightarrow> bool" where
  "sane_attrs as \<longleftrightarrow> length (encode_attrs as) < 65536"

lemma sane_attrs_values: "sane_attrs as \<Longrightarrow> a \<in> set as \<Longrightarrow> length (attr_value a) < 65536"
proof -
  assume s: "sane_attrs as" and "a \<in> set as"
  then obtain xs ys where "as = xs @ a # ys" by (meson split_list)
  then have "length (attr_value a) \<le> length (encode_attrs as)"
    using align4_ge [of "length (attr_value a)"] by (simp add: length_encode_attr)
  then show ?thesis using s by (simp add: sane_attrs_def)
qed

lemma word16_mod4: "n < 65536 \<Longrightarrow> n mod 4 = 0 \<Longrightarrow> (of_nat n :: u16) mod 4 = 0"
proof -
  assume "n < 65536" and "n mod 4 = 0"
  then have "unat ((of_nat n :: u16) mod 4) = 0" by (simp add: unat_mod)
  then show ?thesis by (simp only: unat_eq_zero)
qed

lemma of_be16_top:
  assumes "t < 0x4000"
  shows "ucast (drop_bit 8 (t :: u16)) AND (0xC0 :: u8) = 0"
proof -
  have "(0x4000 :: u16) = 2 ^ 14" by simp
  then have t: "t AND mask 14 = t" using assms by (intro less_mask_eq) simp
  have c0: "(0xC0 :: u8) = push_bit 6 (mask 2)" by (simp add: mask_eq_exp_minus_1)
  have "bit t k \<Longrightarrow> k < 14" for k
    using t by (metis bit_and_iff bit_mask_iff)
  then show ?thesis unfolding c0 by (intro bit_word_eqI) (fastforce simp: bit_simps add.commute)
qed

lemma stun_parse_packet:
  assumes "t < 0x4000" and "length tid = 12" and "sane_attrs as"
  shows "stun_parse (stun_packet t tid as @ extra) =
    Some (Some \<lparr>msg_type = t, msg_length = of_nat (length (encode_attrs as)), transaction_id = tid,
                attributes = as, raw = stun_packet t tid as\<rparr>)"
proof -
  let ?n = "length (encode_attrs as)"
  let ?buf = "stun_packet t tid as @ extra"
  obtain w where w: "w = (of_nat ?n :: u16)" by simp
  have uw: "unat w = ?n" using assms(3) by (simp add: w sane_attrs_def)
  have wm: "w mod 4 = 0"
    unfolding w using assms(3) length_encode_attrs_mod by (intro word16_mod4) (simp_all add: sane_attrs_def)
  have buf: "?buf = to_be16 t @ to_be16 w @ to_be32 MAGIC_COOKIE @ tid @ encode_attrs as @ extra"
    by (simp add: stun_packet_def stun_header_def w)
  have len: "length ?buf = 20 + ?n + length extra" using assms(2) by (simp add: stun_packet_def)
  have "rd16 ?buf 0 = Some t" unfolding buf by (rule be16.get_head)
  moreover have "rd16 ?buf 2 = Some w" unfolding buf by (rule be16.get_at) simp
  moreover have "rd32 ?buf 4 = Some MAGIC_COOKIE"
    using be32.get_at [of 4 "to_be16 t @ to_be16 w" MAGIC_COOKIE] by (simp add: buf del: rd32_in_range)
  moreover have "idx ?buf 0 = Some (ucast (drop_bit 8 t))" by (simp add: buf to_be16_def idx_def)
  moreover have "slice ?buf 8 20 = Some tid"
    using slice_middle [of 8 "to_be16 t @ to_be16 w @ to_be32 MAGIC_COOKIE" 20 tid "encode_attrs as @ extra"] assms(2)
    by (simp add: buf del: slice_in_range)
  moreover have "slice ?buf 0 (20 + ?n) = Some (stun_packet t tid as)"
    using slice_middle [of 0 "[]" "20 + ?n" "stun_packet t tid as" extra] assms(2)
    by (simp add: stun_packet_def del: slice_in_range)
  moreover have "attr_loop ?buf (20 + ?n) 20 = Some as"
    using attr_loop_encoded [of as "to_be16 t @ to_be16 w @ to_be32 MAGIC_COOKIE @ tid" extra]
      sane_attrs_values [OF assms(3)] assms(2) by (simp add: buf)
  ultimately show ?thesis
    using of_be16_top [OF assms(1)] len unfolding stun_parse_def
    by (simp add: uw wm w [symmetric] Let_def HEADER_SIZE_def
        del: idx_in_range rd16_in_range rd32_in_range slice_in_range)
qed

text \<open>
  STUN round trip. The bytes of a message of any type below \<open>0x4000\<close>, transaction and
  list of attributes whose total size the length field can describe are parsed to exactly
  this message, whatever follows it in the datagram.
\<close>

theorem stun_parse_roundtrip:
  assumes "t < 0x4000" and "length tid = 12" and "sane_attrs as"
  shows "stun_parse (stun_packet t tid as @ extra) =
    Some (Some \<lparr>msg_type = t, msg_length = of_nat (length (encode_attrs as)), transaction_id = tid,
                attributes = as, raw = stun_packet t tid as\<rparr>)"
  by (rule stun_parse_packet [OF assms])

theorem stun_parse_roundtrip_witness:
  "stun_parse (stun_packet BINDING_REQUEST [1, 2, 3, 4, 5, 6, 7, 8, 9, 10, 11, 12]
      [\<lparr>attr_type = ATTR_PRIORITY, attr_value = [1, 2, 3, 4]\<rparr>] @ [0xFF]) =
   Some (Some \<lparr>msg_type = BINDING_REQUEST,
     msg_length = of_nat (length (encode_attrs [\<lparr>attr_type = ATTR_PRIORITY, attr_value = [1, 2, 3, 4]\<rparr>])),
     transaction_id = [1, 2, 3, 4, 5, 6, 7, 8, 9, 10, 11, 12],
     attributes = [\<lparr>attr_type = ATTR_PRIORITY, attr_value = [1, 2, 3, 4]\<rparr>],
     raw = stun_packet BINDING_REQUEST [1, 2, 3, 4, 5, 6, 7, 8, 9, 10, 11, 12]
      [\<lparr>attr_type = ATTR_PRIORITY, attr_value = [1, 2, 3, 4]\<rparr>]\<rparr>)"
  by (rule stun_parse_roundtrip)
     (simp_all add: config_defs sane_attrs_def length_encode_attr align4_eq)

text \<open>
  The bytes a MESSAGE-INTEGRITY value covers: the message up to the attribute, with a
  length field that counts the attribute itself.
\<close>

definition signed_part :: "u16 \<Rightarrow> bytes \<Rightarrow> stun_attribute list \<Rightarrow> bytes" where
  "signed_part t tid as = stun_header t (length (encode_attrs as) + 24) tid @ encode_attrs as"

lemma write_length:
  "write_at (stun_header t n tid @ rest) 2 (to_be16 (of_nat m)) = Some (stun_header t m tid @ rest)"
  by (simp add: stun_header_def to_be16_def write_at_def)

lemma list_all_zip_eq:
  "length xs = length ys \<Longrightarrow> list_all (\<lambda>(a, b). a = b) (zip xs ys) \<longleftrightarrow> xs = ys"
  by (induction xs ys rule: list_induct2) auto

lemma verify_spec:
  assumes "stun_parse (stun_packet t tid (as @ mi # rest)) = Some (Some msg)"
    and "t < 0x4000" and "length tid = 12" and "sane_attrs (as @ mi # rest)"
    and "attr_type mi = ATTR_MESSAGE_INTEGRITY" and "\<forall>a \<in> set as. attr_type a \<noteq> ATTR_MESSAGE_INTEGRITY"
  shows "verify_message_integrity hmac_sha1 msg key =
    Some (hmac_sha1 (signed_part t tid as) key = attr_value mi)"
proof -
  have msg: "attributes msg = as @ mi # rest" "raw msg = stun_packet t tid (as @ mi # rest)"
    using assms(1) stun_parse_packet [OF assms(2-4), of "[]"] by auto
  let ?n = "length (encode_attrs (as @ mi # rest))"
  let ?k = "20 + length (encode_attrs as)"
  have "\<not> (\<exists>a \<in> set as. attr_type a = ATTR_MESSAGE_INTEGRITY)" using assms(6) by blast
  then have "List.find (\<lambda>a. attr_type a = ATTR_MESSAGE_INTEGRITY) (as @ mi # rest) = Some mi"
    using assms(5) by (induction as) auto
  then have mi: "message_integrity msg = Some (attr_value mi)"
    by (simp add: message_integrity_def get_attr_def msg)
  have raw: "raw msg = stun_header t ?n tid @ encode_attrs as @ encode_attr mi @ encode_attrs rest"
    by (simp add: msg stun_packet_def)
  have "find_attr_offset (raw msg) ATTR_MESSAGE_INTEGRITY = Some (Some ?k)"
    unfolding find_attr_offset_def raw
    using attr_offset_encoded [of as ATTR_MESSAGE_INTEGRITY mi "stun_header t ?n tid" "encode_attrs rest"]
      assms sane_attrs_values [OF assms(4)] by (simp add: HEADER_SIZE_def)
  moreover have "slice (raw msg) 0 ?k = Some (stun_header t ?n tid @ encode_attrs as)"
    using slice_middle [of 0 "[]" ?k "stun_header t ?n tid @ encode_attrs as" "encode_attr mi @ encode_attrs rest"]
      assms(3) by (simp add: raw del: slice_in_range)
  moreover have "write_at (stun_header t ?n tid @ encode_attrs as) 2 (to_be16 (of_nat (?k - HEADER_SIZE + 24)))
      = Some (signed_part t tid as)"
    unfolding write_length by (simp add: signed_part_def HEADER_SIZE_def)
  ultimately show ?thesis
    by (simp add: verify_message_integrity_def mi Let_def list_all_zip_eq
        del: slice_in_range write_at_in_range cong: conj_cong) (auto simp: list_all_zip_eq)
qed

text \<open>
  What MESSAGE-INTEGRITY verification accepts. For a message as the parser returns it,
  the check succeeds exactly when the value of the first MESSAGE-INTEGRITY attribute is
  the HMAC, under the key, of the message before it with the adjusted length field;
  a message without the attribute is rejected.
\<close>

theorem verify_message_integrity_spec:
  assumes "stun_parse (stun_packet t tid (as @ mi # rest)) = Some (Some msg)"
    and "t < 0x4000" and "length tid = 12" and "sane_attrs (as @ mi # rest)"
    and "attr_type mi = ATTR_MESSAGE_INTEGRITY" and "\<forall>a \<in> set as. attr_type a \<noteq> ATTR_MESSAGE_INTEGRITY"
  shows "verify_message_integrity hmac_sha1 msg key =
    Some (hmac_sha1 (signed_part t tid as) key = attr_value mi)"
  by (rule verify_spec [OF assms])

definition demo_mi :: stun_attribute where
  "demo_mi = \<lparr>attr_type = ATTR_MESSAGE_INTEGRITY, attr_value = replicate 20 3\<rparr>"

theorem verify_message_integrity_spec_witness:
  "\<exists>msg. stun_parse (stun_packet BINDING_REQUEST (replicate 12 1) ([] @ demo_mi # [])) = Some (Some msg) \<and>
     verify_message_integrity (\<lambda>d k. replicate 20 (hd k)) msg [3] = Some True \<and>
     verify_message_integrity (\<lambda>d k. replicate 20 (hd k)) msg [4] = Some False"
proof -
  have h: "BINDING_REQUEST < 0x4000" "length (replicate 12 (1 :: u8)) = 12"
    "sane_attrs ([] @ demo_mi # [])" "attr_type demo_mi = ATTR_MESSAGE_INTEGRITY"
    "\<forall>a \<in> set []. attr_type a \<noteq> ATTR_MESSAGE_INTEGRITY"
    by (simp_all add: config_defs sane_attrs_def demo_mi_def length_encode_attr align4_eq)
  then obtain msg where m: "stun_parse (stun_packet BINDING_REQUEST (replicate 12 1) ([] @ demo_mi # [])) = Some (Some msg)"
    using stun_parse_packet [of BINDING_REQUEST "replicate 12 1" "[] @ demo_mi # []" "[]"] by auto
  show ?thesis
    using m verify_message_integrity_spec [OF m h, of "\<lambda>d k. replicate 20 (hd k)"]
    by (auto simp: demo_mi_def)
qed

end
