(* ===== verification/Srtp.thy ===== *)
theory Srtp
  imports Stun
begin

text \<open>
  SRTP contexts (\<open>src/transport/srtp.rs\<close>) and the key material a finished DTLS handshake
  exports (\<open>src/transport/dtls.rs\<close>). The context of the \<open>webrtc_srtp\<close> package is a type
  parameter; its constructor and its four transforms are the record of operations that
  every user takes as an argument.
\<close>

section \<open>The package\<close>

record 'c srtp_ops =
  ctx_new :: "bytes \<Rightarrow> bytes \<Rightarrow> 'c option"
  ctx_decrypt_rtp :: "'c \<Rightarrow> bytes \<Rightarrow> (string + bytes) \<times> 'c"
  ctx_decrypt_rtcp :: "'c \<Rightarrow> bytes \<Rightarrow> (string + bytes) \<times> 'c"
  ctx_encrypt_rtp :: "'c \<Rightarrow> bytes \<Rightarrow> (string + bytes) \<times> 'c"
  ctx_encrypt_rtcp :: "'c \<Rightarrow> bytes \<Rightarrow> (string + bytes) \<times> 'c"

section \<open>Contexts\<close>

datatype srtp_error = DecryptFailed string | EncryptFailed string | KeyNotInstalled

text \<open>The field \<open>inner\<close>: no context before the keys are installed.\<close>

type_synonym 'c srtp_context = "'c option"

definition srtp_new :: "'c srtp_context" where
  "srtp_new = None"

definition install_key :: "'c srtp_ops \<Rightarrow> 'c srtp_context \<Rightarrow> bytes \<Rightarrow> bytes \<Rightarrow> 'c srtp_context" where
  "install_key ops ctx key salt =
     (case ctx_new ops key salt of Some c \<Rightarrow> Some c | None \<Rightarrow> ctx)"

definition is_ready :: "'c srtp_context \<Rightarrow> bool" where
  "is_ready ctx \<longleftrightarrow> ctx \<noteq> None"

definition map_err :: "('a \<Rightarrow> 'b) \<Rightarrow> 'a + 'r \<Rightarrow> 'b + 'r" where
  "map_err f r = (case r of Inl e \<Rightarrow> Inl (f e) | Inr x \<Rightarrow> Inr x)"

definition decrypt_rtp ::
  "'c srtp_ops \<Rightarrow> 'c srtp_context \<Rightarrow> bytes \<Rightarrow> (srtp_error + bytes) \<times> 'c srtp_context" where
  "decrypt_rtp ops ctx packet =
     (case ctx of None \<Rightarrow> (Inl KeyNotInstalled, None)
      | Some c \<Rightarrow> (case ctx_decrypt_rtp ops c packet of (r, c') \<Rightarrow> (map_err DecryptFailed r, Some c')))"

definition decrypt_rtcp ::
  "'c srtp_ops \<Rightarrow> 'c srtp_context \<Rightarrow> bytes \<Rightarrow> (srtp_error + bytes) \<times> 'c srtp_context" where
  "decrypt_rtcp ops ctx packet =
     (case ctx of None \<Rightarrow> (Inl KeyNotInstalled, None)
      | Some c \<Rightarrow> (case ctx_decrypt_rtcp ops c packet of (r, c') \<Rightarrow> (map_err DecryptFailed r, Some c')))"

definition encrypt_rtp ::
  "'c srtp_ops \<Rightarrow> 'c srtp_context \<Rightarrow> bytes \<Rightarrow> (srtp_error + bytes) \<times> 'c srtp_context" where
  "encrypt_rtp ops ctx packet =
     (case ctx of None \<Rightarrow> (Inl KeyNotInstalled, None)
      | Some c \<Rightarrow> (case ctx_encrypt_rtp ops c packet of (r, c') \<Rightarrow> (map_err EncryptFailed r, Some c')))"

definition encrypt_rtcp ::
  "'c srtp_ops \<Rightarrow> 'c srtp_context \<Rightarrow> bytes \<Rightarrow> (srtp_error + bytes) \<times> 'c srtp_context" where
  "encrypt_rtcp ops ctx packet =
     (case ctx of None \<Rightarrow> (Inl KeyNotInstalled, None)
      | Some c \<Rightarrow> (case ctx_encrypt_rtcp ops c packet of (r, c') \<Rightarrow> (map_err EncryptFailed r, Some c')))"

section \<open>Key material\<close>

definition SRTP_MASTER_KEY_LEN :: nat where [config_defs]: "SRTP_MASTER_KEY_LEN = 16"
definition SRTP_MASTER_SALT_LEN :: nat where [config_defs]: "SRTP_MASTER_SALT_LEN = 14"
definition SRTP_KEY_MATERIAL_LEN :: nat where
  [config_defs]: "SRTP_KEY_MATERIAL_LEN = (SRTP_MASTER_KEY_LEN + SRTP_MASTER_SALT_LEN) * 2"

record srtp_key_material =
  client_key :: bytes
  server_key :: bytes
  client_salt :: bytes
  server_salt :: bytes

text \<open>
  \<open>export_srtp_keys\<close> after the exporter of the \<open>dtls\<close> package returned \<open>material\<close>; the
  slices panic when it is too short.
\<close>

definition export_srtp_keys :: "bytes \<Rightarrow> srtp_key_material option" where
  "export_srtp_keys material = do {
     ck \<leftarrow> slice material 0 SRTP_MASTER_KEY_LEN;
     sk \<leftarrow> slice material SRTP_MASTER_KEY_LEN (SRTP_MASTER_KEY_LEN * 2);
     cs \<leftarrow> slice material (SRTP_MASTER_KEY_LEN * 2) (SRTP_MASTER_KEY_LEN * 2 + SRTP_MASTER_SALT_LEN);
     ss \<leftarrow> slice material (SRTP_MASTER_KEY_LEN * 2 + SRTP_MASTER_SALT_LEN) (length material);
     Some \<lparr>client_key = ck, server_key = sk, client_salt = cs, server_salt = ss\<rparr> }"

lemma is_ready_new [simp]: "\<not> is_ready srtp_new"
  by (simp add: is_ready_def srtp_new_def)

lemma is_ready_install: "is_ready ctx \<Longrightarrow> is_ready (install_key ops ctx key salt)"
  by (auto simp: is_ready_def install_key_def split: option.splits)

lemma is_ready_transforms [simp]:
  "is_ready (snd (decrypt_rtp ops ctx p)) = is_ready ctx"
  "is_ready (snd (decrypt_rtcp ops ctx p)) = is_ready ctx"
  "is_ready (snd (encrypt_rtp ops ctx p)) = is_ready ctx"
  "is_ready (snd (encrypt_rtcp ops ctx p)) = is_ready ctx"
  by (auto simp: is_ready_def decrypt_rtp_def decrypt_rtcp_def encrypt_rtp_def encrypt_rtcp_def
      split: option.splits prod.splits)

text \<open>
  The layout of RFC 5764. The 60 bytes that the exporter is asked for are cut into
  the two keys of 16 and the two salts of 14 bytes in the order client key, server key,
  client salt, server salt, without overlap and without remainder.
\<close>

theorem key_material_layout:
  assumes "length material = SRTP_KEY_MATERIAL_LEN"
  shows "\<exists>k. export_srtp_keys material = Some k \<and>
    length (client_key k) = 16 \<and> length (server_key k) = 16 \<and>
    length (client_salt k) = 14 \<and> length (server_salt k) = 14 \<and>
    material = client_key k @ server_key k @ client_salt k @ server_salt k"
proof -
  have "material = take 16 material @ take 16 (drop 16 material) @ take 14 (drop 32 material) @ drop 46 material"
    using append_take_drop_id [of 16 material] append_take_drop_id [of 16 "drop 16 material"]
      append_take_drop_id [of 14 "drop 32 material"] by simp
  then show ?thesis using assms
    by (simp add: export_srtp_keys_def config_defs)
qed

theorem key_material_layout_witness:
  "length (replicate 60 (1 :: u8)) = SRTP_KEY_MATERIAL_LEN \<and>
   (\<exists>k. export_srtp_keys (replicate 60 1) = Some k \<and> length (server_salt k) = 14)"
  using key_material_layout [of "replicate 60 1"] by (auto simp: config_defs)

end
