(* ===== verification/Ptt_Rewrite.thy ===== *)
theory Ptt_Rewrite
  imports Config
begin

text \<open>
  The PTT rewriter (\<open>src/room/ptt_rewriter.rs\<close>): the RTP packets of the successive
  speakers of a push-to-talk room become one stream with one virtual SSRC and continuous
  sequence numbers and timestamps. Also the VP8 keyframe test. Packets are byte lists,
  the in-place rewrite returns the new list, and every index the code uses is checked:
  the outer \<^term>\<open>None\<close> is a panic.
\<close>

section \<open>State\<close>

datatype rewrite_result = Ok | PendingKeyframe | Skip

record rewrite_state =
  rw_speaker :: "string option"
  origin_base_seq :: u16
  origin_base_ts :: u32
  virtual_base_seq :: u16
  virtual_base_ts :: u32
  last_virtual_seq :: u16
  last_virtual_ts :: u32
  awaiting_first_packet :: bool
  pending_keyframe :: bool

record ptt_rewriter =
  virtual_ssrc :: u32
  ts_guard_gap :: u32
  require_keyframe :: bool
  rw_state :: rewrite_state

definition TS_GUARD_GAP_AUDIO :: u32 where [config_defs]: "TS_GUARD_GAP_AUDIO = 960"
definition TS_GUARD_GAP_VIDEO :: u32 where [config_defs]: "TS_GUARD_GAP_VIDEO = 3000"

text \<open>The random virtual SSRC (\<open>rand_u32\<close>) is an argument.\<close>

definition rewriter_new :: "u32 \<Rightarrow> u32 \<Rightarrow> bool \<Rightarrow> ptt_rewriter" where
  "rewriter_new ssrc gap key =
     \<lparr>virtual_ssrc = ssrc, ts_guard_gap = gap, require_keyframe = key,
      rw_state = \<lparr>rw_speaker = None, origin_base_seq = 0, origin_base_ts = 0,
        virtual_base_seq = 0, virtual_base_ts = 0, last_virtual_seq = 0, last_virtual_ts = 0,
        awaiting_first_packet = False, pending_keyframe = False\<rparr>\<rparr>"

definition new_audio :: "u32 \<Rightarrow> ptt_rewriter" where
  "new_audio ssrc = rewriter_new ssrc TS_GUARD_GAP_AUDIO False"

definition new_video :: "u32 \<Rightarrow> ptt_rewriter" where
  "new_video ssrc = rewriter_new ssrc TS_GUARD_GAP_VIDEO True"

section \<open>Operations\<close>

definition switch_speaker :: "ptt_rewriter \<Rightarrow> string \<Rightarrow> ptt_rewriter" where
  "switch_speaker r user =
     r\<lparr>rw_state := (rw_state r)\<lparr>rw_speaker := Some user, awaiting_first_packet := True,
                                pending_keyframe := require_keyframe r\<rparr>\<rparr>"

definition clear_speaker :: "ptt_rewriter \<Rightarrow> ptt_rewriter" where
  "clear_speaker r =
     r\<lparr>rw_state := (rw_state r)\<lparr>rw_speaker := None, awaiting_first_packet := False,
                                pending_keyframe := False\<rparr>\<rparr>"

definition rewrite ::
    "ptt_rewriter \<Rightarrow> bytes \<Rightarrow> string \<Rightarrow> bool \<Rightarrow> (rewrite_result \<times> bytes \<times> ptt_rewriter) option" where
  "rewrite r plaintext sender is_keyframe =
     (if length plaintext < 12 then Some (Skip, plaintext, r)
      else if rw_speaker (rw_state r) \<noteq> Some sender then Some (Skip, plaintext, r)
      else if pending_keyframe (rw_state r) \<and> \<not> is_keyframe
      then Some (PendingKeyframe, plaintext, r)
      else do {
        let s = (if pending_keyframe (rw_state r) then (rw_state r)\<lparr>pending_keyframe := False\<rparr>
                 else rw_state r);
        orig_seq \<leftarrow> rd16 plaintext 2;
        orig_ts \<leftarrow> rd32 plaintext 4;
        let is_first = awaiting_first_packet s;
        let s = (if is_first
                 then s\<lparr>origin_base_seq := orig_seq, origin_base_ts := orig_ts,
                        virtual_base_seq := last_virtual_seq s + 1,
                        virtual_base_ts := last_virtual_ts s + ts_guard_gap r,
                        awaiting_first_packet := False\<rparr>
                 else s);
        let virtual_seq = orig_seq - origin_base_seq s + virtual_base_seq s;
        let virtual_ts = orig_ts - origin_base_ts s + virtual_base_ts s;
        let s = s\<lparr>last_virtual_seq := virtual_seq, last_virtual_ts := virtual_ts\<rparr>;
        p \<leftarrow> write_at plaintext 8 (to_be32 (virtual_ssrc r));
        p \<leftarrow> write_at p 2 (to_be16 virtual_seq);
        p \<leftarrow> write_at p 4 (to_be32 virtual_ts);
        p \<leftarrow> (if is_first then do { b \<leftarrow> idx p 1; write_at p 1 [b OR 0x80] } else Some p);
        Some (Ok, p, r\<lparr>rw_state := s\<rparr>) })"

definition reverse_seq :: "ptt_rewriter \<Rightarrow> u16 \<Rightarrow> u16" where
  "reverse_seq r virtual_seq =
     virtual_seq - virtual_base_seq (rw_state r) + origin_base_seq (rw_state r)"

definition is_current_speaker :: "ptt_rewriter \<Rightarrow> string \<Rightarrow> bool" where
  "is_current_speaker r user =
     (case rw_speaker (rw_state r) of Some speaker \<Rightarrow> speaker = user | None \<Rightarrow> False)"

section \<open>VP8 keyframe test\<close>

definition is_vp8_keyframe :: "bytes \<Rightarrow> bool option" where
  "is_vp8_keyframe p =
     (if length p < 13 then Some False
      else do {
        b0 \<leftarrow> idx p 0;
        let cc = unat (b0 AND 0x0F);
        let has_ext = (b0 AND 0x10 \<noteq> 0);
        let offset = 12 + cc * 4;
        if has_ext \<and> length p < offset + 4 then Some False
        else do {
          offset \<leftarrow> (if has_ext
             then do { ext_len \<leftarrow> rd16 p (offset + 2); Some (offset + (4 + unat ext_len * 4)) }
             else Some offset);
          if length p \<le> offset then Some False
          else do {
            pd \<leftarrow> idx p offset;
            let x = (pd AND 0x80 \<noteq> 0);
            let s = (pd AND 0x10 \<noteq> 0);
            if \<not> s then Some False
            else if x then
              if length p \<le> offset + 1 then Some False
              else do {
                x_byte \<leftarrow> idx p (offset + 1);
                let pd_offset = offset + 2;
                if x_byte AND 0x80 \<noteq> 0 \<and> length p \<le> pd_offset then Some False
                else do {
                  pd_offset \<leftarrow> (if x_byte AND 0x80 \<noteq> 0
                     then do { pid \<leftarrow> idx p pd_offset;
                               Some (if pid AND 0x80 \<noteq> 0 then pd_offset + 2 else pd_offset + 1) }
                     else Some pd_offset);
                  let pd_offset = (if x_byte AND 0x40 \<noteq> 0 then pd_offset + 1 else pd_offset);
                  let pd_offset = (if x_byte AND 0x20 \<noteq> 0 \<or> x_byte AND 0x10 \<noteq> 0
                                   then pd_offset + 1 else pd_offset);
                  if length p \<le> pd_offset then Some False
                  else do { frame \<leftarrow> idx p pd_offset; Some (frame AND 0x01 = 0) } } }
            else if length p \<le> offset + 1 then Some False
            else do { frame \<leftarrow> idx p (offset + 1); Some (frame AND 0x01 = 0) } } } })"

section \<open>What one rewrite does\<close>

text \<open>
  The offset between original and virtual numbers, and the state in which the current
  burst numbers its packets: the bases are set when the first packet of the burst comes.
\<close>

definition seq_offset :: "ptt_rewriter \<Rightarrow> u16" where
  "seq_offset r = virtual_base_seq (rw_state r) - origin_base_seq (rw_state r)"

definition ts_offset :: "ptt_rewriter \<Rightarrow> u32" where
  "ts_offset r = virtual_base_ts (rw_state r) - origin_base_ts (rw_state r)"

definition based :: "ptt_rewriter \<Rightarrow> bytes \<Rightarrow> ptt_rewriter" where
  "based r p =
     (if awaiting_first_packet (rw_state r)
      then r\<lparr>rw_state := (rw_state r)\<lparr>
             origin_base_seq := of_be16 (p ! 2) (p ! 3),
             origin_base_ts := of_be32 (p ! 4) (p ! 5) (p ! 6) (p ! 7),
             virtual_base_seq := last_virtual_seq (rw_state r) + 1,
             virtual_base_ts := last_virtual_ts (rw_state r) + ts_guard_gap r,
             awaiting_first_packet := False\<rparr>\<rparr>
      else r)"

definition rtp_seq :: "bytes \<Rightarrow> u16" where
  "rtp_seq p = of_be16 (p ! 2) (p ! 3)"

definition rtp_ts :: "bytes \<Rightarrow> u32" where
  "rtp_ts p = of_be32 (p ! 4) (p ! 5) (p ! 6) (p ! 7)"

definition rtp_ssrc :: "bytes \<Rightarrow> u32" where
  "rtp_ssrc p = of_be32 (p ! 8) (p ! 9) (p ! 10) (p ! 11)"

text \<open>The three outcomes, decided before any byte is touched.\<close>

lemma rewrite_skip:
  "length p < 12 \<or> rw_speaker (rw_state r) \<noteq> Some u \<Longrightarrow> rewrite r p u k = Some (Skip, p, r)"
  by (auto simp: rewrite_def)

lemma rewrite_pending:
  "12 \<le> length p \<Longrightarrow> rw_speaker (rw_state r) = Some u \<Longrightarrow> pending_keyframe (rw_state r) \<Longrightarrow> \<not> k \<Longrightarrow>
   rewrite r p u k = Some (PendingKeyframe, p, r)"
  by (simp add: rewrite_def)

definition rewritten :: "ptt_rewriter \<Rightarrow> bytes \<Rightarrow> bytes" where
  "rewritten r p =
     (let m = (if awaiting_first_packet (rw_state r) then p ! 1 OR 0x80 else p ! 1) in
      [p ! 0, m] @ to_be16 (rtp_seq p + seq_offset (based r p)) @
      to_be32 (rtp_ts p + ts_offset (based r p)) @ to_be32 (virtual_ssrc r) @ drop 12 p)"

definition after_ok :: "ptt_rewriter \<Rightarrow> bytes \<Rightarrow> ptt_rewriter" where
  "after_ok r p =
     (let b = based r p in
      b\<lparr>rw_state := (rw_state b)\<lparr>pending_keyframe := False,
          last_virtual_seq := rtp_seq p + seq_offset b,
          last_virtual_ts := rtp_ts p + ts_offset b\<rparr>\<rparr>)"

lemma rewrite_ok:
  assumes len: "12 \<le> length p" and sp: "rw_speaker (rw_state r) = Some u"
    and key: "pending_keyframe (rw_state r) \<Longrightarrow> k"
  shows "rewrite r p u k = Some (Ok, rewritten r p, after_ok r p)"
proof -
  from len obtain b0 b1 b2 b3 b4 b5 b6 b7 b8 b9 b10 b11 rest
    where p: "p = b0 # b1 # b2 # b3 # b4 # b5 # b6 # b7 # b8 # b9 # b10 # b11 # rest"
    by (rule header12E)
  show ?thesis
    using sp key
    by (cases "pending_keyframe (rw_state r)"; cases "awaiting_first_packet (rw_state r)")
       (simp_all add: p rewrite_def rewritten_def after_ok_def based_def rtp_seq_def rtp_ts_def
          seq_offset_def ts_offset_def to_be16_def to_be32_def Let_def algebra_simps
          eval_nat_numeral)
qed

lemma rewrite_cases [consumes 1, case_names skip pending ok]:
  assumes "rewrite r p u k = Some (res, p', r')"
  obtains "res = Skip" and "p' = p" and "r' = r" and "length p < 12 \<or> rw_speaker (rw_state r) \<noteq> Some u"
  | "res = PendingKeyframe" and "p' = p" and "r' = r" and "12 \<le> length p"
    and "rw_speaker (rw_state r) = Some u" and "pending_keyframe (rw_state r)" and "\<not> k"
  | "res = Ok" and "p' = rewritten r p" and "r' = after_ok r p" and "12 \<le> length p"
    and "rw_speaker (rw_state r) = Some u" and "pending_keyframe (rw_state r) \<Longrightarrow> k"
proof -
  consider (a) "length p < 12 \<or> rw_speaker (rw_state r) \<noteq> Some u"
    | (b) "12 \<le> length p" "rw_speaker (rw_state r) = Some u" "pending_keyframe (rw_state r) \<and> \<not> k"
    | (c) "12 \<le> length p" "rw_speaker (rw_state r) = Some u" "\<not> (pending_keyframe (rw_state r) \<and> \<not> k)"
    by fastforce
  then show thesis
  proof cases
    case a with assms that(1) show thesis by (simp add: rewrite_skip)
  next
    case b with assms that(2) show thesis by (simp add: rewrite_pending)
  next
    case c with assms that(3) show thesis by (simp add: rewrite_ok)
  qed
qed

lemma length_rewritten: "12 \<le> length p \<Longrightarrow> length (rewritten r p) = length p"
  by (simp add: rewritten_def Let_def)

lemma rtp_seq_rewritten: "rtp_seq (rewritten r p) = rtp_seq p + seq_offset (based r p)"
  by (simp add: rewritten_def rtp_seq_def to_be16_def of_be16_to_be16 Let_def)

lemma rtp_ts_rewritten: "rtp_ts (rewritten r p) = rtp_ts p + ts_offset (based r p)"
  by (simp add: rewritten_def rtp_ts_def to_be16_def to_be32_def of_be32_to_be32 Let_def)

lemma rtp_ssrc_rewritten: "rtp_ssrc (rewritten r p) = virtual_ssrc r"
  by (simp add: rewritten_def rtp_ssrc_def to_be16_def to_be32_def of_be32_to_be32 Let_def)

lemma drop_rewritten: "drop 12 (rewritten r p) = drop 12 p"
  by (simp add: rewritten_def to_be16_def to_be32_def Let_def)

lemma nth_rewritten: "rewritten r p ! 0 = p ! 0"
  "rewritten r p ! 1 = (if awaiting_first_packet (rw_state r) then p ! 1 OR 0x80 else p ! 1)"
  by (simp_all add: rewritten_def Let_def)

lemmas rewritten_fields =
  length_rewritten rtp_seq_rewritten rtp_ts_rewritten rtp_ssrc_rewritten drop_rewritten nth_rewritten

lemma based_after_ok [simp]: "based (after_ok r p) q = after_ok r p"
  by (simp add: based_def after_ok_def Let_def)

lemma offsets_after_ok [simp]:
  "seq_offset (after_ok r p) = seq_offset (based r p)"
  "ts_offset (after_ok r p) = ts_offset (based r p)"
  by (simp_all add: seq_offset_def ts_offset_def after_ok_def Let_def)

lemma after_ok_frame [simp]:
  "rw_speaker (rw_state (after_ok r p)) = rw_speaker (rw_state r)"
  "virtual_ssrc (after_ok r p) = virtual_ssrc r"
  "ts_guard_gap (after_ok r p) = ts_guard_gap r"
  "require_keyframe (after_ok r p) = require_keyframe r"
  "awaiting_first_packet (rw_state (after_ok r p)) = False"
  "pending_keyframe (rw_state (after_ok r p)) = False"
  by (simp_all add: after_ok_def based_def Let_def)

lemma speaker_ops [simp]:
  "rw_speaker (rw_state (switch_speaker r u)) = Some u"
  "rw_speaker (rw_state (clear_speaker r)) = None"
  "virtual_ssrc (switch_speaker r u) = virtual_ssrc r"
  "virtual_ssrc (clear_speaker r) = virtual_ssrc r"
  by (simp_all add: switch_speaker_def clear_speaker_def)

lemma rewrite_speaker:
  "rewrite r p u k = Some (res, p', r') \<Longrightarrow> rw_speaker (rw_state r') = rw_speaker (rw_state r)"
  by (erule rewrite_cases) simp_all

lemma rewrite_virtual_ssrc:
  "rewrite r p u k = Some (res, p', r') \<Longrightarrow> virtual_ssrc r' = virtual_ssrc r"
  by (erule rewrite_cases) simp_all

section \<open>Bursts\<close>

text \<open>
  The packets of one speaker between two switches. \<open>rewrite_burst\<close> collects the packets
  that are forwarded, each with what it became.
\<close>

fun rewrite_burst ::
    "ptt_rewriter \<Rightarrow> string \<Rightarrow> (bytes \<times> bool) list \<Rightarrow> ((bytes \<times> bytes) list \<times> ptt_rewriter) option" where
  "rewrite_burst r u [] = Some ([], r)"
| "rewrite_burst r u ((p, k) # ps) = do {
     (res, p', r1) \<leftarrow> rewrite r p u k;
     (os, r2) \<leftarrow> rewrite_burst r1 u ps;
     Some ((if res = Ok then [(p, p')] else []) @ os, r2) }"

definition long :: "bytes \<times> bool \<Rightarrow> bool" where
  "long x = (12 \<le> length (fst x))"

definition accepted :: "bool \<Rightarrow> (bytes \<times> bool) list \<Rightarrow> (bytes \<times> bool) list" where
  "accepted pending ps = (if pending then dropWhile (\<lambda>x. \<not> snd x) (filter long ps) else filter long ps)"

lemma rewritten_cong:
  assumes "\<not> awaiting_first_packet (rw_state r)" and "\<not> awaiting_first_packet (rw_state r')"
    and "seq_offset r = seq_offset r'" and "ts_offset r = ts_offset r'" and "virtual_ssrc r = virtual_ssrc r'"
  shows "rewritten r p = rewritten r' p"
  using assms by (simp add: rewritten_def based_def)

lemma last_virtual_after_ok [simp]:
  "last_virtual_seq (rw_state (after_ok r p)) = rtp_seq (rewritten r p)"
  "last_virtual_ts (rw_state (after_ok r p)) = rtp_ts (rewritten r p)"
  by (simp_all add: rtp_seq_rewritten rtp_ts_rewritten) (simp_all add: after_ok_def Let_def)

text \<open>Once a burst has its bases, every packet of full length moves by the same offset.\<close>

lemma burst_settled:
  assumes "rw_speaker (rw_state r) = Some u" and "\<not> awaiting_first_packet (rw_state r)"
    and "\<not> pending_keyframe (rw_state r)"
  shows "\<exists>r'. rewrite_burst r u ps = Some (map (\<lambda>x. (fst x, rewritten r (fst x))) (filter long ps), r') \<and>
    seq_offset r' = seq_offset r \<and> ts_offset r' = ts_offset r \<and>
    last_virtual_seq (rw_state r') =
      (if filter long ps = [] then last_virtual_seq (rw_state r)
       else rtp_seq (rewritten r (fst (last (filter long ps)))))"
  using assms
proof (induction ps arbitrary: r)
  case (Cons x ps)
  obtain p k where x: "x = (p, k)" by fastforce
  show ?case
  proof (cases "long x")
    case True
    let ?r1 = "after_ok r p"
    have cong: "rewritten ?r1 q = rewritten r q" for q
      using Cons.prems by (intro rewritten_cong) (simp_all add: based_def)
    have "rewrite r p u k = Some (Ok, rewritten r p, ?r1)"
      using True Cons.prems x by (intro rewrite_ok) (simp_all add: long_def)
    moreover obtain r' where "rewrite_burst ?r1 u ps =
        Some (map (\<lambda>x. (fst x, rewritten ?r1 (fst x))) (filter long ps), r')"
      and "seq_offset r' = seq_offset ?r1" "ts_offset r' = ts_offset ?r1"
      and "last_virtual_seq (rw_state r') = (if filter long ps = [] then last_virtual_seq (rw_state ?r1)
       else rtp_seq (rewritten ?r1 (fst (last (filter long ps)))))"
      using Cons.IH [of ?r1] Cons.prems by auto
    ultimately show ?thesis
      using True Cons.prems x by (simp add: cong based_def)
  next
    case False
    then have "rewrite r p u k = Some (Skip, p, r)"
      using x by (simp add: rewrite_skip long_def)
    with Cons.IH [OF Cons.prems] False x show ?thesis by auto
  qed
qed simp

lemma burst_waiting:
  assumes "rw_speaker (rw_state r) = Some u" and "awaiting_first_packet (rw_state r)"
  shows "case accepted (pending_keyframe (rw_state r)) ps of
      [] \<Rightarrow> rewrite_burst r u ps = Some ([], r)
    | x # xs \<Rightarrow> \<exists>r'. rewrite_burst r u ps =
          Some ((fst x, rewritten r (fst x)) #
                map (\<lambda>y. (fst y, rewritten (after_ok r (fst x)) (fst y))) xs, r') \<and>
        seq_offset r' = seq_offset (based r (fst x)) \<and> ts_offset r' = ts_offset (based r (fst x)) \<and>
        last_virtual_seq (rw_state r') =
          (if xs = [] then rtp_seq (rewritten r (fst x))
           else rtp_seq (rewritten (after_ok r (fst x)) (fst (last xs))))"
  using assms
proof (induction ps)
  case Nil
  then show ?case by (simp add: accepted_def)
next
  case (Cons x ps)
  obtain p k where x: "x = (p, k)" by fastforce
  consider (short) "\<not> long x" | (wait) "long x" "pending_keyframe (rw_state r)" "\<not> k"
    | (go) "long x" "pending_keyframe (rw_state r) \<longrightarrow> k" by fastforce
  then show ?case
  proof cases
    case short
    then have "rewrite r p u k = Some (Skip, p, r)"
      using x by (simp add: rewrite_skip long_def)
    moreover have "accepted (pending_keyframe (rw_state r)) (x # ps) = accepted (pending_keyframe (rw_state r)) ps"
      using short by (simp add: accepted_def)
    ultimately show ?thesis
      using Cons x by (auto split: list.splits)
  next
    case wait
    then have "rewrite r p u k = Some (PendingKeyframe, p, r)"
      using x Cons.prems by (simp add: rewrite_pending long_def)
    moreover have "accepted (pending_keyframe (rw_state r)) (x # ps) = accepted (pending_keyframe (rw_state r)) ps"
      using wait x by (simp add: accepted_def)
    ultimately show ?thesis
      using Cons x by (auto split: list.splits)
  next
    case go
    then have "rewrite r p u k = Some (Ok, rewritten r p, after_ok r p)"
      using x Cons.prems by (intro rewrite_ok) (auto simp: long_def)
    moreover have "accepted (pending_keyframe (rw_state r)) (x # ps) = x # filter long ps"
      using go x by (cases k) (simp_all add: accepted_def)
    ultimately show ?thesis
      using burst_settled [of "after_ok r p" u ps] Cons.prems x by auto
  qed
qed

text \<open>Both cases in one: what a burst forwards, as a function of its packets.\<close>

lemma burst_outputs:
  obtains os r' where "rewrite_burst (switch_speaker r u) u ps = Some (os, r')"
    and "map fst os = map fst (accepted (require_keyframe r) ps)"
    and "\<And>p p'. (p, p') \<in> set os \<Longrightarrow>
           rtp_seq p' = rtp_seq p + seq_offset r' \<and> rtp_ts p' = rtp_ts p + ts_offset r' \<and>
           rtp_ssrc p' = virtual_ssrc r \<and> drop 12 p' = drop 12 p \<and> length p' = length p"
    and "os \<noteq> [] \<Longrightarrow> rtp_seq (snd (hd os)) = last_virtual_seq (rw_state r) + 1 \<and>
           rtp_ts (snd (hd os)) = last_virtual_ts (rw_state r) + ts_guard_gap r \<and>
           snd (hd os) ! 1 = fst (hd os) ! 1 OR 0x80"
    and "\<And>p p'. (p, p') \<in> set (tl os) \<Longrightarrow> p' ! 1 = p ! 1"
    and "os \<noteq> [] \<Longrightarrow> last_virtual_seq (rw_state r') = rtp_seq (snd (last os))"
proof -
  let ?s = "switch_speaker r u"
  have len: "x \<in> set (accepted b ps) \<Longrightarrow> 12 \<le> length (fst x)" for x b
    by (auto simp: accepted_def long_def dest: set_dropWhileD split: if_splits)
  have s: "rw_speaker (rw_state ?s) = Some u" "awaiting_first_packet (rw_state ?s)"
    "pending_keyframe (rw_state ?s) = require_keyframe r" "virtual_ssrc ?s = virtual_ssrc r"
    by (simp_all add: switch_speaker_def)
  show thesis
  proof (cases "accepted (require_keyframe r) ps")
    case Nil
    with burst_waiting [OF s(1,2), of ps] s(3) show thesis
      by (intro that [of "[]" ?s]) simp_all
  next
    case (Cons x xs)
    with burst_waiting [OF s(1,2), of ps] s(3) obtain r' where
      b: "rewrite_burst ?s u ps = Some ((fst x, rewritten ?s (fst x)) #
            map (\<lambda>y. (fst y, rewritten (after_ok ?s (fst x)) (fst y))) xs, r')"
      and off: "seq_offset r' = seq_offset (based ?s (fst x))" "ts_offset r' = ts_offset (based ?s (fst x))"
      and lst: "last_virtual_seq (rw_state r') = (if xs = [] then rtp_seq (rewritten ?s (fst x))
           else rtp_seq (rewritten (after_ok ?s (fst x)) (fst (last xs))))"
      by auto
    have first: "rtp_seq (rewritten ?s (fst x)) = last_virtual_seq (rw_state r) + 1"
      "rtp_ts (rewritten ?s (fst x)) = last_virtual_ts (rw_state r) + ts_guard_gap r"
      unfolding rtp_seq_rewritten rtp_ts_rewritten
      by (simp_all add: seq_offset_def ts_offset_def based_def switch_speaker_def
            rtp_seq_def rtp_ts_def)
    have lens: "length (rewritten q (fst x)) = length (fst x)"
      "(a, k) \<in> set xs \<Longrightarrow> length (rewritten q a) = length a" for q a k
      using len [of x "require_keyframe r"] len [of "(a, k)" "require_keyframe r"] Cons
      by (simp_all add: length_rewritten)
    show thesis
      using b Cons
      by (intro that [OF b])
         (auto simp: lens rtp_seq_rewritten rtp_ts_rewritten rtp_ssrc_rewritten
            drop_rewritten off first [unfolded rtp_seq_rewritten rtp_ts_rewritten] s lst last_map
            nth_rewritten(2) [simplified] ac_simps)
  qed
qed

section \<open>Properties\<close>

text \<open>
  C35: the rewritten stream of a burst. After a switch to a speaker, a list of that
  speaker's packets is processed without a panic; the packets forwarded are those of full
  header length, for video from the first keyframe on; each keeps its payload and length
  and carries the virtual SSRC; the differences of sequence numbers and timestamps between
  any two forwarded packets are the original ones (so reordering on the network is
  preserved); and the first continues the previous burst, one after its last sequence
  number and one guard gap after its last timestamp, with the marker bit set.
\<close>

theorem rewriter_burst_stream:
  "\<exists>os r'. rewrite_burst (switch_speaker r u) u ps = Some (os, r') \<and>
     map fst os = map fst (accepted (require_keyframe r) ps) \<and>
     list_all (\<lambda>(p, p'). rtp_ssrc p' = virtual_ssrc r \<and> drop 12 p' = drop 12 p \<and> length p' = length p) os \<and>
     list_all (\<lambda>((p, p'), (q, q')). rtp_seq q' - rtp_seq p' = rtp_seq q - rtp_seq p \<and>
                                  rtp_ts q' - rtp_ts p' = rtp_ts q - rtp_ts p) (List.product os os) \<and>
     (case os of [] \<Rightarrow> True
      | (p, p') # _ \<Rightarrow> rtp_seq p' = last_virtual_seq (rw_state r) + 1 \<and>
                       rtp_ts p' = last_virtual_ts (rw_state r) + ts_guard_gap r \<and>
                       p' ! 1 = p ! 1 OR 0x80)"
proof -
  obtain os r' where *: "rewrite_burst (switch_speaker r u) u ps = Some (os, r')"
    "map fst os = map fst (accepted (require_keyframe r) ps)"
    and each: "\<And>p p'. (p, p') \<in> set os \<Longrightarrow>
           rtp_seq p' = rtp_seq p + seq_offset r' \<and> rtp_ts p' = rtp_ts p + ts_offset r' \<and>
           rtp_ssrc p' = virtual_ssrc r \<and> drop 12 p' = drop 12 p \<and> length p' = length p"
    and first: "os \<noteq> [] \<Longrightarrow> rtp_seq (snd (hd os)) = last_virtual_seq (rw_state r) + 1 \<and>
           rtp_ts (snd (hd os)) = last_virtual_ts (rw_state r) + ts_guard_gap r \<and>
           snd (hd os) ! 1 = fst (hd os) ! 1 OR 0x80"
    by (rule burst_outputs [of r u ps]) blast
  have "list_all (\<lambda>(p, p'). rtp_ssrc p' = virtual_ssrc r \<and> drop 12 p' = drop 12 p \<and> length p' = length p) os"
    using each by (auto simp: list_all_iff)
  moreover have "list_all (\<lambda>((p, p'), (q, q')). rtp_seq q' - rtp_seq p' = rtp_seq q - rtp_seq p \<and>
                                  rtp_ts q' - rtp_ts p' = rtp_ts q - rtp_ts p) (List.product os os)"
    using each by (fastforce simp: list_all_iff)
  ultimately show ?thesis
    using * first by (intro exI [of _ os] exI [of _ r']) (auto split: list.splits)
qed

text \<open>
  NACK translation. For every packet forwarded in the current burst, the reverse
  mapping of its virtual sequence number is its original sequence number, so a
  retransmission request in virtual numbers finds the cached original.
\<close>

theorem reverse_seq_inverts:
  "\<exists>os r'. rewrite_burst (switch_speaker r u) u ps = Some (os, r') \<and>
     list_all (\<lambda>(p, p'). reverse_seq r' (rtp_seq p') = rtp_seq p) os"
proof -
  obtain os r' where "rewrite_burst (switch_speaker r u) u ps = Some (os, r')"
    and "\<And>p p'. (p, p') \<in> set os \<Longrightarrow>
           rtp_seq p' = rtp_seq p + seq_offset r' \<and> rtp_ts p' = rtp_ts p + ts_offset r' \<and>
           rtp_ssrc p' = virtual_ssrc r \<and> drop 12 p' = drop 12 p \<and> length p' = length p"
    by (rule burst_outputs [of r u ps]) blast
  then show ?thesis
    by (intro exI [of _ os] exI [of _ r'])
       (auto simp: list_all_iff reverse_seq_def seq_offset_def)
qed

text \<open>Single facts about a burst, and the equations that evaluate one.\<close>

lemma burst_offset:
  "rewrite_burst (switch_speaker r u) u ps = Some (os, r') \<Longrightarrow> (p, p') \<in> set os \<Longrightarrow>
   rtp_seq p' = rtp_seq p + seq_offset r'"
  by (rule burst_outputs [of r u ps]) auto

lemma burst_last:
  "rewrite_burst (switch_speaker r u) u ps = Some (os, r') \<Longrightarrow> os \<noteq> [] \<Longrightarrow>
   last_virtual_seq (rw_state r') = rtp_seq (snd (last os))"
  by (rule burst_outputs [of r u ps]) auto

lemma burst_first:
  "rewrite_burst (switch_speaker r u) u ps = Some ((p, p') # os, r') \<Longrightarrow>
   rtp_seq p' = last_virtual_seq (rw_state r) + 1"
  by (rule burst_outputs [of r u ps]) auto

lemmas burst_eval =
  rewrite_def new_audio_def new_video_def rewriter_new_def switch_speaker_def config_defs
  to_be16_def to_be32_def of_be16_def of_be32_def

text \<open>
  The virtual sequence numbers are not unique across a handover. The rewriter
  remembers the number of the packet rewritten last, not the highest: when the last
  packet of a burst arrives late, after the packet that followed it, the first packet of
  the next speaker gets the virtual number that this following packet already has.
\<close>

theorem handover_reuses_sequence_number:
  assumes "rewrite_burst (switch_speaker r a) a ps = Some (os, r1)"
    and "(p, p') \<in> set os" and "rtp_seq p = rtp_seq (fst (last os)) + 1"
    and "rewrite_burst (switch_speaker r1 b) b qs = Some ((q, q') # os2, r2)"
  shows "rtp_seq q' = rtp_seq p'"
proof -
  from assms(2) have os: "os \<noteq> []" by auto
  then have "(fst (last os), snd (last os)) \<in> set os" by simp
  from burst_offset [OF assms(1) this] burst_offset [OF assms(1,2)] assms(3) have "rtp_seq p' = rtp_seq (snd (last os)) + 1" by simp
  with burst_last [OF assms(1) os] burst_first [OF assms(4)] show ?thesis by simp
qed

theorem handover_reuses_sequence_number_witness:
  "rtp_seq [128, 239, 0, 2, 0, 0, 7, 128, 0, 0, 0, 7] = rtp_seq [128, 111, 0, 2, 0, 0, 3, 193, 0, 0, 0, 7]"
proof (rule handover_reuses_sequence_number)
  let ?p = "[128, 111, 0, 5, 0, 0, 0, 0, 1, 1, 1, 1] :: bytes"
  let ?q = "[128, 111, 0, 6, 0, 0, 0, 1, 1, 1, 1, 1] :: bytes"
  let ?r1 = "\<lparr>virtual_ssrc = 7, ts_guard_gap = 960, require_keyframe = False,
      rw_state = \<lparr>rw_speaker = Some ''a'', origin_base_seq = 5, origin_base_ts = 0,
        virtual_base_seq = 1, virtual_base_ts = 960, last_virtual_seq = 1, last_virtual_ts = 960,
        awaiting_first_packet = False, pending_keyframe = False\<rparr>\<rparr>"
  show "rewrite_burst (switch_speaker (new_audio 7) ''a'') ''a'' [(?p, False), (?q, False), (?p, False)] =
      Some ([(?p, [128, 239, 0, 1, 0, 0, 3, 192, 0, 0, 0, 7]), (?q, [128, 111, 0, 2, 0, 0, 3, 193, 0, 0, 0, 7]),
             (?p, [128, 111, 0, 1, 0, 0, 3, 192, 0, 0, 0, 7])], ?r1)"
    by (simp add: burst_eval)
  show "(?q, [128, 111, 0, 2, 0, 0, 3, 193, 0, 0, 0, 7]) \<in>
      set [(?p, [128, 239, 0, 1, 0, 0, 3, 192, 0, 0, 0, 7]), (?q, [128, 111, 0, 2, 0, 0, 3, 193, 0, 0, 0, 7]),
             (?p, [128, 111, 0, 1, 0, 0, 3, 192, 0, 0, 0, 7])]" by simp
  show "rtp_seq ?q = rtp_seq (fst (last
      [(?p, [128, 239, 0, 1, 0, 0, 3, 192, 0, 0, 0, 7]), (?q, [128, 111, 0, 2, 0, 0, 3, 193, 0, 0, 0, 7]),
             (?p, [128, 111, 0, 1, 0, 0, 3, 192, 0, 0, 0, 7])])) + 1"
    by (simp add: rtp_seq_def of_be16_def)
  show "rewrite_burst (switch_speaker ?r1 ''b'') ''b'' [(?p, False)] =
      Some ((?p, [128, 239, 0, 2, 0, 0, 7, 128, 0, 0, 0, 7]) # [],
        ?r1\<lparr>rw_state := (rw_state ?r1)\<lparr>rw_speaker := Some ''b'', virtual_base_seq := 2,
          virtual_base_ts := 1920, last_virtual_seq := 2, last_virtual_ts := 1920\<rparr>\<rparr>)"
    by (simp add: burst_eval)
qed

lemma rewrite_total: "rewrite r p u k \<noteq> None"
  using rewrite_skip [of p r u k] rewrite_pending [of p r u k] rewrite_ok [of p r u k]
  by (metis not_le option.distinct(1))

lemma is_vp8_keyframe_total: "is_vp8_keyframe p \<noteq> None"
  unfolding is_vp8_keyframe_def by (intro total) (auto simp: not_le not_less split: if_splits)

text \<open>
  No packet makes the rewriter or the keyframe test panic. For every byte string,
  rewriter state, sender and keyframe flag both functions return: every index they use is
  in range, whatever the CSRC count, extension length and VP8 descriptor bits say.
\<close>

theorem ptt_packet_path_total:
  "rewrite r p u k \<noteq> None \<and> is_vp8_keyframe p \<noteq> None"
  by (simp add: rewrite_total is_vp8_keyframe_total)

end
