(* ===== verification/Rtcp.thy ===== *)
theory Rtcp
  imports Ptt_Rewrite
begin

text \<open>
  RTP and RTCP packets (\<open>src/transport/udp/rtcp.rs\<close>): header parsing, Generic NACK
  parsing and expansion, the classification of compound RTCP, the retransmission packet
  of RFC 4588, and the PLI and REMB builders.
\<close>

section \<open>RTP header\<close>

record rtp_header =
  h_pt :: u8
  h_marker :: bool
  h_seq :: u16
  h_timestamp :: u32
  h_ssrc :: u32
  h_header_len :: nat

definition parse_rtp_header :: "bytes \<Rightarrow> rtp_header option" where
  "parse_rtp_header buf =
     (if length buf < RTP_HEADER_MIN_SIZE
      then Some \<lparr>h_pt = 0, h_marker = False, h_seq = 0, h_timestamp = 0, h_ssrc = 0, h_header_len = 0\<rparr>
      else do {
        b1 \<leftarrow> idx buf 1;
        b0 \<leftarrow> idx buf 0;
        let cc = unat (b0 AND 0x0F);
        seq \<leftarrow> rd16 buf 2;
        ts \<leftarrow> rd32 buf 4;
        ssrc \<leftarrow> rd32 buf 8;
        Some \<lparr>h_pt = b1 AND 0x7F, h_marker = (b1 AND 0x80 \<noteq> 0), h_seq = seq,
              h_timestamp = ts, h_ssrc = ssrc, h_header_len = 12 + cc * 4\<rparr> })"

section \<open>Generic NACK\<close>

record nack_item =
  n_media_ssrc :: u32
  n_pid :: u16
  n_blp :: u16

function nack_fci :: "bytes \<Rightarrow> u32 \<Rightarrow> nat \<Rightarrow> nat \<Rightarrow> nack_item list option" where
  "nack_fci buf ssrc fci_off fci_end =
     (if fci_off + 4 \<le> fci_end
      then do {
        pid \<leftarrow> rd16 buf fci_off;
        blp \<leftarrow> rd16 buf (fci_off + 2);
        items \<leftarrow> nack_fci buf ssrc (fci_off + 4) fci_end;
        Some (\<lparr>n_media_ssrc = ssrc, n_pid = pid, n_blp = blp\<rparr> # items) }
      else Some [])"
  by pat_completeness auto
termination
  by (relation "measure (\<lambda>(buf, ssrc, off, e). e - off)") auto

function nack_loop :: "bytes \<Rightarrow> nat \<Rightarrow> nack_item list option" where
  "nack_loop buf offset =
     (if offset + 4 \<le> length buf
      then do {
        b0 \<leftarrow> idx buf offset;
        pt \<leftarrow> idx buf (offset + 1);
        length_words \<leftarrow> rd16 buf (offset + 2);
        let fmt = b0 AND 0x1F;
        let pkt_len = (unat length_words + 1) * 4;
        items \<leftarrow> (if pt = RTCP_PT_NACK \<and> fmt = RTCP_FMT_NACK then
                     if offset + 12 \<le> length buf then do {
                       media_ssrc \<leftarrow> rd32 buf (offset + 8);
                       nack_fci buf media_ssrc (offset + 12) (min (offset + pkt_len) (length buf)) }
                     else Some []
                   else Some []);
        if pkt_len = 0 then Some items
        else do { rest \<leftarrow> nack_loop buf (offset + pkt_len); Some (items @ rest) } }
      else Some [])"
  by pat_completeness auto
termination
  by (relation "measure (\<lambda>(buf, offset). length buf - offset)") auto

declare nack_fci.simps [simp del] nack_loop.simps [simp del]

definition parse_rtcp_nack :: "bytes \<Rightarrow> nack_item list option" where
  "parse_rtcp_nack buf = nack_loop buf 0"

definition expand_nack :: "u16 \<Rightarrow> u16 \<Rightarrow> u16 list" where
  "expand_nack pid blp =
     pid # map (\<lambda>i. pid + (of_nat i + 1)) (filter (\<lambda>i. blp AND push_bit i 1 \<noteq> 0) [0..<16])"

section \<open>Compound RTCP\<close>

record rtcp_block_ref =
  rb_offset :: nat
  rb_length :: nat
  rb_media_ssrc :: u32

record compound_rtcp =
  nack_blocks :: "bytes list"
  relay_blocks :: "rtcp_block_ref list"

definition is_nack_block :: "u8 \<Rightarrow> u8 \<Rightarrow> bool" where
  "is_nack_block pt fmt = (pt = RTCP_PT_NACK \<and> fmt = RTCP_FMT_NACK)"

definition is_relay_block :: "u8 \<Rightarrow> u8 \<Rightarrow> bool" where
  "is_relay_block pt fmt =
     (pt = RTCP_PT_RR \<or> (pt = RTCP_PT_PSFB \<and> fmt = RTCP_FMT_PLI) \<or>
      (pt = RTCP_PT_PSFB \<and> fmt = RTCP_FMT_REMB))"

function split_loop :: "bytes \<Rightarrow> nat \<Rightarrow> compound_rtcp option" where
  "split_loop buf offset =
     (if offset + 4 \<le> length buf
      then do {
        b0 \<leftarrow> idx buf offset;
        pt \<leftarrow> idx buf (offset + 1);
        length_words \<leftarrow> rd16 buf (offset + 2);
        let fmt = b0 AND 0x1F;
        let pkt_len = (unat length_words + 1) * 4;
        if pkt_len = 0 \<or> length buf < offset + pkt_len
        then Some \<lparr>nack_blocks = [], relay_blocks = []\<rparr>
        else do {
          media_ssrc \<leftarrow> (if offset + 12 \<le> length buf then rd32 buf (offset + 8) else Some 0);
          block \<leftarrow> slice buf offset (offset + pkt_len);
          rest \<leftarrow> split_loop buf (offset + pkt_len);
          Some (if is_nack_block pt fmt
                then rest\<lparr>nack_blocks := block # nack_blocks rest\<rparr>
                else if is_relay_block pt fmt
                then rest\<lparr>relay_blocks :=
                       \<lparr>rb_offset = offset, rb_length = pkt_len, rb_media_ssrc = media_ssrc\<rparr>
                       # relay_blocks rest\<rparr>
                else rest) } }
      else Some \<lparr>nack_blocks = [], relay_blocks = []\<rparr>)"
  by pat_completeness auto
termination
  by (relation "measure (\<lambda>(buf, offset). length buf - offset)") auto

declare split_loop.simps [simp del]

definition split_compound_rtcp :: "bytes \<Rightarrow> compound_rtcp option" where
  "split_compound_rtcp buf = split_loop buf 0"

definition assemble_compound :: "bytes list \<Rightarrow> bytes" where
  "assemble_compound blocks = concat blocks"

section \<open>Builders\<close>

definition build_rtx_packet :: "bytes \<Rightarrow> u32 \<Rightarrow> u16 \<Rightarrow> bytes option" where
  "build_rtx_packet original rtx_ssrc rtx_seq =
     (if length original < RTP_HEADER_MIN_SIZE then Some []
      else do {
        b0 \<leftarrow> idx original 0;
        let cc = unat (b0 AND 0x0F);
        let header_len = 12 + cc * 4;
        if length original < header_len then Some []
        else do {
          orig_seq \<leftarrow> rd16 original 2;
          payload \<leftarrow> slice original header_len (length original);
          rtx \<leftarrow> slice original 0 header_len;
          rtx \<leftarrow> write_at rtx 1 [RTX_PAYLOAD_TYPE];
          rtx \<leftarrow> write_at rtx 2 (to_be16 rtx_seq);
          rtx \<leftarrow> write_at rtx 8 (to_be32 rtx_ssrc);
          Some (rtx @ to_be16 orig_seq @ payload) } })"

definition build_pli :: "u32 \<Rightarrow> bytes" where
  "build_pli media_ssrc = [0x81, 206, 0, 2, 0, 0, 0, 0] @ to_be32 media_ssrc"

function encode_remb_loop :: "u8 \<Rightarrow> u64 \<Rightarrow> u8 \<times> u64" where
  "encode_remb_loop exp mantissa =
     (if 0x3FFFF < mantissa then encode_remb_loop (exp + 1) (drop_bit 1 mantissa)
      else (exp, mantissa))"
  by pat_completeness auto
termination
proof (relation "measure (\<lambda>(exp, m). unat m)")
  fix exp :: u8 and m :: u64
  assume "0x3FFFF < m"
  then have "0 < unat m" by (simp add: word_less_nat_alt)
  then show "((exp + 1, drop_bit 1 m), exp, m) \<in> measure (\<lambda>(exp, m). unat m)"
    by (simp add: unat_drop_bit_div)
qed simp

declare encode_remb_loop.simps [simp del]

definition encode_remb_bitrate :: "u64 \<Rightarrow> u8 \<times> u32" where
  "encode_remb_bitrate bps =
     (case encode_remb_loop 0 bps of (exp, mantissa) \<Rightarrow> (exp, ucast mantissa))"

definition build_remb :: "u64 \<Rightarrow> u32 \<Rightarrow> bytes" where
  "build_remb bitrate_bps media_ssrc =
     (case encode_remb_bitrate bitrate_bps of (exp, mantissa) \<Rightarrow>
        [0x8F, 206, 0, 5, 0, 0, 0, 0, 0, 0, 0, 0, 0x52, 0x45, 0x4D, 0x42,
         1,
         push_bit 2 exp OR (ucast (drop_bit 16 mantissa) AND 0x03),
         ucast (drop_bit 8 mantissa),
         ucast mantissa] @ to_be32 media_ssrc)"

section \<open>No packet makes a parser panic\<close>

lemma nack_fci_total: "fci_end \<le> length buf \<Longrightarrow> nack_fci buf ssrc off fci_end \<noteq> None"
proof (induction buf ssrc off fci_end rule: nack_fci.induct)
  case (1 buf ssrc off e)
  show ?case
    by (subst nack_fci.simps) (intro total; use 1 in simp)
qed

lemma nack_loop_total: "nack_loop buf offset \<noteq> None"
proof (induction buf offset rule: nack_loop.induct)
  case (1 buf offset)
  show ?case
    by (subst nack_loop.simps) (intro total nack_fci_total; use 1 in simp)
qed

lemma split_loop_total: "split_loop buf offset \<noteq> None"
proof (induction buf offset rule: split_loop.induct)
  case (1 buf offset)
  show ?case
    by (subst split_loop.simps) (intro total; use 1 in simp)
qed

text \<open>The blocks that the classifier refers to lie inside the packet.\<close>

lemma split_loop_refs:
  "split_loop buf offset = Some c \<Longrightarrow> b \<in> set (relay_blocks c) \<Longrightarrow> rb_offset b + rb_length b \<le> length buf"
proof (induction "length buf - offset" arbitrary: offset c rule: less_induct)
  case less
  show ?case
  proof (cases "offset + 4 \<le> length buf")
    case True
    then obtain w where w: "rd16 buf (offset + 2) = Some w" by simp
    let ?n = "(unat w + 1) * 4"
    obtain rest where rest: "split_loop buf (offset + ?n) = Some rest" using split_loop_total by fastforce
    have IH: "offset + ?n \<le> length buf \<Longrightarrow> b \<in> set (relay_blocks rest) \<Longrightarrow> rb_offset b + rb_length b \<le> length buf"
      using less.hyps [of "offset + ?n"] rest True by auto
    then show ?thesis
      using less.prems True rest w
      by (subst (asm) split_loop.simps)
         (auto simp: Let_def algebra_simps simp del: rd16_in_range split: if_splits Option.bind_splits)
  next
    case False
    then show ?thesis using less.prems by (subst (asm) split_loop.simps) auto
  qed
qed

lemma parse_rtp_header_total: "parse_rtp_header buf \<noteq> None"
  unfolding parse_rtp_header_def
  by (intro total) (auto simp: config_defs not_less)

lemma build_rtx_total: "build_rtx_packet original ssrc seq \<noteq> None"
  unfolding build_rtx_packet_def
  by (intro total) (auto simp: config_defs not_less)

text \<open>
  No RTP or RTCP byte string makes the packet helpers panic. The header parser, the
  NACK parser, the compound classifier and the retransmission builder return for every
  input: every index and slice they use is in range whatever the length fields claim,
  and their loops end.
\<close>

theorem rtcp_parsers_total:
  "parse_rtp_header buf \<noteq> None \<and> parse_rtcp_nack buf \<noteq> None \<and>
   split_compound_rtcp buf \<noteq> None \<and> build_rtx_packet buf ssrc seq \<noteq> None"
  by (simp add: parse_rtp_header_total parse_rtcp_nack_def nack_loop_total split_compound_rtcp_def
      split_loop_total build_rtx_total)

section \<open>REMB bitrates\<close>

lemma encode_remb_loop_eq:
  "\<exists>k. encode_remb_loop exp m = (exp + of_nat k, drop_bit k m) \<and> drop_bit k m \<le> 0x3FFFF \<and>
       (k = 0 \<or> 0x1FFFF < drop_bit k m)"
proof (induction exp m rule: encode_remb_loop.induct)
  case (1 exp m)
  show ?case
  proof (cases "0x3FFFF < m")
    case True
    with "1.IH" obtain k where k: "encode_remb_loop (exp + 1) (drop_bit 1 m) = (exp + 1 + of_nat k, drop_bit k (drop_bit 1 m))"
      "drop_bit k (drop_bit 1 m) \<le> 0x3FFFF" "k = 0 \<or> 0x1FFFF < drop_bit k (drop_bit 1 m)" by blast
    have "0x1FFFF < drop_bit 1 m"
    proof -
      from True have "0x3FFFF < unat m" by (simp add: word_less_nat_alt)
      then have "0x1FFFF < unat m div 2" by simp
      then show ?thesis by (simp add: word_less_nat_alt unat_drop_bit_div)
    qed
    with k(3) have "0x1FFFF < drop_bit (Suc k) m" by (auto simp: drop_bit_Suc)
    moreover have "drop_bit k (drop_bit 1 m) = drop_bit (Suc k) m" by simp
    ultimately show ?thesis
      using True k(1,2)
      by (intro exI [of _ "Suc k"]) (simp add: encode_remb_loop.simps [of exp m] algebra_simps)
  next
    case False
    then show ?thesis
      by (intro exI [of _ 0]) (auto simp: encode_remb_loop.simps [of exp m])
  qed
qed

lemma encode_remb_bitrate_spec:
  obtains k where "encode_remb_bitrate bps = (of_nat k, ucast (drop_bit k bps))"
    and "unat (drop_bit k bps) < 2 ^ 18" and "k = 0 \<or> 2 ^ 17 \<le> unat (drop_bit k bps)" and "k \<le> 46"
proof -
  obtain k where k: "encode_remb_loop 0 bps = (0 + of_nat k, drop_bit k bps)"
    "drop_bit k bps \<le> 0x3FFFF" "k = 0 \<or> 0x1FFFF < drop_bit k bps"
    using encode_remb_loop_eq by blast
  from k(2) have lt: "unat (drop_bit k bps) < 2 ^ 18" by (simp add: word_le_nat_alt)
  from k(3) have ge: "k = 0 \<or> 2 ^ 17 \<le> unat (drop_bit k bps)"
    by (auto simp: word_less_nat_alt)
  have "k \<le> 46"
  proof (cases "k = 0")
    case False
    with ge have "2 ^ 17 \<le> unat bps div 2 ^ k" by (auto simp: unat_drop_bit_div)
    then have "2 ^ 17 * 2 ^ k \<le> unat bps"
      by (metis div_times_less_eq_dividend le_trans mult_le_mono1)
    also have "unat bps < 2 ^ 64" using unsigned_less [of bps] by simp
    finally have "(2::nat) ^ (17 + k) < 2 ^ 64" by (simp add: power_add)
    then have "17 + k < 64" by (rule power_less_imp_less_exp [rotated]) simp
    then show ?thesis by simp
  qed simp
  with k(1) lt ge that show thesis by (simp add: encode_remb_bitrate_def)
qed

text \<open>The receiver's reading of a REMB packet: exponent and mantissa of bytes 17 to 19.\<close>

definition remb_exp :: "bytes \<Rightarrow> nat" where
  "remb_exp p = unat (drop_bit 2 (p ! 17))"

definition remb_mantissa :: "bytes \<Rightarrow> nat" where
  "remb_mantissa p = unat (of_be32 0 (p ! 17 AND 3) (p ! 18) (p ! 19))"

lemma remb_pack:
  fixes e :: u8 and m :: u32
  assumes "unat e < 64" and "unat m < 2 ^ 18"
  shows "drop_bit 2 (push_bit 2 e OR (ucast (drop_bit 16 m) AND 3)) = e"
    and "of_be32 0 ((push_bit 2 e OR (ucast (drop_bit 16 m) AND 3)) AND 3)
           (ucast (drop_bit 8 m)) (ucast m) = m"
proof -
  have three: "(3 :: u8) = mask 2" by (simp add: mask_eq_exp_minus_1)
  have "take_bit 6 e = e" using assms(1) by (simp add: word_unat_eq_iff unsigned_take_bit_eq take_bit_nat_eq_self)
  moreover have "drop_bit 2 (push_bit 2 e OR (ucast (drop_bit 16 m) AND 3)) = take_bit 6 e"
    unfolding three by (rule bit_word_eqI) (auto simp: bit_simps)
  ultimately show "drop_bit 2 (push_bit 2 e OR (ucast (drop_bit 16 m) AND 3)) = e" by simp
  have "take_bit 18 m = m" using assms(2) by (simp add: word_unat_eq_iff unsigned_take_bit_eq take_bit_nat_eq_self)
  moreover have "of_be32 0 ((push_bit 2 e OR (ucast (drop_bit 16 m) AND 3)) AND 3)
           (ucast (drop_bit 8 m)) (ucast m) = take_bit 18 m"
  proof (rule bit_word_eqI)
    fix n assume "n < LENGTH(32)"
    then consider "n < 8" | "8 \<le> n \<and> n < 16" | "16 \<le> n \<and> n < 24" | "24 \<le> n \<and> n < 32"
      by fastforce
    then show "bit (of_be32 0 ((push_bit 2 e OR (ucast (drop_bit 16 m) AND 3)) AND 3)
           (ucast (drop_bit 8 m)) (ucast m)) n = bit (take_bit 18 m) n"
      unfolding three of_be32_def by cases (auto simp: bit_simps)
  qed
  ultimately show "of_be32 0 ((push_bit 2 e OR (ucast (drop_bit 16 m) AND 3)) AND 3)
           (ucast (drop_bit 8 m)) (ucast m) = m" by simp
qed

text \<open>
  The REMB packet is well formed and its bitrate honest. For every configured
  bitrate the encoding loop ends with an exponent and a mantissa that fit their 6 and 18
  bits; the packet has 24 bytes and names the media SSRC; and the bitrate the receiver
  reads from it is at most the configured one and within one part in \<open>2 ^ 17\<close> of it.
\<close>

theorem remb_roundtrip:
  "length (build_remb bps ssrc) = 24 \<and> rd32 (build_remb bps ssrc) 20 = Some ssrc \<and>
   remb_exp (build_remb bps ssrc) \<le> 46 \<and> remb_mantissa (build_remb bps ssrc) < 2 ^ 18 \<and>
   remb_mantissa (build_remb bps ssrc) * 2 ^ remb_exp (build_remb bps ssrc) \<le> unat bps \<and>
   (unat bps - remb_mantissa (build_remb bps ssrc) * 2 ^ remb_exp (build_remb bps ssrc)) * 2 ^ 17 \<le> unat bps"
proof -
  obtain k where enc: "encode_remb_bitrate bps = (of_nat k, ucast (drop_bit k bps))"
    and lt: "unat (drop_bit k bps) < 2 ^ 18" and norm: "k = 0 \<or> 2 ^ 17 \<le> unat (drop_bit k bps)"
    and k: "k \<le> 46"
    by (rule encode_remb_bitrate_spec)
  have m: "unat (ucast (drop_bit k bps) :: u32) = unat bps div 2 ^ k"
    using lt by (simp add: unsigned_ucast_eq unat_drop_bit_div take_bit_nat_eq_self)
  have e: "unat (of_nat k :: u8) = k"
    using k by (simp add: unat_of_nat)
  have pack: "unat (of_nat k :: u8) < 64" "unat (ucast (drop_bit k bps) :: u32) < 2 ^ 18"
    using e k m lt by (simp_all add: unat_drop_bit_div)
  let ?p = "build_remb bps ssrc"
  have p: "?p = [0x8F, 206, 0, 5, 0, 0, 0, 0, 0, 0, 0, 0, 0x52, 0x45, 0x4D, 0x42, 1,
         push_bit 2 (of_nat k) OR (ucast (drop_bit 16 (ucast (drop_bit k bps) :: u32)) AND 0x03),
         ucast (drop_bit 8 (ucast (drop_bit k bps) :: u32)), ucast (ucast (drop_bit k bps) :: u32)]
         @ to_be32 ssrc"
    by (simp only: build_remb_def enc prod.case)
  have exp: "remb_exp ?p = k"
    unfolding p remb_exp_def using remb_pack(1) [OF pack] e by simp
  have man: "remb_mantissa ?p = unat bps div 2 ^ k"
    unfolding p remb_mantissa_def using remb_pack(2) [OF pack] m by simp
  have "rd32 ?p 20 = Some ssrc"
    unfolding p by (rule be32.get_at [where post = "[]", simplified]) simp
  moreover have "unat bps div 2 ^ k * 2 ^ k \<le> unat bps" by simp
  moreover have "(unat bps - unat bps div 2 ^ k * 2 ^ k) * 2 ^ 17 \<le> unat bps"
  proof (cases "k = 0")
    case False
    have "(unat bps - unat bps div 2 ^ k * 2 ^ k) * 2 ^ 17 = unat bps mod 2 ^ k * 2 ^ 17"
      by (simp add: minus_div_mult_eq_mod)
    also have "\<dots> \<le> 2 ^ k * 2 ^ 17" by simp
    also have "\<dots> \<le> unat bps div 2 ^ k * 2 ^ k"
      using norm False by (simp add: unat_drop_bit_div)
    also have "\<dots> \<le> unat bps" by simp
    finally show ?thesis .
  qed simp
  ultimately show ?thesis
    using k lt by (simp add: exp man unat_drop_bit_div) (simp add: p)
qed

section \<open>Compound packets\<close>

text \<open>
  A well-formed RTCP block has the length its header says. The specification of the
  classification works on the list of blocks.
\<close>

definition wf_block :: "bytes \<Rightarrow> bool" where
  "wf_block b = (4 \<le> length b \<and> length b = (unat (of_be16 (b ! 2) (b ! 3)) + 1) * 4)"

definition nack_b :: "bytes \<Rightarrow> bool" where
  "nack_b b = is_nack_block (b ! 1) (b ! 0 AND 0x1F)"

definition relay_b :: "bytes \<Rightarrow> bool" where
  "relay_b b = (\<not> nack_b b \<and> is_relay_block (b ! 1) (b ! 0 AND 0x1F))"

fun relay_refs :: "nat \<Rightarrow> bytes list \<Rightarrow> rtcp_block_ref list" where
  "relay_refs off [] = []"
| "relay_refs off (b # bs) =
     (if relay_b b
      then [\<lparr>rb_offset = off, rb_length = length b,
             rb_media_ssrc = (if 12 \<le> length (concat (b # bs))
                              then of_be32 (concat (b # bs) ! 8) (concat (b # bs) ! 9)
                                     (concat (b # bs) ! 10) (concat (b # bs) ! 11)
                              else 0)\<rparr>]
      else []) @ relay_refs (off + length b) bs"

lemma split_loop_blocks:
  assumes "\<forall>b \<in> set bs. wf_block b"
  shows "split_loop (pre @ concat bs) (length pre) =
    Some \<lparr>nack_blocks = filter nack_b bs, relay_blocks = relay_refs (length pre) bs\<rparr>"
  using assms
proof (induction bs arbitrary: pre)
  case Nil
  then show ?case by (subst split_loop.simps) simp
next
  case (Cons b bs)
  let ?buf = "pre @ b @ concat bs"
  have b: "4 \<le> length b" "(unat (of_be16 (b ! 2) (b ! 3)) + 1) * 4 = length b"
    using Cons.prems by (auto simp: wf_block_def)
  have at: "idx ?buf (length pre + i) = Some (b ! i)" if "i < 4" for i
    using that b(1) by (simp add: idx_def nth_append)
  have idx: "idx ?buf (length pre) = Some (b ! 0)" "idx ?buf (length pre + 1) = Some (b ! 1)"
    "rd16 ?buf (length pre + 2) = Some (of_be16 (b ! 2) (b ! 3))"
    using at [of 0] at [of 1] at [of 2] at [of 3]
    by (simp_all only: rd16_def add.assoc one_add_one numeral_plus_one add_0_right bind.bind_lunit)
       (simp_all add: numeral_3_eq_3)
  have ssrc: "(if length pre + 12 \<le> length ?buf then rd32 ?buf (length pre + 8) else Some 0) =
    Some (if 12 \<le> length (concat (b # bs))
                              then of_be32 (concat (b # bs) ! 8) (concat (b # bs) ! 9)
                                     (concat (b # bs) ! 10) (concat (b # bs) ! 11)
                              else 0)"
    by (simp add: nth_append add.assoc)
  have block: "slice ?buf (length pre) (length pre + length b) = Some b"
    by (rule slice_middle) simp_all
  have rest: "split_loop ?buf (length pre + length b) =
    Some \<lparr>nack_blocks = filter nack_b bs, relay_blocks = relay_refs (length pre + length b) bs\<rparr>"
    using Cons.IH [of "pre @ b"] Cons.prems by simp
  have "length b \<noteq> 0" and "\<not> length ?buf < length pre + length b" and "length pre + 4 \<le> length ?buf"
    using b by auto
  then show ?case
    unfolding concat.simps
    by (subst split_loop.simps)
       (simp only: idx ssrc block rest b Let_def bind.bind_lunit if_False if_True simp_thms,
        simp add: nack_b_def relay_b_def)
qed

lemma relay_refs_slices:
  "map (\<lambda>r. slice (pre @ concat bs) (rb_offset r) (rb_offset r + rb_length r)) (relay_refs (length pre) bs) =
   map Some (filter relay_b bs)"
proof (induction bs arbitrary: pre)
  case (Cons b bs)
  from Cons.IH [of "pre @ b"] show ?case by (simp add: slice_middle)
qed simp

text \<open>
  Classification of compound RTCP. A compound packet made of blocks of correct
  length is taken apart into exactly its blocks: the Generic NACKs are copied out in
  order, and the references kept for relaying cut exactly the receiver reports, PLIs and
  REMBs out of the packet, in order; so reassembling what they cut out is the compound of
  those blocks, unchanged.
\<close>

theorem split_compound_spec:
  assumes "\<forall>b \<in> set bs. wf_block b"
  shows "\<exists>refs. split_compound_rtcp (concat bs) = Some \<lparr>nack_blocks = filter nack_b bs, relay_blocks = refs\<rparr> \<and>
    map (\<lambda>r. slice (concat bs) (rb_offset r) (rb_offset r + rb_length r)) refs = map Some (filter relay_b bs) \<and>
    assemble_compound (filter relay_b bs) = concat (filter relay_b bs)"
  using split_loop_blocks [OF assms, of "[]"] relay_refs_slices [of "[]" bs]
  by (simp add: split_compound_rtcp_def assemble_compound_def)

theorem split_compound_spec_witness:
  "\<exists>refs. split_compound_rtcp (concat [build_pli 7, [0x81, 205, 0, 3, 0, 0, 0, 0, 0, 0, 0, 9, 0, 4, 0, 0]]) =
      Some \<lparr>nack_blocks = filter nack_b [build_pli 7, [0x81, 205, 0, 3, 0, 0, 0, 0, 0, 0, 0, 9, 0, 4, 0, 0]],
            relay_blocks = refs\<rparr> \<and>
    map (\<lambda>r. slice (concat [build_pli 7, [0x81, 205, 0, 3, 0, 0, 0, 0, 0, 0, 0, 9, 0, 4, 0, 0]])
            (rb_offset r) (rb_offset r + rb_length r)) refs =
      map Some (filter relay_b [build_pli 7, [0x81, 205, 0, 3, 0, 0, 0, 0, 0, 0, 0, 9, 0, 4, 0, 0]]) \<and>
    assemble_compound (filter relay_b [build_pli 7, [0x81, 205, 0, 3, 0, 0, 0, 0, 0, 0, 0, 9, 0, 4, 0, 0]]) =
      concat (filter relay_b [build_pli 7, [0x81, 205, 0, 3, 0, 0, 0, 0, 0, 0, 0, 9, 0, 4, 0, 0]])"
  by (rule split_compound_spec)
     (simp add: wf_block_def build_pli_def of_be16_def to_be32_def)

section \<open>NACK round trip and expansion\<close>

text \<open>The Generic NACK a subscriber builds (RFC 4585, section 6.2.1).\<close>

definition encode_nack :: "u32 \<Rightarrow> u32 \<Rightarrow> (u16 \<times> u16) list \<Rightarrow> bytes" where
  "encode_nack sender media fcis =
     [0x81, 205] @ to_be16 (of_nat (length fcis + 2)) @ to_be32 sender @ to_be32 media @
     concat (map (\<lambda>(pid, blp). to_be16 pid @ to_be16 blp) fcis)"

lemma length_fcis: "length (concat (map (\<lambda>(pid, blp). to_be16 pid @ to_be16 blp) fcis)) = 4 * length fcis"
  by (induction fcis) auto

lemma nack_fci_encoded:
  "nack_fci (pre @ concat (map (\<lambda>(pid, blp). to_be16 pid @ to_be16 blp) fcis)) ssrc (length pre)
     (length pre + 4 * length fcis) =
   Some (map (\<lambda>(pid, blp). \<lparr>n_media_ssrc = ssrc, n_pid = pid, n_blp = blp\<rparr>) fcis)"
proof (induction fcis arbitrary: pre)
  case Nil
  then show ?case by (subst nack_fci.simps) simp
next
  case (Cons f fcis)
  obtain pid blp where f: "f = (pid, blp)" by fastforce
  let ?rest = "concat (map (\<lambda>(pid, blp). to_be16 pid @ to_be16 blp) fcis)"
  have "rd16 (pre @ to_be16 pid @ to_be16 blp @ ?rest) (length pre) = Some pid"
    by (rule be16.get_at) simp
  moreover have "rd16 (pre @ to_be16 pid @ to_be16 blp @ ?rest) (length pre + 2) = Some blp"
    using be16.get_at [of "length pre + 2" "pre @ to_be16 pid" blp ?rest] by simp
  moreover have "nack_fci (pre @ to_be16 pid @ to_be16 blp @ ?rest) ssrc (length pre + 4)
      (length pre + 4 * length (f # fcis)) =
    Some (map (\<lambda>(pid, blp). \<lparr>n_media_ssrc = ssrc, n_pid = pid, n_blp = blp\<rparr>) fcis)"
    using Cons.IH [of "pre @ to_be16 pid @ to_be16 blp"] by (simp add: add.assoc)
  ultimately show ?case
    by (subst nack_fci.simps) (simp add: f)
qed

text \<open>
  NACK round trip. A Generic NACK feedback packet with any media SSRC and any list of
  lost-packet entries that its 16-bit length can describe is parsed to exactly those
  entries, in order, each with the media SSRC.
\<close>

theorem nack_roundtrip:
  assumes "length fcis + 2 < 2 ^ 16"
  shows "parse_rtcp_nack (encode_nack sender media fcis) =
    Some (map (\<lambda>(pid, blp). \<lparr>n_media_ssrc = media, n_pid = pid, n_blp = blp\<rparr>) fcis)"
proof -
  define w :: u16 where "w = of_nat (length fcis + 2)"
  let ?buf = "encode_nack sender media fcis"
  let ?fc = "concat (map (\<lambda>(pid, blp). to_be16 pid @ to_be16 blp) fcis)"
  have buf: "?buf = [0x81, 205] @ to_be16 w @ to_be32 sender @ to_be32 media @ ?fc"
    by (simp add: encode_nack_def w_def)
  have len: "length ?buf = 12 + 4 * length fcis"
    by (simp add: buf length_fcis)
  have words: "unat w = length fcis + 2"
    using assms unfolding w_def by (simp only: unat_of_nat) (simp add: take_bit_nat_eq_self)
  have "rd16 ?buf 2 = Some w"
    unfolding buf by (rule be16.get_at) simp
  moreover have "rd32 ?buf 8 = Some media"
    using be32.get_at [of 8 "[0x81, 205] @ to_be16 w @ to_be32 sender" media ?fc]
    by (simp add: buf)
  moreover have "nack_fci ?buf media 12 (12 + 4 * length fcis) =
      Some (map (\<lambda>(pid, blp). \<lparr>n_media_ssrc = media, n_pid = pid, n_blp = blp\<rparr>) fcis)"
    using nack_fci_encoded [of "[0x81, 205] @ to_be16 w @ to_be32 sender @ to_be32 media"]
    by (simp add: buf)
  moreover have "nack_loop ?buf (12 + 4 * length fcis) = Some []"
    by (subst nack_loop.simps) (simp add: len)
  moreover have "idx ?buf 0 = Some 0x81" and "idx ?buf 1 = Some 205"
    by (simp_all add: buf idx_def)
  ultimately show ?thesis
    unfolding parse_rtcp_nack_def
    by (subst nack_loop.simps) (simp add: len words config_defs algebra_simps numeral_2_eq_2 numeral_3_eq_3)
qed

theorem nack_roundtrip_witness:
  "length [(7 :: u16, 3 :: u16)] + 2 < 2 ^ 16 \<and>
   parse_rtcp_nack (encode_nack 1 0xABCD [(7, 3)]) =
     Some (map (\<lambda>(pid, blp). \<lparr>n_media_ssrc = 0xABCD, n_pid = pid, n_blp = blp\<rparr>) [(7, 3)])"
proof -
  have h: "length [(7 :: u16, 3 :: u16)] + 2 < 2 ^ 16" by simp
  show ?thesis using h nack_roundtrip [OF h] by blast
qed

lemma and_bit_iff: "(blp :: u16) AND push_bit i 1 \<noteq> 0 \<longleftrightarrow> bit blp i"
  by (simp add: bit_iff_and_push_bit_not_eq_0)

text \<open>
  Expansion of a NACK entry. The list starts with the packet identifier, contains a
  further sequence number exactly for every bit of the mask (bit \<open>i\<close> for identifier plus
  \<open>i\<close> plus one, modulo \<open>2 ^ 16\<close>), and has no duplicates, so no packet is resent twice for
  one entry.
\<close>

theorem expand_nack_spec:
  "hd (expand_nack pid blp) = pid \<and> distinct (expand_nack pid blp) \<and>
   set (expand_nack pid blp) = insert pid {pid + of_nat (i + 1) |i. bit blp i}"
proof -
  have inj: "inj_on (\<lambda>i. pid + (of_nat i + 1)) {i. i < 16}"
  proof (rule inj_onI)
    fix x y :: nat assume h: "x \<in> {i. i < 16}" "y \<in> {i. i < 16}" "pid + (of_nat x + 1) = pid + (of_nat y + 1)"
    then have "(of_nat x :: u16) = of_nat y" by simp
    moreover have "unat (of_nat z :: u16) = z" if "z < 16" for z
      using that by (simp only: unat_of_nat) (simp add: take_bit_nat_eq_self)
    ultimately show "x = y" using h by (metis mem_Collect_eq)
  qed
  have ne: "pid \<noteq> pid + (of_nat i + 1)" if "i < 16" for i
  proof -
    have "unat (of_nat (i + 1) :: u16) = i + 1"
      using that by (simp only: unat_of_nat) (simp add: take_bit_nat_eq_self)
    then have "of_nat (i + 1) \<noteq> (0 :: u16)" by (metis add_is_0 one_neq_zero unat_0)
    then show ?thesis by (simp add: algebra_simps)
  qed
  have "distinct (map (\<lambda>i. pid + (of_nat i + 1)) (filter (bit blp) [0..<16]))"
    using inj by (auto simp: distinct_map intro: inj_on_subset)
  moreover have "pid \<notin> set (map (\<lambda>i. pid + (of_nat i + 1)) (filter (bit blp) [0..<16]))"
    using ne by auto
  moreover have "set (filter (bit blp) [0..<16]) = {i. bit blp i}"
    using bit_imp_le_length [of blp] by auto
  moreover have "expand_nack pid blp = pid # map (\<lambda>i. pid + (of_nat i + 1)) (filter (bit blp) [0..<16])"
    unfolding expand_nack_def and_bit_iff by simp
  moreover have "{pid + of_nat (i + 1) |i. bit blp i} = (\<lambda>i. pid + (of_nat i + 1)) ` {i. bit blp i}"
    by (auto simp: algebra_simps)
  ultimately show ?thesis
    by (simp only: list.sel(1) distinct.simps set_simps set_map list.set) blast
qed

section \<open>Retransmission packets\<close>

lemma build_rtx_eq:
  assumes "length csrcs = 4 * unat (b0 AND 0x0F)"
  shows "build_rtx_packet ([b0, b1] @ to_be16 sq @ to_be32 ts @ to_be32 ssrc @ csrcs @ payload) rtx_ssrc rtx_seq =
    Some ([b0, RTX_PAYLOAD_TYPE] @ to_be16 rtx_seq @ to_be32 ts @ to_be32 rtx_ssrc @ csrcs @ to_be16 sq @ payload)"
proof -
  let ?hdr = "[b0, b1] @ to_be16 sq @ to_be32 ts @ to_be32 ssrc @ csrcs"
  let ?buf = "?hdr @ payload"
  have len: "length ?hdr = 12 + unat (b0 AND 0x0F) * 4" using assms by simp
  have "slice ?buf 0 (12 + unat (b0 AND 0x0F) * 4) = Some ?hdr"
    using slice_middle [of 0 "[]" "12 + unat (b0 AND 0x0F) * 4" ?hdr payload] len by simp
  moreover have "slice ?buf (12 + unat (b0 AND 0x0F) * 4) (length ?buf) = Some payload"
    using slice_middle [of "12 + unat (b0 AND 0x0F) * 4" ?hdr "length ?buf" payload "[]"] len
    by (simp del: slice_in_range)
  moreover have "rd16 ?buf 2 = Some sq"
    using be16.get_at [of 2 "[b0, b1]" sq] by (simp del: rd16_in_range)
  moreover have "idx ?buf 0 = Some b0" by (simp add: idx_def)
  moreover have "write_at ?hdr 1 [RTX_PAYLOAD_TYPE] =
      Some ([b0, RTX_PAYLOAD_TYPE] @ to_be16 sq @ to_be32 ts @ to_be32 ssrc @ csrcs)"
    by (simp add: write_at_def)
  moreover have "write_at ([b0, RTX_PAYLOAD_TYPE] @ to_be16 sq @ to_be32 ts @ to_be32 ssrc @ csrcs) 2 (to_be16 rtx_seq) =
      Some ([b0, RTX_PAYLOAD_TYPE] @ to_be16 rtx_seq @ to_be32 ts @ to_be32 ssrc @ csrcs)"
    by (simp add: write_at_def)
  moreover have "write_at ([b0, RTX_PAYLOAD_TYPE] @ to_be16 rtx_seq @ to_be32 ts @ to_be32 ssrc @ csrcs) 8 (to_be32 rtx_ssrc) =
      Some ([b0, RTX_PAYLOAD_TYPE] @ to_be16 rtx_seq @ to_be32 ts @ to_be32 rtx_ssrc @ csrcs)"
    by (simp add: write_at_def)
  moreover have "12 + unat (b0 AND 0x0F) * 4 \<le> length ?buf" using len by simp
  ultimately show ?thesis
    unfolding build_rtx_packet_def Let_def
    by (simp add: RTP_HEADER_MIN_SIZE_def not_less del: slice_in_range rd16_in_range write_at_in_range idx_in_range)
qed

text \<open>
  The retransmission packet of RFC 4588. For any stored RTP packet (its fixed header,
  as many contributing sources as it announces, and a payload) the builder returns a
  packet whose header parses to the retransmission payload type without marker, the new
  sequence number and SSRC, the original timestamp and the original sources, and whose
  payload is the original sequence number followed by the original payload.
\<close>

theorem rtx_packet_spec:
  assumes "length csrcs = 4 * unat (b0 AND 0x0F)"
  shows "\<exists>rtx h. build_rtx_packet ([b0, b1] @ to_be16 sq @ to_be32 ts @ to_be32 ssrc @ csrcs @ payload) rtx_ssrc rtx_seq = Some rtx \<and>
    parse_rtp_header rtx = Some h \<and>
    h_pt h = RTX_PAYLOAD_TYPE \<and> \<not> h_marker h \<and> h_seq h = rtx_seq \<and> h_ssrc h = rtx_ssrc \<and>
    h_timestamp h = ts \<and> take (length csrcs) (drop 12 rtx) = csrcs \<and>
    drop (h_header_len h) rtx = to_be16 sq @ payload"
proof -
  let ?rtx = "[b0, RTX_PAYLOAD_TYPE] @ to_be16 rtx_seq @ to_be32 ts @ to_be32 rtx_ssrc @ csrcs @ to_be16 sq @ payload"
  let ?h = "\<lparr>h_pt = RTX_PAYLOAD_TYPE, h_marker = False, h_seq = rtx_seq, h_timestamp = ts, h_ssrc = rtx_ssrc,
      h_header_len = 12 + unat (b0 AND 0x0F) * 4\<rparr>"
  have "rd16 ?rtx 2 = Some rtx_seq"
    using be16.get_at [of 2 "[b0, RTX_PAYLOAD_TYPE]" rtx_seq] by (simp del: rd16_in_range)
  moreover have "rd32 ?rtx 4 = Some ts"
    using be32.get_at [of 4 "[b0, RTX_PAYLOAD_TYPE] @ to_be16 rtx_seq" ts] by (simp del: rd32_in_range)
  moreover have "rd32 ?rtx 8 = Some rtx_ssrc"
    using be32.get_at [of 8 "[b0, RTX_PAYLOAD_TYPE] @ to_be16 rtx_seq @ to_be32 ts" rtx_ssrc]
    by (simp del: rd32_in_range)
  moreover have "idx ?rtx 0 = Some b0" "idx ?rtx 1 = Some RTX_PAYLOAD_TYPE" by (simp_all add: idx_def)
  ultimately have "parse_rtp_header ?rtx = Some ?h"
    unfolding parse_rtp_header_def
    by (simp add: config_defs del: rd16_in_range rd32_in_range idx_in_range)
  moreover have "drop (12 + unat (b0 AND 0x0F) * 4) ?rtx = to_be16 sq @ payload"
  proof -
    let ?front = "[b0, RTX_PAYLOAD_TYPE] @ to_be16 rtx_seq @ to_be32 ts @ to_be32 rtx_ssrc @ csrcs"
    have "12 + unat (b0 AND 0x0F) * 4 = length ?front" using assms by simp
    moreover have "?rtx = ?front @ to_be16 sq @ payload" by simp
    ultimately show ?thesis by (metis append_eq_conv_conj)
  qed
  moreover have "take (length csrcs) (drop 12 ?rtx) = csrcs"
    by (simp add: to_be16_def to_be32_def)
  ultimately show ?thesis
    using build_rtx_eq [OF assms, of b1 sq ts ssrc payload rtx_ssrc rtx_seq]
    by (intro exI [of _ ?rtx] exI [of _ ?h]) simp
qed

theorem rtx_packet_spec_witness:
  "\<exists>rtx. build_rtx_packet ([0x81, 0xE0] @ to_be16 7 @ to_be32 9 @ to_be32 5 @ [1, 2, 3, 4] @ [8, 8]) 1005 3 = Some rtx"
proof -
  have h: "length [1, 2, 3, 4 :: u8] = 4 * unat (0x81 AND 0x0F :: u8)" by simp
  show ?thesis using rtx_packet_spec [OF h] by blast
qed

end
