(* ===== verification/Seq_Ring.thy ===== *)
theory Seq_Ring
  imports Prelude
begin

text \<open>
  The contract of a ring buffer addressed by a 16-bit sequence number: the slot is the
  number modulo the capacity, a lookup checks the number stored in the slot, and a newer
  entry overwrites an older one. The retransmission cache of \<open>participant.rs\<close> and the
  arrival recorder of \<open>twcc.rs\<close> are its two providers.
\<close>

locale seq_ring =
  fixes put :: "'r \<Rightarrow> u16 \<Rightarrow> 'x \<Rightarrow> 'r option"
    and get :: "'r \<Rightarrow> u16 \<Rightarrow> 'x option option"
    and wf :: "'r \<Rightarrow> bool"
    and carries :: "u16 \<Rightarrow> 'x \<Rightarrow> bool"
    and cap :: nat
  assumes put_wf: "wf r \<Longrightarrow> \<exists>r'. put r s x = Some r' \<and> wf r'"
    and get_same: "wf r \<Longrightarrow> put r s x = Some r' \<Longrightarrow> carries s x \<Longrightarrow> get r' s = Some (Some x)"
    and get_slot: "wf r \<Longrightarrow> put r s x = Some r' \<Longrightarrow> carries s x \<Longrightarrow> t \<noteq> s \<Longrightarrow>
      unat t mod cap = unat s mod cap \<Longrightarrow> get r' t = Some None"
    and get_other: "wf r \<Longrightarrow> put r s x = Some r' \<Longrightarrow>
      unat t mod cap \<noteq> unat s mod cap \<Longrightarrow> get r' t = get r t"
begin

fun put_all :: "'r \<Rightarrow> (u16 \<times> 'x) list \<Rightarrow> 'r option" where
  "put_all r [] = Some r"
| "put_all r ((s, x) # ps) = Option.bind (put r s x) (\<lambda>r'. put_all r' ps)"

lemma put_all_wf: "wf r \<Longrightarrow> \<exists>r'. put_all r ps = Some r' \<and> wf r'"
proof (induction r ps rule: put_all.induct)
  case (2 r s x ps)
  then show ?case using put_wf [of r s x] by (metis bind.bind_lunit put_all.simps(2))
qed simp

lemma get_put_all_other:
  "wf r \<Longrightarrow> put_all r ps = Some r' \<Longrightarrow>
   unat t mod cap \<notin> (\<lambda>(s, x). unat s mod cap) ` set ps \<Longrightarrow> get r' t = get r t"
proof (induction r ps rule: put_all.induct)
  case (2 r s x ps)
  then obtain q where q: "put r s x = Some q" "put_all q ps = Some r'"
    by (auto split: Option.bind_splits)
  then have "wf q" using put_wf [OF "2.prems"(1), of s x] by auto
  then have "get r' t = get q t" using 2 q by auto
  then show ?case using get_other [OF "2.prems"(1) q(1)] "2.prems"(3) by auto
qed simp

lemma window:
  "wf r \<Longrightarrow> put_all r ps = Some r' \<Longrightarrow> \<forall>(s, x) \<in> set ps. carries s x \<Longrightarrow>
   distinct (map (\<lambda>(s, x). unat s mod cap) ps) \<Longrightarrow> (t, y) \<in> set ps \<Longrightarrow>
   get r' t = Some (Some y)"
proof (induction r ps rule: put_all.induct)
  case (2 r s x ps)
  then obtain q where q: "put r s x = Some q" "put_all q ps = Some r'"
    by (auto split: Option.bind_splits)
  then have wf: "wf q" using put_wf [OF "2.prems"(1), of s x] by auto
  show ?case
  proof (cases "(t, y) = (s, x)")
    case True
    then have "get r' t = get q t"
      using get_put_all_other [OF wf q(2), of t] "2.prems"(4) by auto
    then show ?thesis using True get_same [OF "2.prems"(1) q(1)] "2.prems"(3) by simp
  next
    case False
    then show ?thesis using 2 q wf by auto
  qed
qed simp

lemma window_slots:
  assumes "cap dvd 2 ^ 16" and "n \<le> cap"
  shows "distinct (map (\<lambda>i. unat (s + of_nat i :: u16) mod cap) [0..<n])"
proof -
  have "unat (s + of_nat i :: u16) mod cap = (unat s + i) mod cap" for i
  proof -
    have "unat (s + of_nat i :: u16) = (unat s + i) mod 2 ^ 16"
      by (simp add: unat_word_ariths unat_of_nat take_bit_eq_mod mod_simps)
    then show ?thesis using assms(1) by (simp add: mod_mod_cancel)
  qed
  moreover have "inj_on (\<lambda>i. (unat s + i) mod cap) {0..<n}"
  proof (rule linorder_inj_onI')
    fix i j assume h: "i \<in> {0..<n}" "j \<in> {0..<n}" "i < j"
    then have "\<not> cap dvd (unat s + j) - (unat s + i)"
      using assms(2) by (auto dest: dvd_imp_le)
    then show "(unat s + i) mod cap \<noteq> (unat s + j) mod cap"
      using h(3) mod_eq_dvd_iff_nat [of "unat s + i" "unat s + j" cap] by auto
  qed
  ultimately show ?thesis by (simp add: distinct_map)
qed

lemma recent:
  assumes "wf r" and "cap dvd 2 ^ 16" and "length xs \<le> cap"
    and "\<And>i. i < length xs \<Longrightarrow> carries (s + of_nat i) (xs ! i)"
    and "i < length xs"
  shows "\<exists>r'. put_all r (map (\<lambda>i. (s + of_nat i, xs ! i)) [0..<length xs]) = Some r' \<and>
              get r' (s + of_nat i) = Some (Some (xs ! i))"
proof -
  let ?ps = "map (\<lambda>i. (s + of_nat i, xs ! i)) [0..<length xs]"
  obtain r' where r': "put_all r ?ps = Some r'" using put_all_wf [OF assms(1), of ?ps] by blast
  moreover have "get r' (s + of_nat i) = Some (Some (xs ! i))"
  proof (rule window [OF assms(1) r'])
    show "distinct (map (\<lambda>(s, x). unat s mod cap) ?ps)"
      using window_slots [OF assms(2,3), of s] by (simp add: comp_def)
  qed (use assms(4,5) in auto)
  ultimately show ?thesis by blast
qed

end

end
