(* ===== verification/Twcc.thy ===== *)
theory Twcc
  imports Config Seq_Ring
begin

text \<open>
  Transport-wide congestion control (\<open>src/transport/udp/twcc.rs\<close>): the one-byte RTP
  header extension that carries the transport sequence number, the recorder of arrival
  times, and the feedback packet built from it. An \<open>Instant\<close> is a number of nanoseconds;
  \<open>duration_since\<close> saturates at zero.
\<close>

section \<open>The header extension\<close>

function ext_loop :: "bytes \<Rightarrow> u8 \<Rightarrow> nat \<Rightarrow> nat \<Rightarrow> u16 option option" where
  "ext_loop buf extmap_id pos ext_data_end =
     (if pos < ext_data_end
      then do {
        byte \<leftarrow> idx buf pos;
        if byte = 0 then ext_loop buf extmap_id (pos + 1) ext_data_end
        else do {
          let id = drop_bit 4 byte AND 0x0F;
          let len = unat (byte AND 0x0F) + 1;
          if id = 15 then Some None
          else if pos + 1 + len > ext_data_end then Some None
          else if id = extmap_id \<and> len \<ge> 2
          then do { twcc_seq \<leftarrow> rd16 buf (pos + 1); Some (Some twcc_seq) }
          else ext_loop buf extmap_id (pos + 1 + len) ext_data_end } }
      else Some None)"
  by pat_completeness auto
termination
  by (relation "measure (\<lambda>(buf, i, pos, e). e - pos)") auto

declare ext_loop.simps [simp del]

definition parse_twcc_seq :: "bytes \<Rightarrow> u8 \<Rightarrow> u16 option option" where
  "parse_twcc_seq buf extmap_id =
     (if length buf < RTP_HEADER_MIN_SIZE then Some None
      else do {
        b0 \<leftarrow> idx buf 0;
        if b0 AND 0x10 = 0 then Some None
        else do {
          let cc = unat (b0 AND 0x0F);
          let ext_offset = 12 + cc * 4;
          if length buf < ext_offset + 4 then Some None
          else do {
            profile \<leftarrow> rd16 buf ext_offset;
            ext_len_words \<leftarrow> rd16 buf (ext_offset + 2);
            if profile \<noteq> 0xBEDE then Some None
            else do {
              let ext_data_start = ext_offset + 4;
              let ext_data_end = ext_data_start + unat ext_len_words * 4;
              if length buf < ext_data_end then Some None
              else ext_loop buf extmap_id ext_data_start ext_data_end } } } })"

lemma ext_loop_total: "e \<le> length buf \<Longrightarrow> ext_loop buf i pos e \<noteq> None"
proof (induction buf i pos e rule: ext_loop.induct)
  case (1 buf i pos e)
  show ?case
    by (subst ext_loop.simps) (intro total; use 1 in \<open>auto simp: Let_def\<close>)
qed

lemma parse_twcc_seq_total: "parse_twcc_seq buf i \<noteq> None"
  unfolding parse_twcc_seq_def
  by (intro total ext_loop_total) (auto simp: config_defs not_less)

section \<open>The arrival recorder\<close>

record arrival_entry =
  ae_seq :: u16
  ae_arrival :: nat

record twcc_recorder =
  arrivals :: "arrival_entry option list"
  capacity :: nat
  pending_base_seq :: u16
  max_seq :: u16
  started :: bool
  rec_count :: u64
  base_time :: "nat option"
  fb_pkt_count :: u8

definition twcc_new :: twcc_recorder where
  "twcc_new =
     \<lparr>arrivals = replicate TWCC_RECORDER_CAPACITY None, capacity = TWCC_RECORDER_CAPACITY,
      pending_base_seq = 0, max_seq = 0, started = False, rec_count = 0, base_time = None,
      fb_pkt_count = 0\<rparr>"

text \<open>\<open>twcc_seq % capacity\<close> panics for a capacity of zero.\<close>

definition ring_index :: "twcc_recorder \<Rightarrow> u16 \<Rightarrow> nat option" where
  "ring_index r s = (if capacity r = 0 then None else Some (unat s mod capacity r))"

definition twcc_record :: "twcc_recorder \<Rightarrow> u16 \<Rightarrow> nat \<Rightarrow> twcc_recorder option" where
  "twcc_record r twcc_seq arrival = do {
     i \<leftarrow> ring_index r twcc_seq;
     _ \<leftarrow> idx (arrivals r) i;
     let r = r\<lparr>arrivals := (arrivals r)[i := Some \<lparr>ae_seq = twcc_seq, ae_arrival = arrival\<rparr>],
               rec_count := rec_count r + 1\<rparr>;
     Some (if \<not> started r
       then r\<lparr>started := True, pending_base_seq := twcc_seq, max_seq := twcc_seq,
              base_time := Some arrival\<rparr>
       else (let diff = twcc_seq - max_seq r in
         if 0 < diff \<and> diff < 0x8000 then r\<lparr>max_seq := twcc_seq\<rparr> else r)) }"

definition twcc_get :: "twcc_recorder \<Rightarrow> u16 \<Rightarrow> arrival_entry option option" where
  "twcc_get r twcc_seq = do {
     i \<leftarrow> ring_index r twcc_seq;
     slot \<leftarrow> idx (arrivals r) i;
     Some (case slot of
         Some e \<Rightarrow> if ae_seq e = twcc_seq then Some e else None
       | None \<Rightarrow> None) }"

definition advance_base :: "twcc_recorder \<Rightarrow> u16 \<Rightarrow> twcc_recorder" where
  "advance_base r new_base = r\<lparr>pending_base_seq := new_base\<rparr>"

definition pending_count :: "twcc_recorder \<Rightarrow> u16" where
  "pending_count r = (if \<not> started r then 0 else max_seq r - pending_base_seq r + 1)"

section \<open>The feedback packet\<close>

datatype packet_status = NotReceived | SmallDelta | LargeDelta

fun status_bits :: "packet_status \<Rightarrow> u16" where
  "status_bits NotReceived = 0"
| "status_bits SmallDelta = 1"
| "status_bits LargeDelta = 2"

text \<open>\<open>as i64\<close> and Rust's division and remainder, which truncate towards zero.\<close>

definition as_i64 :: "nat \<Rightarrow> int" where
  "as_i64 n = signed_take_bit 63 (int n)"

definition duration_since :: "nat \<Rightarrow> nat \<Rightarrow> nat" where
  "duration_since later earlier = later - earlier"

definition as_micros :: "nat \<Rightarrow> nat" where
  "as_micros ns = ns div 1000"

definition tdiv :: "int \<Rightarrow> int \<Rightarrow> int" where
  "tdiv a b = (if 0 \<le> a then a div b else - ((- a) div b))"

definition arrival_delta :: "nat \<Rightarrow> nat option \<Rightarrow> nat \<Rightarrow> int" where
  "arrival_delta t0 prev_arrival arrival =
     (case prev_arrival of
        Some prev \<Rightarrow>
          if arrival \<ge> prev then tdiv (as_i64 (as_micros (duration_since arrival prev))) 250
          else - (tdiv (as_i64 (as_micros (duration_since prev arrival))) 250)
      | None \<Rightarrow>
          (let offset_us = as_i64 (as_micros (duration_since arrival t0));
               offset_250us = tdiv offset_us 250;
               ref_250us = tdiv offset_250us 256 * 256
           in offset_250us - ref_250us))"

definition delta_status :: "int \<Rightarrow> packet_status" where
  "delta_status d =
     (if 0 \<le> d \<and> d \<le> 255 then SmallDelta
      else if - 8192 \<le> d \<and> d \<le> 8191 then LargeDelta
      else LargeDelta)"

text \<open>
  The collecting loop over the pending numbers: statuses, deltas of the received packets,
  first and previous arrival. A panic of the ring lookup ends it.
\<close>

fun collect :: "twcc_recorder \<Rightarrow> nat \<Rightarrow> u16 \<Rightarrow> nat \<Rightarrow> nat option \<Rightarrow> nat option \<Rightarrow>
    (packet_status list \<times> int list \<times> nat option) option" where
  "collect r base sq 0 first prev = Some ([], [], first)"
| "collect r base sq (Suc n) first prev = do {
     e \<leftarrow> twcc_get r sq;
     case e of
       Some entry \<Rightarrow> do {
         let arrival = ae_arrival entry;
         let delta = arrival_delta base prev arrival;
         (sts, ds, f) \<leftarrow> collect r base (sq + 1) n
           (if first = None then Some arrival else first) (Some arrival);
         Some (delta_status delta # sts, delta # ds, f) }
     | None \<Rightarrow> do {
         (sts, ds, f) \<leftarrow> collect r base (sq + 1) n first prev;
         Some (NotReceived # sts, ds, f) } }"

definition status_chunk :: "packet_status list \<Rightarrow> u16" where
  "status_chunk sts =
     foldl (\<lambda>chunk slot.
        chunk OR push_bit (12 - slot * 2)
          (status_bits (if slot < length sts then sts ! slot else NotReceived)))
       0xC000 [0..<7]"

function encode_status_chunks :: "packet_status list \<Rightarrow> u16 list" where
  "encode_status_chunks sts =
     (if sts = [] then [] else status_chunk (take 7 sts) # encode_status_chunks (drop 7 sts))"
  by pat_completeness auto
termination
  by (relation "measure length") auto

declare encode_status_chunks.simps [simp del]

definition clamp :: "int \<Rightarrow> int \<Rightarrow> int \<Rightarrow> int" where
  "clamp lo hi d = (if d < lo then lo else if hi < d then hi else d)"

text \<open>The deltas left stand for the source's index into the list.\<close>

fun encode_recv_deltas :: "packet_status list \<Rightarrow> int list \<Rightarrow> bytes" where
  "encode_recv_deltas [] ds = []"
| "encode_recv_deltas (SmallDelta # sts) (d # ds) =
     word_of_int (clamp 0 255 d) # encode_recv_deltas sts ds"
| "encode_recv_deltas (SmallDelta # sts) [] = encode_recv_deltas sts []"
| "encode_recv_deltas (LargeDelta # sts) (d # ds) =
     to_be16 (word_of_int (clamp (- 8192) 8191 d)) @ encode_recv_deltas sts ds"
| "encode_recv_deltas (LargeDelta # sts) [] = encode_recv_deltas sts []"
| "encode_recv_deltas (NotReceived # sts) ds = encode_recv_deltas sts ds"

text \<open>
  Stage five, the assembly of the packet. The zero padding up to \<open>total_len\<close> is the
  \<open>while\<close> loop; the padding count overwrites the last byte.
\<close>

definition pad_to :: "nat \<Rightarrow> bytes \<Rightarrow> bytes" where
  "pad_to n buf = buf @ replicate (n - length buf) 0"

definition assemble_feedback ::
  "u32 \<Rightarrow> u16 \<Rightarrow> u16 \<Rightarrow> u32 \<Rightarrow> u8 \<Rightarrow> u16 list \<Rightarrow> bytes \<Rightarrow> bytes" where
  "assemble_feedback media_ssrc base_seq status_count reference_time_24 fb_count chunks delta_bytes =
     (let payload_len = 8 + length chunks * 2 + length delta_bytes;
          body_len = 12 + payload_len;
          padded_body = align4 body_len;
          need_padding = padded_body > body_len;
          total_len = 4 + padded_body;
          buf = [if need_padding then 0xAF else 0x8F, RTCP_PT_RTPFB]
            @ to_be16 (of_nat (padded_body div 4))
            @ to_be32 1 @ to_be32 media_ssrc @ to_be16 base_seq @ to_be16 status_count
            @ [ucast (drop_bit 16 reference_time_24 AND 0xFF),
               ucast (drop_bit 8 reference_time_24 AND 0xFF),
               ucast (reference_time_24 AND 0xFF), fb_count]
            @ concat (map to_be16 chunks) @ delta_bytes;
          buf = pad_to total_len buf;
          pad_count = total_len - (4 + body_len)
      in if need_padding \<and> pad_count > 0 then butlast buf @ [of_nat pad_count] else buf)"

definition build_twcc_feedback ::
  "twcc_recorder \<Rightarrow> u32 \<Rightarrow> (bytes option \<times> twcc_recorder) option" where
  "build_twcc_feedback r media_ssrc =
     (if \<not> started r \<or> pending_count r = 0 then Some (None, r)
      else case base_time r of
        None \<Rightarrow> Some (None, r)
      | Some base \<Rightarrow>
          (let base_seq = pending_base_seq r;
               status_count = pending_count r
           in if status_count > of_nat TWCC_RECORDER_CAPACITY
              then Some (None, advance_base r (max_seq r - 100))
              else do {
                (statuses, deltas, first) \<leftarrow> collect r base base_seq (unat status_count) None None;
                case first of
                  None \<Rightarrow> Some (None, r)
                | Some first_arrival \<Rightarrow>
                    (let first_offset_us = as_i64 (as_micros (duration_since first_arrival base));
                         first_offset_250us = tdiv first_offset_us 250;
                         reference_time_raw = tdiv first_offset_250us 256;
                         reference_time_24 = (word_of_int reference_time_raw :: u32) AND 0x00FFFFFF;
                         chunks = encode_status_chunks statuses;
                         delta_bytes = encode_recv_deltas statuses deltas;
                         fb = fb_pkt_count r;
                         r = r\<lparr>fb_pkt_count := fb_pkt_count r + 1\<rparr>;
                         buf = assemble_feedback media_ssrc base_seq status_count
                           reference_time_24 fb chunks delta_bytes;
                         r = advance_base r (base_seq + status_count)
                     in Some (Some buf, r)) }))"

section \<open>The extension parser against its format\<close>

text \<open>
  The elements of a one-byte header extension, their bytes, and the element a reader
  looks for: the first one with the identifier that has at least two bytes.
\<close>

datatype ext_elem = Pad | Elem u8 bytes

fun wf_elem :: "ext_elem \<Rightarrow> bool" where
  "wf_elem Pad = True"
| "wf_elem (Elem i d) = (0 < i \<and> i < 15 \<and> 1 \<le> length d \<and> length d \<le> 16)"

fun encode_elem :: "ext_elem \<Rightarrow> bytes" where
  "encode_elem Pad = [0]"
| "encode_elem (Elem i d) = (push_bit 4 i OR of_nat (length d - 1)) # d"

fun find_elem :: "u8 \<Rightarrow> ext_elem list \<Rightarrow> u16 option" where
  "find_elem i [] = None"
| "find_elem i (Pad # es) = find_elem i es"
| "find_elem i (Elem j d # es) =
     (if j = i \<and> 2 \<le> length d then Some (of_be16 (d ! 0) (d ! 1)) else find_elem i es)"

lemma elem_byte:
  assumes "0 < i" and "i < 15" and "n < 16"
  defines "b \<equiv> push_bit 4 i OR (of_nat n :: u8)"
  shows "b \<noteq> 0" and "drop_bit 4 b AND 0x0F = i" and "unat (b AND 0x0F) = n"
proof -
  have m: "(0x0F :: u8) = mask 4" by (simp add: mask_eq_exp_minus_1)
  obtain w where w: "w = (of_nat n :: u8)" by simp
  have uw: "unat w = n" using assms(3) by (simp add: w unat_of_nat take_bit_nat_eq_self)
  have n: "w AND mask 4 = w"
    using assms(3) uw by (intro less_mask_eq) (simp add: word_less_nat_alt)
  have i: "i AND mask 4 = i"
    using assms(2) by (intro less_mask_eq) (simp add: word_less_nat_alt)
  have nb: "bit w k \<Longrightarrow> k < 4" for k
    using n by (metis bit_and_iff bit_mask_iff)
  have ib: "bit i k \<Longrightarrow> k < 4" for k
    using i by (metis bit_and_iff bit_mask_iff)
  show b: "drop_bit 4 b AND 0x0F = i"
    unfolding m b_def w [symmetric] by (rule bit_word_eqI) (auto simp: bit_simps dest: ib nb)
  then show "b \<noteq> 0" using assms(1) by auto
  have "b AND 0x0F = w"
    unfolding m b_def w [symmetric] by (rule bit_word_eqI) (auto simp: bit_simps dest: nb)
  then show "unat (b AND 0x0F) = n" using uw by simp
qed

lemma ext_loop_encoded:
  assumes "\<forall>e \<in> set es. wf_elem e"
  shows "ext_loop (pre @ concat (map encode_elem es) @ post) i (length pre)
      (length pre + length (concat (map encode_elem es))) = Some (find_elem i es)"
  using assms
proof (induction es arbitrary: pre)
  case Nil
  then show ?case by (subst ext_loop.simps) simp
next
  case (Cons e es)
  let ?rest = "concat (map encode_elem es)"
  have IH: "ext_loop ((pre @ q) @ ?rest @ post) i (length (pre @ q)) (length (pre @ q) + length ?rest)
      = Some (find_elem i es)" for q
    using Cons.IH [of "pre @ q"] Cons.prems by simp
  show ?case
  proof (cases e)
    case Pad
    then show ?thesis using IH [of "[0]"]
      by (subst ext_loop.simps) (simp add: nth_append algebra_simps)
  next
    case (Elem j d)
    obtain m where m: "length d = Suc m" using Cons.prems Elem by (cases d) auto
    have wf: "0 < j" "j < 15" "m < 16" using Cons.prems Elem m by auto
    obtain b where enc: "encode_elem e = b # d"
      and b: "b \<noteq> 0" "drop_bit 4 b AND 0x0F = j" "unat (b AND 0x0F) = m"
      using elem_byte [OF wf] by (simp add: Elem m)
    have r: "rd16 (pre @ b # d @ ?rest @ post) (length pre + 1) = Some (of_be16 (d ! 0) (d ! 1))"
      if "1 \<le> m"
      using that m by (cases d rule: remdups_adj.cases) (simp_all add: rd16_def idx_def nth_append)
    have "j \<noteq> 15" using wf(2) by auto
    then show ?thesis using IH [of "b # d"] b r m
      unfolding list.map concat.simps enc unfolding Elem
      by (subst ext_loop.simps) (simp add: nth_append algebra_simps Let_def del: rd16_in_range)
  qed
qed

lemma ext_loop_encoded_at:
  assumes "\<forall>e \<in> set es. wf_elem e" and "n = length pre"
    and "m = n + length (concat (map encode_elem es))"
  shows "ext_loop (pre @ concat (map encode_elem es) @ post) i n m = Some (find_elem i es)"
  using ext_loop_encoded [OF assms(1)] assms(2,3) by simp

text \<open>
  The transport sequence number of a packet. For any RTP packet whose X bit is set,
  with its contributing sources, an extension block of profile 0xBEDE holding any
  well-formed sequence of padding and elements, and any payload, the parser returns the
  first two bytes of the first element with the wanted identifier (and at least two
  bytes), and nothing when there is no such element. It never reads outside the packet.
\<close>

theorem parse_twcc_seq_spec:
  assumes "length hdr = 12" and "hdr ! 0 AND 0x10 \<noteq> 0"
    and "length csrcs = 4 * unat (hdr ! 0 AND 0x0F)"
    and "\<forall>e \<in> set es. wf_elem e"
    and "length (concat (map encode_elem es)) = 4 * unat words"
  shows "parse_twcc_seq
      (hdr @ csrcs @ to_be16 0xBEDE @ to_be16 words @ concat (map encode_elem es) @ payload) i =
    Some (find_elem i es)"
proof -
  let ?ext = "concat (map encode_elem es)"
  let ?buf = "hdr @ csrcs @ to_be16 0xBEDE @ to_be16 words @ ?ext @ payload"
  let ?off = "12 + unat (hdr ! 0 AND 0x0F) * 4"
  have len: "length (hdr @ csrcs) = ?off" using assms(1,3) by simp
  have b0: "idx ?buf 0 = Some (hdr ! 0)" using assms(1) by (simp add: idx_def nth_append)
  have p: "rd16 ?buf ?off = Some 0xBEDE"
    using be16.get_at [of ?off "hdr @ csrcs" "0xBEDE" "to_be16 words @ ?ext @ payload"] len by (simp del: rd16_in_range)
  have w: "rd16 ?buf (14 + unat (hdr ! 0 AND 0x0F) * 4) = Some words"
    using be16.get_at [of "14 + unat (hdr ! 0 AND 0x0F) * 4" "hdr @ csrcs @ to_be16 0xBEDE" words "?ext @ payload"] len by (simp del: rd16_in_range)
  have "ext_loop ?buf i (?off + 4) (?off + 4 + unat words * 4) = Some (find_elem i es)"
    using ext_loop_encoded_at [OF assms(4), of "?off + 4" "hdr @ csrcs @ to_be16 0xBEDE @ to_be16 words"]
      len assms(5) by (simp add: mult.commute [of _ 4])
  then show ?thesis
    unfolding parse_twcc_seq_def b0
    using assms len by (simp add: p w config_defs Let_def del: rd16_in_range)
qed

theorem parse_twcc_seq_spec_witness:
  "parse_twcc_seq
     ([0x91, 96, 0, 1, 0, 0, 0, 0, 0, 0, 0, 1] @ [1, 2, 3, 4] @ to_be16 0xBEDE @ to_be16 2 @
      concat (map encode_elem [Elem 3 [7], Pad, Elem 6 [0x12, 0x34], Pad, Pad]) @ [9]) 6 =
   Some (find_elem 6 [Elem 3 [7], Pad, Elem 6 [0x12, 0x34], Pad, Pad])"
  by (rule parse_twcc_seq_spec) simp_all

section \<open>The recorder as a ring\<close>

definition wf_recorder :: "twcc_recorder \<Rightarrow> bool" where
  "wf_recorder r \<longleftrightarrow>
     capacity r = TWCC_RECORDER_CAPACITY \<and> length (arrivals r) = TWCC_RECORDER_CAPACITY"

definition arrival_at :: "twcc_recorder \<Rightarrow> u16 \<Rightarrow> nat option option" where
  "arrival_at r s = map_option (map_option ae_arrival) (twcc_get r s)"

lemma wf_twcc_new [simp]: "wf_recorder twcc_new"
  by (simp add: wf_recorder_def twcc_new_def)

lemma ring_index_eq: "wf_recorder r \<Longrightarrow> ring_index r s = Some (unat s mod TWCC_RECORDER_CAPACITY)"
  by (simp add: ring_index_def wf_recorder_def config_defs)

lemma slot_in_range: "wf_recorder r \<Longrightarrow> unat s mod TWCC_RECORDER_CAPACITY < length (arrivals r)"
  by (simp add: wf_recorder_def config_defs)

lemma twcc_get_eq:
  assumes "wf_recorder r"
  shows "twcc_get r s = Some (case arrivals r ! (unat s mod TWCC_RECORDER_CAPACITY) of
      Some e \<Rightarrow> if ae_seq e = s then Some e else None | None \<Rightarrow> None)"
  using slot_in_range [OF assms, of s] by (simp add: twcc_get_def ring_index_eq [OF assms])

lemma twcc_record_eq:
  assumes "wf_recorder r"
  shows "\<exists>r'. twcc_record r s t = Some r' \<and> wf_recorder r' \<and>
    arrivals r' = (arrivals r)[unat s mod TWCC_RECORDER_CAPACITY := Some \<lparr>ae_seq = s, ae_arrival = t\<rparr>]"
  using slot_in_range [OF assms, of s] assms
  by (simp add: twcc_record_def ring_index_eq Let_def wf_recorder_def)

interpretation tw: seq_ring twcc_record arrival_at wf_recorder "\<lambda>s x. True" TWCC_RECORDER_CAPACITY
proof unfold_locales
  fix r s x r' t
  show "wf_recorder r \<Longrightarrow> \<exists>r'. twcc_record r s x = Some r' \<and> wf_recorder r'"
    using twcc_record_eq by blast
  assume r: "wf_recorder r" "twcc_record r s x = Some r'"
  then have r': "wf_recorder r'" and
    a: "arrivals r' = (arrivals r)[unat s mod TWCC_RECORDER_CAPACITY := Some \<lparr>ae_seq = s, ae_arrival = x\<rparr>]"
    using twcc_record_eq [of r s x] by auto
  note eqs = arrival_at_def twcc_get_eq [OF r'] twcc_get_eq [OF r(1)] a
  show "arrival_at r' s = Some (Some x)"
    using slot_in_range [OF r(1), of s] by (simp add: eqs)
  show "t \<noteq> s \<Longrightarrow> unat t mod TWCC_RECORDER_CAPACITY = unat s mod TWCC_RECORDER_CAPACITY \<Longrightarrow>
      arrival_at r' t = Some None"
    using slot_in_range [OF r(1), of s] by (auto simp: eqs)
  show "unat t mod TWCC_RECORDER_CAPACITY \<noteq> unat s mod TWCC_RECORDER_CAPACITY \<Longrightarrow>
      arrival_at r' t = arrival_at r t"
    by (simp add: eqs)
qed

text \<open>
  The recorder keeps the last \<open>8192\<close> numbers. Recording the arrival times of at most
  \<open>8192\<close> consecutive transport numbers, from any number (wrapping at \<open>2 ^ 16\<close>) and in any
  well-formed recorder, never panics, and afterwards each of them is looked up with its
  own arrival time.
\<close>

theorem recorder_window:
  assumes "wf_recorder r" and "length ts \<le> TWCC_RECORDER_CAPACITY" and "i < length ts"
  shows "\<exists>r'. tw.put_all r (map (\<lambda>i. (s + of_nat i, ts ! i)) [0..<length ts]) = Some r' \<and>
              arrival_at r' (s + of_nat i) = Some (Some (ts ! i))"
  by (rule tw.recent) (use assms in \<open>simp_all add: config_defs\<close>)

theorem recorder_window_witness:
  "wf_recorder twcc_new \<and>
   (\<exists>r'. tw.put_all twcc_new (map (\<lambda>i. (65535 + of_nat i, [100, 200, 350] ! i)) [0..<length [100, 200, 350 :: nat]]) = Some r' \<and>
      arrival_at r' (65535 + of_nat 1) = Some (Some ([100, 200, 350] ! 1)))"
  using recorder_window [of twcc_new "[100, 200, 350]" 1 65535] by (simp add: config_defs)

section \<open>Decoding what the feedback builder encodes\<close>

definition decode_symbol :: "u16 \<Rightarrow> packet_status" where
  "decode_symbol w = (if w = 1 then SmallDelta else if w = 2 then LargeDelta else NotReceived)"

text \<open>A two-bit status vector chunk as a receiver reads it.\<close>

definition decode_chunk :: "u16 \<Rightarrow> packet_status list" where
  "decode_chunk c = map (\<lambda>slot. decode_symbol (drop_bit (12 - slot * 2) c AND 3)) [0..<7]"

lemma decode_status_bits [simp]: "decode_symbol (status_bits s) = s"
  by (cases s) (simp_all add: decode_symbol_def)

lemma status_bits_bound: "bit (status_bits s) n \<Longrightarrow> n < 2"
proof -
  assume "bit (status_bits s) n"
  moreover have "status_bits s AND mask 2 = status_bits s"
    by (cases s) (simp_all add: mask_eq_exp_minus_1)
  ultimately show "n < 2" by (metis bit_and_iff bit_mask_iff)
qed

lemma bit_foldl_or:
  fixes c :: u16
  shows "bit (foldl (\<lambda>c k. c OR push_bit (p k) (f k)) c ks) n \<longleftrightarrow>
    bit c n \<or> n < 16 \<and> (\<exists>k \<in> set ks. p k \<le> n \<and> bit (f k) (n - p k))"
  by (induction ks arbitrary: c) (auto simp: bit_simps)

lemma status_chunk_symbol:
  assumes slot: "slot < 7"
  shows "drop_bit (12 - slot * 2) (status_chunk sts) AND 3 =
    status_bits (if slot < length sts then sts ! slot else NotReceived)"
proof (rule bit_word_eqI)
  fix n assume "n < LENGTH(16)"
  let ?f = "\<lambda>k. status_bits (if k < length sts then sts ! k else NotReceived)"
  have three: "(3 :: u16) = mask 2" and top: "(0xC000 :: u16) = push_bit 14 (mask 2)"
    by (simp_all add: mask_eq_exp_minus_1)
  have b: "bit (?f k) m \<Longrightarrow> m < 2" for k m by (rule status_bits_bound)
  let ?n = "12 - slot * 2 + n"
  have same: "k = slot" if "n < 2" "k < 7" "12 - k * 2 \<le> ?n" "?n - (12 - k * 2) < 2" for k
    using that slot by linarith
  have "bit (drop_bit (12 - slot * 2) (status_chunk sts) AND 3) n \<longleftrightarrow>
      n < 2 \<and> bit (status_chunk sts) ?n"
    by (auto simp: three bit_simps)
  also have "\<dots> \<longleftrightarrow> n < 2 \<and> (\<exists>k \<in> set [0..<7]. 12 - k * 2 \<le> ?n \<and> bit (?f k) (?n - (12 - k * 2)))"
    using slot unfolding status_chunk_def top bit_foldl_or by (auto simp: bit_simps)
  also have "\<dots> \<longleftrightarrow> bit (?f slot) n"
  proof
    assume "n < 2 \<and> (\<exists>k \<in> set [0..<7]. 12 - k * 2 \<le> ?n \<and> bit (?f k) (?n - (12 - k * 2)))"
    then obtain k where k: "n < 2" "k < 7" "12 - k * 2 \<le> ?n" "bit (?f k) (?n - (12 - k * 2))"
      by (auto simp only: set_upt atLeastLessThan_iff)
    then have ks: "k = slot" using same b [OF k(4)] by blast
    show "bit (?f slot) n" using k(4) unfolding ks by (simp only: diff_add_inverse)
  next
    assume n: "bit (?f slot) n"
    moreover have "12 - slot * 2 \<le> ?n \<and> ?n - (12 - slot * 2) = n" by simp
    moreover have "slot \<in> set [0..<7]" using slot by simp
    ultimately show "n < 2 \<and> (\<exists>k \<in> set [0..<7]. 12 - k * 2 \<le> ?n \<and> bit (?f k) (?n - (12 - k * 2)))"
      using b [OF n] by metis
  qed
  finally show "bit (drop_bit (12 - slot * 2) (status_chunk sts) AND 3) n \<longleftrightarrow> bit (?f slot) n" .
qed

lemma decode_status_chunk:
  assumes "length sts \<le> 7"
  shows "decode_chunk (status_chunk sts) = sts @ replicate (7 - length sts) NotReceived"
proof (rule nth_equalityI)
  fix i assume "i < length (decode_chunk (status_chunk sts))"
  then have "i < 7" by (simp add: decode_chunk_def)
  then show "decode_chunk (status_chunk sts) ! i = (sts @ replicate (7 - length sts) NotReceived) ! i"
    using status_chunk_symbol [of i sts] by (simp add: decode_chunk_def nth_append)
qed (use assms in \<open>simp add: decode_chunk_def\<close>)

lemma length_encode_status_chunks: "length (encode_status_chunks sts) = (length sts + 6) div 7"
proof (induction sts rule: encode_status_chunks.induct)
  case (1 sts)
  show ?case
  proof (cases "sts = []")
    case True
    then show ?thesis by (simp add: encode_status_chunks.simps)
  next
    case False
    then have "length (encode_status_chunks sts) = Suc ((length sts - 7 + 6) div 7)"
      using 1 by (subst encode_status_chunks.simps) simp
    moreover have "1 \<le> length sts" using False by (cases sts) auto
    ultimately show ?thesis by (cases "length sts \<le> 7") (auto simp: div_eq_0_iff div_if)
  qed
qed

lemma decode_status_chunks:
  "\<exists>n. concat (map decode_chunk (encode_status_chunks sts)) = sts @ replicate n NotReceived"
proof (induction sts rule: encode_status_chunks.induct)
  case (1 sts)
  show ?case
  proof (cases "length sts \<le> 7")
    case True
    then show ?thesis
      by (cases "sts = []") (subst encode_status_chunks.simps,
        simp add: decode_status_chunk encode_status_chunks.simps [of "[]"])+
  next
    case False
    then have ne: "sts \<noteq> []" by auto
    then obtain n where "concat (map decode_chunk (encode_status_chunks (drop 7 sts))) =
        drop 7 sts @ replicate n NotReceived" using 1 by blast
    moreover have "decode_chunk (status_chunk (take 7 sts)) = take 7 sts"
      using False decode_status_chunk [of "take 7 sts"] by simp
    ultimately show ?thesis using ne
      by (subst encode_status_chunks.simps) (auto simp flip: append_assoc)
  qed
qed

text \<open>The signed deltas, one per packet, nothing for a lost one.\<close>

fun decode_deltas :: "packet_status list \<Rightarrow> bytes \<Rightarrow> int option list option" where
  "decode_deltas [] bs = Some []"
| "decode_deltas (NotReceived # sts) bs = map_option ((#) None) (decode_deltas sts bs)"
| "decode_deltas (SmallDelta # sts) (b # bs) =
     map_option ((#) (Some (uint b))) (decode_deltas sts bs)"
| "decode_deltas (LargeDelta # sts) (a # b # bs) =
     map_option ((#) (Some (sint (of_be16 a b)))) (decode_deltas sts bs)"
| "decode_deltas _ _ = None"

definition trace_status :: "int option \<Rightarrow> packet_status" where
  "trace_status d = (case d of None \<Rightarrow> NotReceived | Some d \<Rightarrow> delta_status d)"

lemma decode_encode_deltas:
  "decode_deltas (map trace_status tr)
     (encode_recv_deltas (map trace_status tr) (List.map_filter id tr) @ rest) =
   Some (map (map_option (clamp (- 8192) 8191)) tr)"
proof (induction tr)
  case Nil
  then show ?case by (simp add: map_filter_def)
next
  case (Cons d tr)
  show ?case
  proof (cases d)
    case None
    then show ?thesis using Cons by (simp add: trace_status_def map_filter_def)
  next
    case (Some e)
    show ?thesis
    proof (cases "0 \<le> e \<and> e \<le> 255")
      case True
      then have "uint (word_of_int (clamp 0 255 e) :: u8) = e"
        by (simp add: clamp_def uint_word_of_int)
      then show ?thesis using True Some Cons
        by (simp add: trace_status_def map_filter_def delta_status_def clamp_def)
    next
      case False
      let ?c = "clamp (- 8192) 8191 e"
      obtain a b where ab: "to_be16 (word_of_int ?c) = [a, b]" by (simp add: to_be16_def)
      then have "of_be16 a b = word_of_int ?c"
        using of_be16_to_be16 [of "word_of_int ?c"] by (simp add: to_be16_def)
      moreover have "sint (word_of_int ?c :: u16) = ?c"
        by (simp add: clamp_def sint_sbintrunc' signed_take_bit_int_eq_self)
      moreover have "trace_status d = LargeDelta"
        using False Some by (auto simp: trace_status_def delta_status_def)
      ultimately show ?thesis using Some Cons ab
        by (simp add: map_filter_def)
    qed
  qed
qed

text \<open>
  What the collecting loop computes, as a function of the arrival times it finds: the
  delta of every received packet to the one before it.
\<close>

fun delta_trace :: "nat \<Rightarrow> nat option \<Rightarrow> nat option list \<Rightarrow> int option list" where
  "delta_trace t0 prev [] = []"
| "delta_trace t0 prev (None # as) = None # delta_trace t0 prev as"
| "delta_trace t0 prev (Some a # as) =
     Some (arrival_delta t0 prev a) # delta_trace t0 (Some a) as"

definition pending_arrivals :: "twcc_recorder \<Rightarrow> u16 \<Rightarrow> nat \<Rightarrow> nat option list" where
  "pending_arrivals r s n = map (\<lambda>i. the (arrival_at r (s + of_nat i))) [0..<n]"

lemma length_delta_trace [simp]: "length (delta_trace t0 prev as) = length as"
  by (induction t0 prev as rule: delta_trace.induct) simp_all

lemma pending_arrivals_Suc:
  "pending_arrivals r s (Suc n) = the (arrival_at r s) # pending_arrivals r (s + 1) n"
  by (simp add: pending_arrivals_def map_upt_Suc algebra_simps del: upt_Suc)

fun first_some :: "'a option list \<Rightarrow> 'a option" where
  "first_some [] = None"
| "first_some (Some a # as) = Some a"
| "first_some (None # as) = first_some as"

lemma collect_eq:
  assumes "wf_recorder r"
  shows "collect r t0 s n first prev =
    (let tr = delta_trace t0 prev (pending_arrivals r s n)
     in Some (map trace_status tr, List.map_filter id tr,
              if first = None then first_some (pending_arrivals r s n) else first))"
proof (induction n arbitrary: s first prev)
  case 0
  then show ?case by (simp add: pending_arrivals_def map_filter_def)
next
  case (Suc n)
  obtain e where e: "twcc_get r s = Some e" by (simp add: twcc_get_eq [OF assms])
  then have a: "arrival_at r s = Some (map_option ae_arrival e)"
    by (simp add: arrival_at_def)
  show ?case
    by (cases e) (simp_all add: e a Suc.IH pending_arrivals_Suc trace_status_def map_filter_def Let_def)
qed

lemma first_some_None_iff: "first_some as = None \<longleftrightarrow> set as \<subseteq> {None}"
  by (induction as rule: first_some.induct) auto

text \<open>A feedback packet as a receiver reads it.\<close>

record feedback =
  f_media_ssrc :: u32
  f_base_seq :: u16
  f_count :: u16
  f_ref_time :: u32
  f_fb_count :: u8
  f_deltas :: "int option list"

definition decode_feedback :: "bytes \<Rightarrow> feedback option" where
  "decode_feedback buf = do {
     b0 \<leftarrow> idx buf 0;
     pt \<leftarrow> idx buf 1;
     media \<leftarrow> rd32 buf 8;
     base \<leftarrow> rd16 buf 12;
     n \<leftarrow> rd16 buf 14;
     ref \<leftarrow> rd32 buf 16;
     let chunks = (unat n + 6) div 7;
     if b0 AND 0xDF \<noteq> 0x8F \<or> pt \<noteq> RTCP_PT_RTPFB \<or> length buf < 20 + 2 * chunks then None
     else do {
       let sts = take (unat n) (concat (map (\<lambda>k. decode_chunk (the (rd16 buf (20 + 2 * k)))) [0..<chunks]));
       ds \<leftarrow> decode_deltas sts (drop (20 + 2 * chunks) buf);
       Some \<lparr>f_media_ssrc = media, f_base_seq = base, f_count = n, f_ref_time = drop_bit 8 ref,
             f_fb_count = ucast ref, f_deltas = ds\<rparr> } }"

text \<open>The packet without its trailing zero bytes.\<close>

definition feedback_body ::
  "bool \<Rightarrow> nat \<Rightarrow> u32 \<Rightarrow> u16 \<Rightarrow> u16 \<Rightarrow> u32 \<Rightarrow> u8 \<Rightarrow> u16 list \<Rightarrow> bytes \<Rightarrow> bytes" where
  "feedback_body padded words media base n ref fb chunks deltas =
     [if padded then 0xAF else 0x8F, RTCP_PT_RTPFB] @ to_be16 (of_nat words)
     @ to_be32 1 @ to_be32 media @ to_be16 base @ to_be16 n
     @ [ucast (drop_bit 16 ref AND 0xFF), ucast (drop_bit 8 ref AND 0xFF), ucast (ref AND 0xFF), fb]
     @ concat (map to_be16 chunks) @ deltas"

lemma length_concat_be16 [simp]: "length (concat (map to_be16 cs)) = 2 * length cs"
  by (induction cs) simp_all

definition feedback_tail :: "nat \<Rightarrow> bytes" where
  "feedback_tail need =
     (if align4 need \<noteq> need then replicate (align4 need - need + 3) 0 @ [of_nat (align4 need - need)]
      else replicate 4 0)"

lemma length_feedback_tail [simp]: "length (feedback_tail need) = align4 need - need + 4"
  by (simp add: feedback_tail_def)

lemma assemble_feedback_eq:
  fixes chunks :: "u16 list" and deltas :: bytes
  defines "need \<equiv> 20 + 2 * length chunks + length deltas"
  shows "assemble_feedback media base n ref fb chunks deltas =
    feedback_body (align4 need \<noteq> need) (align4 need div 4) media base n ref fb chunks deltas @ feedback_tail need"
proof -
  let ?b = "feedback_body (align4 need \<noteq> need) (align4 need div 4) media base n ref fb chunks deltas"
  have body: "12 + (8 + length chunks * 2 + length deltas) = need" by (simp add: need_def)
  have len: "length ?b = need" by (simp add: feedback_body_def need_def)
  have need: "need < align4 need \<longleftrightarrow> align4 need \<noteq> need" using align4_ge [of need] by auto
  have pad: "pad_to (4 + align4 need) ?b = ?b @ replicate (Suc (align4 need - need + 3)) 0"
    using align4_ge [of need] by (simp add: pad_to_def len flip: replicate_Suc)
  have "assemble_feedback media base n ref fb chunks deltas =
      (if align4 need \<noteq> need \<and> 4 + align4 need - (4 + need) > 0
       then butlast (pad_to (4 + align4 need) ?b) @ [of_nat (4 + align4 need - (4 + need))]
       else pad_to (4 + align4 need) ?b)"
    unfolding assemble_feedback_def Let_def body need by (simp add: feedback_body_def)
  moreover have "butlast (?b @ replicate (Suc k) 0) = ?b @ replicate k 0" for k
    by (simp add: butlast_append del: replicate_Suc) (simp add: replicate_append_same [symmetric])
  moreover have "replicate (Suc (0 + 3)) 0 = replicate 4 (0 :: u8)" by (simp add: numeral_eq_Suc)
  ultimately show ?thesis
    unfolding pad using need
    by (cases "align4 need = need") (simp_all only: feedback_tail_def diff_self_eq_0 refl simp_thms if_True if_False,
        simp_all add: not_less del: replicate_Suc)
qed

lemma rd16_concat:
  assumes "k < length cs" and "n = length pre + 2 * k"
  shows "rd16 (pre @ concat (map to_be16 cs) @ post) n = Some (cs ! k)"
proof -
  have "cs = take k cs @ cs ! k # drop (Suc k) cs" using assms(1) by (rule id_take_nth_drop)
  then have "concat (map to_be16 cs) =
      concat (map to_be16 (take k cs)) @ to_be16 (cs ! k) @ concat (map to_be16 (drop (Suc k) cs))"
    by (metis concat.simps(2) concat_append list.simps(9) map_append)
  moreover have "length (concat (map to_be16 (take k cs))) = 2 * k" using assms(1) by simp
  ultimately show ?thesis
    using be16.get_at [of n "pre @ concat (map to_be16 (take k cs))" "cs ! k"] assms(2) by simp
qed

lemma ref_time_fields:
  fixes ref :: u32 and fb :: u8
  defines "w \<equiv> of_be32 (ucast (drop_bit 16 ref AND 0xFF)) (ucast (drop_bit 8 ref AND 0xFF)) (ucast (ref AND 0xFF)) fb"
  shows "drop_bit 8 w = ref AND 0x00FFFFFF" and "ucast w = fb"
proof -
  have ff: "(0xFF :: u32) = mask 8" and ffffff: "(0x00FFFFFF :: u32) = mask 24"
    by (simp_all add: mask_eq_exp_minus_1)
  show "ucast w = fb" unfolding w_def of_be32_def
    by (rule bit_word_eqI) (auto simp: bit_simps)
  show "drop_bit 8 w = ref AND 0x00FFFFFF"
  proof (rule bit_word_eqI)
    fix n assume "n < LENGTH(32)"
    then consider "n < 8" | "8 \<le> n \<and> n < 16" | "16 \<le> n \<and> n < 24" | "24 \<le> n \<and> n < 32"
      by fastforce
    moreover have "\<not> bit fb (8 + n)" using bit_imp_le_length [of fb "8 + n"] by auto
    ultimately show "bit (drop_bit 8 w) n \<longleftrightarrow> bit (ref AND 0x00FFFFFF) n"
      by cases (auto simp: w_def of_be32_def ff ffffff bit_simps)
  qed
qed

lemma decode_feedback_body:
  fixes tr :: "int option list"
  defines "chunks \<equiv> encode_status_chunks (map trace_status tr)"
    and "deltas \<equiv> encode_recv_deltas (map trace_status tr) (List.map_filter id tr)"
  assumes n: "unat n = length tr"
  shows "decode_feedback (feedback_body padded words media base n ref fb chunks deltas @ tail) =
    Some \<lparr>f_media_ssrc = media, f_base_seq = base, f_count = n, f_ref_time = ref AND 0x00FFFFFF,
          f_fb_count = fb, f_deltas = map (map_option (clamp (- 8192) 8191)) tr\<rparr>"
proof -
  let ?refb = "[ucast (drop_bit 16 ref AND 0xFF), ucast (drop_bit 8 ref AND 0xFF), ucast (ref AND 0xFF), fb]"
  let ?h = "[if padded then 0xAF else 0x8F, RTCP_PT_RTPFB] @ to_be16 (of_nat words) @ to_be32 1"
  let ?pre = "?h @ to_be32 media @ to_be16 base @ to_be16 n @ ?refb"
  let ?buf = "feedback_body padded words media base n ref fb chunks deltas @ tail"
  have buf: "?buf = ?pre @ concat (map to_be16 chunks) @ deltas @ tail"
    by (simp add: feedback_body_def)
  have media: "rd32 ?buf 8 = Some media"
    using be32.get_at [of 8 ?h media "to_be16 base @ to_be16 n @ ?refb @ concat (map to_be16 chunks) @ deltas @ tail"]
    by (simp add: buf)
  have base: "rd16 ?buf 12 = Some base"
    using be16.get_at [of 12 "?h @ to_be32 media" base "to_be16 n @ ?refb @ concat (map to_be16 chunks) @ deltas @ tail"]
    by (simp add: buf)
  have cnt: "rd16 ?buf 14 = Some n"
    using be16.get_at [of 14 "?h @ to_be32 media @ to_be16 base" n "?refb @ concat (map to_be16 chunks) @ deltas @ tail"]
    by (simp add: buf)
  have reft: "rd32 ?buf 16 = Some (of_be32 (?refb ! 0) (?refb ! 1) (?refb ! 2) (?refb ! 3))"
    by (simp add: buf rd32_def idx_def to_be16_def to_be32_def)
  have b01: "idx ?buf 0 = Some (if padded then 0xAF else 0x8F)" "idx ?buf 1 = Some RTCP_PT_RTPFB"
    by (simp_all add: buf idx_def)
  have lc: "length chunks = (unat n + 6) div 7"
    by (simp add: chunks_def length_encode_status_chunks n)
  have "map (\<lambda>k. decode_chunk (the (rd16 ?buf (20 + 2 * k)))) [0..<length chunks] = map decode_chunk chunks"
    using rd16_concat [of _ chunks _ ?pre "deltas @ tail"]
    by (intro nth_equalityI) (simp_all add: buf del: rd16_in_range)
  then have sts: "take (unat n) (concat (map (\<lambda>k. decode_chunk (the (rd16 ?buf (20 + 2 * k)))) [0..<length chunks]))
      = map trace_status tr"
    using decode_status_chunks [of "map trace_status tr"] n by (auto simp: chunks_def)
  have len: "20 + 2 * length chunks \<le> length ?buf" by (simp add: feedback_body_def)
  have drp: "drop (20 + 2 * length chunks) ?buf = deltas @ tail"
  proof -
    have "20 + 2 * length chunks = length (?pre @ concat (map to_be16 chunks))" by simp
    moreover have "?buf = (?pre @ concat (map to_be16 chunks)) @ deltas @ tail" by (simp only: buf append_assoc)
    ultimately show ?thesis by (metis append_eq_conv_conj)
  qed
  have ds: "decode_deltas (map trace_status tr) (deltas @ tail) = Some (map (map_option (clamp (- 8192) 8191)) tr)"
    unfolding deltas_def by (rule decode_encode_deltas)
  obtain B where B: "B = ?buf" by simp
  have "decode_feedback B = Some \<lparr>f_media_ssrc = media, f_base_seq = base, f_count = n,
      f_ref_time = ref AND 0x00FFFFFF, f_fb_count = fb,
      f_deltas = map (map_option (clamp (- 8192) 8191)) tr\<rparr>"
    unfolding decode_feedback_def
    using media base cnt reft b01 len sts drp ds
    by (simp add: ref_time_fields Let_def flip: lc B del: rd16_in_range rd32_in_range idx_in_range)
  then show ?thesis by (simp only: B)
qed

lemma build_cases [consumes 1]:
  assumes wf: "wf_recorder r"
  obtains
    (idle) "build_twcc_feedback r ssrc = Some (None, r)"
  | (overrun) "build_twcc_feedback r ssrc = Some (None, advance_base r (max_seq r - 100))"
      "started r" "of_nat TWCC_RECORDER_CAPACITY < pending_count r"
  | (sent) t0 fa buf where "started r" "base_time r = Some t0"
      "first_some (pending_arrivals r (pending_base_seq r) (unat (pending_count r))) = Some fa"
      "buf = assemble_feedback ssrc (pending_base_seq r) (pending_count r)
         (word_of_int (tdiv (tdiv (as_i64 (as_micros (duration_since fa t0))) 250) 256) AND 0x00FFFFFF)
         (fb_pkt_count r)
         (encode_status_chunks (map trace_status
           (delta_trace t0 None (pending_arrivals r (pending_base_seq r) (unat (pending_count r))))))
         (encode_recv_deltas (map trace_status
             (delta_trace t0 None (pending_arrivals r (pending_base_seq r) (unat (pending_count r)))))
           (List.map_filter id
             (delta_trace t0 None (pending_arrivals r (pending_base_seq r) (unat (pending_count r))))))"
      "build_twcc_feedback r ssrc =
         Some (Some buf, advance_base (r\<lparr>fb_pkt_count := fb_pkt_count r + 1\<rparr>)
           (pending_base_seq r + pending_count r))"
      "0 < pending_count r" "pending_count r \<le> of_nat TWCC_RECORDER_CAPACITY"
proof (cases "\<not> started r \<or> pending_count r = 0 \<or> base_time r = None")
  case True
  then show ?thesis by (intro idle) (auto simp: build_twcc_feedback_def)
next
  case False
  then obtain t0 where t0: "started r" "pending_count r \<noteq> 0" "base_time r = Some t0" by auto
  show ?thesis
  proof (cases "of_nat TWCC_RECORDER_CAPACITY < pending_count r")
    case True
    then show ?thesis using t0 by (intro overrun) (simp_all add: build_twcc_feedback_def)
  next
    case ok: False
    show ?thesis
    proof (cases "first_some (pending_arrivals r (pending_base_seq r) (unat (pending_count r)))")
      case None
      then show ?thesis using t0 ok
        by (intro idle) (simp add: build_twcc_feedback_def collect_eq [OF wf] Let_def)
    next
      case (Some fa)
      show ?thesis
        by (rule sent [OF t0(1,3) Some refl])
          (use t0 ok Some in \<open>simp_all add: build_twcc_feedback_def collect_eq [OF wf] Let_def word_gt_0 not_less\<close>)
    qed
  qed
qed

text \<open>
  C39: the congestion feedback. Building a feedback packet from a well-formed recorder
  never panics. If a packet is built, the publisher's decoder reads back the media SSRC,
  the first pending number, the number of pending packets, the feedback counter, the
  24-bit reference time, and for every pending packet in order nothing if it has not
  arrived and otherwise the delta of its arrival to the one before, limited to 8192
  ticks; and the recorder moves on, so that nothing is pending any more. If no packet is
  built, either the recorder is unchanged or more than \<open>8192\<close> packets were pending and
  the base jumps to \<open>100\<close> before the highest number.
\<close>

theorem twcc_feedback_spec:
  assumes wf: "wf_recorder r"
  shows "case build_twcc_feedback r ssrc of
      None \<Rightarrow> False
    | Some (None, r') \<Rightarrow>
        r' = r \<or> (of_nat TWCC_RECORDER_CAPACITY < pending_count r \<and> r' = advance_base r (max_seq r - 100))
    | Some (Some buf, r') \<Rightarrow>
        (\<exists>t0 fa. base_time r = Some t0 \<and>
           first_some (pending_arrivals r (pending_base_seq r) (unat (pending_count r))) = Some fa \<and>
           decode_feedback buf = Some
             \<lparr>f_media_ssrc = ssrc, f_base_seq = pending_base_seq r, f_count = pending_count r,
              f_ref_time = word_of_int (tdiv (tdiv (as_i64 (as_micros (duration_since fa t0))) 250) 256) AND 0x00FFFFFF,
              f_fb_count = fb_pkt_count r,
              f_deltas = map (map_option (clamp (- 8192) 8191))
                (delta_trace t0 None (pending_arrivals r (pending_base_seq r) (unat (pending_count r))))\<rparr>) \<and>
        pending_count r' = 0 \<and> fb_pkt_count r' = fb_pkt_count r + 1 \<and> arrivals r' = arrivals r"
  using wf
proof (cases rule: build_cases [where ssrc = ssrc])
  case (sent t0 fa buf)
  let ?tr = "delta_trace t0 None (pending_arrivals r (pending_base_seq r) (unat (pending_count r)))"
  have "unat (pending_count r) = length ?tr" by (simp add: pending_arrivals_def)
  then have "decode_feedback buf = Some
             \<lparr>f_media_ssrc = ssrc, f_base_seq = pending_base_seq r, f_count = pending_count r,
              f_ref_time = (word_of_int (tdiv (tdiv (as_i64 (as_micros (duration_since fa t0))) 250) 256) AND 0x00FFFFFF) AND 0x00FFFFFF,
              f_fb_count = fb_pkt_count r, f_deltas = map (map_option (clamp (- 8192) 8191)) ?tr\<rparr>"
    unfolding sent(4) using assemble_feedback_eq decode_feedback_body by metis
  then show ?thesis
    using sent(1,2,3) unfolding sent(5)
    by (simp add: and.assoc) (simp add: pending_count_def advance_base_def algebra_simps)
qed simp_all

text \<open>
  The bytes a feedback with given deltas needs: a byte for a small delta, two for
  another, two for every seven packets, and twenty for the fixed fields.
\<close>

definition content_size :: "int option list \<Rightarrow> nat" where
  "content_size ds = 20 + 2 * ((length ds + 6) div 7) +
     sum_list (map (\<lambda>d. case d of None \<Rightarrow> 0 | Some d \<Rightarrow> if 0 \<le> d \<and> d \<le> 255 then 1 else 2) ds)"

lemma length_encode_recv_deltas:
  "length (encode_recv_deltas (map trace_status tr) (List.map_filter id tr)) =
   sum_list (map (\<lambda>d. case d of None \<Rightarrow> 0 | Some d \<Rightarrow> if 0 \<le> d \<and> d \<le> 255 then 1 else 2)
     (map (map_option (clamp (- 8192) 8191)) tr))"
proof (induction tr)
  case (Cons d tr)
  have "0 \<le> clamp (- 8192) 8191 e \<and> clamp (- 8192) 8191 e \<le> 255 \<longleftrightarrow> 0 \<le> e \<and> e \<le> 255" for e
    by (auto simp: clamp_def)
  then show ?case using Cons
    by (cases d) (auto simp: trace_status_def delta_status_def map_filter_def simp del: of_nat_le_iff)
qed (simp add: map_filter_def)

lemma content_size_bound: "content_size ds \<le> 20 + 2 * ((length ds + 6) div 7) + 2 * length ds"
proof -
  have "sum_list (map (\<lambda>d. case d of None \<Rightarrow> 0 | Some d \<Rightarrow> if 0 \<le> d \<and> d \<le> 255 then 1 else 2) ds)
      \<le> 2 * length (ds :: int option list)"
    by (induction ds) (auto split: option.splits)
  then show ?thesis by (simp add: content_size_def)
qed

text \<open>
  Size of the feedback. The length field of a feedback packet counts its 32-bit words
  minus one and the packet is a whole number of words, at most \<open>18752\<close> bytes. It is always
  exactly four bytes longer than the aligned size of its contents, and the padding count
  in its last byte does not include these four bytes.
\<close>

theorem twcc_feedback_size:
  assumes wf: "wf_recorder r" and b: "build_twcc_feedback r ssrc = Some (Some buf, r')"
  shows "\<exists>w fb. rd16 buf 2 = Some w \<and> 4 * (unat w + 1) = length buf \<and> length buf \<le> 18752 \<and>
    decode_feedback buf = Some fb \<and>
    length buf = align4 (content_size (f_deltas fb)) + 4 \<and>
    (align4 (content_size (f_deltas fb)) \<noteq> content_size (f_deltas fb) \<longrightarrow>
       last buf = of_nat (align4 (content_size (f_deltas fb)) - content_size (f_deltas fb)))"
  using wf
proof (cases rule: build_cases [where ssrc = ssrc])
  case (sent t0 fa buf')
  let ?tr = "delta_trace t0 None (pending_arrivals r (pending_base_seq r) (unat (pending_count r)))"
  let ?ds = "map (map_option (clamp (- 8192) 8191)) ?tr"
  let ?chunks = "encode_status_chunks (map trace_status ?tr)"
  let ?deltas = "encode_recv_deltas (map trace_status ?tr) (List.map_filter id ?tr)"
  define need where "need = 20 + 2 * length ?chunks + length ?deltas"
  have n: "unat (pending_count r) = length ?tr" by (simp add: pending_arrivals_def)
  have cs: "need = content_size ?ds"
    by (simp add: need_def content_size_def length_encode_status_chunks length_encode_recv_deltas)
  have "length ?tr \<le> 8192" using sent(7) n by (simp add: word_le_nat_alt config_defs)
  then have "need \<le> 18746" using content_size_bound [of ?ds] cs by simp
  then have bound: "align4 need \<le> 18748" unfolding align4_eq by presburger
  have "buf = buf'" using b sent(5) by simp
  then have buf: "buf = feedback_body (align4 need \<noteq> need) (align4 need div 4) ssrc (pending_base_seq r)
      (pending_count r)
      (word_of_int (tdiv (tdiv (as_i64 (as_micros (duration_since fa t0))) 250) 256) AND 0x00FFFFFF)
      (fb_pkt_count r) ?chunks ?deltas @ feedback_tail need"
    unfolding sent(4) assemble_feedback_eq need_def by simp
  obtain fb where fb: "decode_feedback buf = Some fb" "f_deltas fb = ?ds"
    unfolding buf using decode_feedback_body [OF n] by simp
  have len: "length buf = align4 need + 4"
    using align4_ge [of need] unfolding buf by (simp add: feedback_body_def need_def)
  have "rd16 buf 2 = Some (of_nat (align4 need div 4))"
    unfolding buf feedback_body_def using be16.get_at [of 2 "[_, _]"] by simp
  moreover have "unat (of_nat (align4 need div 4) :: u16) = align4 need div 4"
    using bound by (simp add: unat_of_nat take_bit_nat_eq_self)
  moreover have "4 * (align4 need div 4 + 1) = length buf"
    unfolding len by (simp add: align4_eq)
  moreover have "align4 need \<noteq> need \<longrightarrow> last buf = of_nat (align4 need - need)"
    unfolding buf by (simp add: feedback_tail_def)
  ultimately show ?thesis using fb len bound by (auto simp: cs)
qed (use b in simp_all)

text \<open>A recorder in which two packets of three have arrived.\<close>

definition demo_recorder :: twcc_recorder where
  "demo_recorder = twcc_new
     \<lparr>arrivals := (replicate TWCC_RECORDER_CAPACITY None)
        [7 := Some \<lparr>ae_seq = 7, ae_arrival = 1000000\<rparr>, 9 := Some \<lparr>ae_seq = 9, ae_arrival = 3000000\<rparr>],
      started := True, pending_base_seq := 7, max_seq := 9, rec_count := 2, base_time := Some 1000000\<rparr>"

lemma wf_demo [simp]: "wf_recorder demo_recorder"
  by (simp add: demo_recorder_def twcc_new_def wf_recorder_def)

lemma demo_fields [simp]:
  "started demo_recorder" "base_time demo_recorder = Some 1000000"
  "pending_base_seq demo_recorder = 7" "pending_count demo_recorder = 3"
  "fb_pkt_count demo_recorder = 0"
  by (simp_all add: demo_recorder_def twcc_new_def pending_count_def)

lemma demo_pending [simp]:
  "pending_arrivals demo_recorder 7 3 = [Some 1000000, None, Some 3000000]"
  by (simp add: pending_arrivals_def upt_rec arrival_at_def twcc_get_eq)
     (simp add: demo_recorder_def twcc_new_def config_defs)

lemma demo_delta [simp]: "arrival_delta 1000000 None 1000000 = 0"
  "arrival_delta 1000000 (Some 1000000) 3000000 = 8"
  by (simp_all add: arrival_delta_def as_i64_def as_micros_def duration_since_def tdiv_def
      signed_take_bit_int_eq_self)

lemma demo_build: "\<exists>buf r'. build_twcc_feedback demo_recorder 9 = Some (Some buf, r')"
  by (simp add: build_twcc_feedback_def collect_eq config_defs Let_def)

theorem twcc_feedback_spec_witness:
  "wf_recorder demo_recorder \<and>
   (case build_twcc_feedback demo_recorder 9 of
      Some (Some buf, r') \<Rightarrow> pending_count r' = 0 \<and> fb_pkt_count r' = 1 \<and>
        map_option f_deltas (decode_feedback buf) = Some [Some 0, None, Some 8]
    | _ \<Rightarrow> False)"
proof -
  obtain buf r' where b: "build_twcc_feedback demo_recorder 9 = Some (Some buf, r')"
    using demo_build by blast
  show ?thesis
    using twcc_feedback_spec [OF wf_demo, of 9] by (auto simp: b clamp_def)
qed

theorem twcc_feedback_size_witness:
  "\<exists>buf r' fb. wf_recorder demo_recorder \<and> build_twcc_feedback demo_recorder 9 = Some (Some buf, r') \<and>
     decode_feedback buf = Some fb \<and> length buf = align4 (content_size (f_deltas fb)) + 4"
  using demo_build twcc_feedback_size [OF wf_demo, of 9] wf_demo by metis

lemma as_i64_small: "n < 2 ^ 63 \<Longrightarrow> as_i64 n = int n"
  by (simp add: as_i64_def signed_take_bit_int_eq_self)

lemma tick: "n < 2 ^ 63 \<Longrightarrow> tdiv (as_i64 (as_micros n)) 250 = int (n div 250000)"
proof -
  assume "n < 2 ^ 63"
  moreover have "n div 1000 \<le> n" by simp
  ultimately have "n div 1000 < 2 ^ 63" by linarith
  then show ?thesis
    by (simp add: as_micros_def as_i64_small tdiv_def zdiv_int zdiv_zmult2_eq [symmetric])
qed

lemma tick_error:
  "q \<le> (n :: nat) \<Longrightarrow> 250000 * int ((n - q) div 250000) \<le> int n - int q \<and>
   int n - int q < 250000 * int ((n - q) div 250000) + 250000"
proof -
  assume le: "q \<le> n"
  have "250000 * ((n - q) div 250000) + (n - q) mod 250000 = n - q" by (rule mult_div_mod_eq)
  then have "250000 * int ((n - q) div 250000) + int ((n - q) mod 250000) = int n - int q"
    using le by (metis of_nat_add of_nat_diff of_nat_mult of_nat_numeral)
  moreover have "(n - q) mod 250000 < 250000" by simp
  ultimately show ?thesis by linarith
qed

text \<open>
  Accuracy of a delta. For arrival times less than \<open>2 ^ 63\<close> nanoseconds apart, a delta
  is the signed difference to the previous arrival in ticks of \<open>250\<close> microseconds, rounded
  towards zero, whichever of the two came first; the first delta of a packet is between
  \<open>0\<close> and \<open>255\<close> and completes the reference time to the tick of the first arrival.
\<close>

theorem arrival_delta_accuracy:
  assumes "a < 2 ^ 63" and "p < 2 ^ 63"
  shows "\<bar>int a - int p - 250000 * arrival_delta t0 (Some p) a\<bar> < 250000 \<and>
    \<bar>250000 * arrival_delta t0 (Some p) a\<bar> \<le> \<bar>int a - int p\<bar> \<and>
    (let d = arrival_delta t0 None a; ref = tdiv (tdiv (as_i64 (as_micros (duration_since a t0))) 250) 256
     in 0 \<le> d \<and> d \<le> 255 \<and> 256 * ref + d = int ((a - t0) div 250000))"
proof (intro conjI)
  have d: "arrival_delta t0 (Some p) a =
      (if p \<le> a then int ((a - p) div 250000) else - int ((p - a) div 250000))"
    using assms by (simp add: arrival_delta_def duration_since_def tick)
  show "\<bar>int a - int p - 250000 * arrival_delta t0 (Some p) a\<bar> < 250000"
    unfolding d using tick_error [of p a] tick_error [of a p] by (cases "p \<le> a") auto
  show "\<bar>250000 * arrival_delta t0 (Some p) a\<bar> \<le> \<bar>int a - int p\<bar>"
    unfolding d using tick_error [of p a] tick_error [of a p] by (cases "p \<le> a") auto
  have "a - t0 < 2 ^ 63" using assms by simp
  then have "tdiv (as_i64 (as_micros (duration_since a t0))) 250 = int ((a - t0) div 250000)"
    by (simp add: duration_since_def tick)
  then show "let d = arrival_delta t0 None a; ref = tdiv (tdiv (as_i64 (as_micros (duration_since a t0))) 250) 256
     in 0 \<le> d \<and> d \<le> 255 \<and> 256 * ref + d = int ((a - t0) div 250000)"
    by (simp add: arrival_delta_def Let_def tdiv_def minus_div_mult_eq_mod)
qed

theorem arrival_delta_accuracy_witness:
  "(3000000 :: nat) < 2 ^ 63 \<and> (1000000 :: nat) < 2 ^ 63 \<and>
   \<bar>int 3000000 - int 1000000 - 250000 * arrival_delta 0 (Some 1000000) 3000000\<bar> < 250000"
  using arrival_delta_accuracy [of 3000000 1000000 0] by simp

end
