(* ===== verification/Bounded_Queue.thy ===== *)
theory Bounded_Queue
  imports Prelude
begin

text \<open>
  The contract of a bounded queue with a non-blocking send, as the egress queue of a
  subscriber and the channel to a DTLS task have it: a send succeeds exactly when there is
  room, and appends; otherwise nothing changes.
\<close>

locale bounded_queue =
  fixes send :: "'a \<Rightarrow> 'q \<Rightarrow> bool \<times> 'q" and content :: "'q \<Rightarrow> 'a list" and cap :: nat
  assumes send_room: "length (content q) < cap \<Longrightarrow> fst (send x q) \<and> content (snd (send x q)) = content q @ [x]"
    and send_full: "cap \<le> length (content q) \<Longrightarrow> \<not> fst (send x q) \<and> content (snd (send x q)) = content q"
begin

definition send_all :: "'a list \<Rightarrow> 'q \<Rightarrow> 'q" where
  "send_all xs q = fold (\<lambda>x q. snd (send x q)) xs q"

text \<open>What a burst leaves behind: the oldest packets, as many as there was room for.\<close>

lemma burst: "content (send_all xs q) = content q @ take (cap - length (content q)) xs"
proof (induction xs arbitrary: q)
  case (Cons x xs)
  show ?case
  proof (cases "length (content q) < cap")
    case True
    then have "cap - length (content q) = Suc (cap - length (content (snd (send x q))))"
      using send_room [OF True] by simp
    then show ?thesis using Cons.IH [of "snd (send x q)"] send_room [OF True] by (simp add: send_all_def)
  next
    case False
    then show ?thesis using Cons.IH [of "snd (send x q)"] send_full [of q x] by (simp add: send_all_def)
  qed
qed (simp add: send_all_def)

lemma bounded: "length (content q) \<le> cap \<Longrightarrow> length (content (send_all xs q)) \<le> cap"
  by (simp add: burst)

lemma no_loss: "length (content q) + length xs \<le> cap \<Longrightarrow> content (send_all xs q) = content q @ xs"
  by (simp add: burst)

end

end
