(* ===== verification/Participant.thy ===== *)
theory Participant
  imports Srtp Rtcp Twcc Bounded_Queue
begin

text \<open>
  A participant and its two sessions (\<open>src/room/participant.rs\<close>): track registration, the
  retransmission cache, and the bounded egress queue. The receiver of the egress queue is
  held by the participant until the egress task takes it, and by that task from then on,
  so a send fails only when the queue is full.
\<close>

section \<open>Data\<close>

datatype egress_packet = Rtp bytes | Rtcp bytes

datatype pc_type = Publish | Subscribe

definition show_pc_type :: "pc_type \<Rightarrow> string" where
  "show_pc_type pc = (case pc of Publish \<Rightarrow> ''pub'' | Subscribe \<Rightarrow> ''sub'')"

datatype track_kind = Audio | Video

definition show_track_kind :: "track_kind \<Rightarrow> string" where
  "show_track_kind k = (case k of Audio \<Rightarrow> ''audio'' | Video \<Rightarrow> ''video'')"

record track =
  t_ssrc :: u32
  t_kind :: track_kind
  t_track_id :: string
  t_rtx_ssrc :: "u32 option"
  t_muted :: bool

record 'c media_session =
  ms_ufrag :: string
  ms_ice_pwd :: string
  ms_address :: "sockaddr option"
  inbound_srtp :: "'c srtp_context"
  outbound_srtp :: "'c srtp_context"

definition media_session_new :: "string \<Rightarrow> string \<Rightarrow> 'c media_session" where
  "media_session_new u p =
     \<lparr>ms_ufrag = u, ms_ice_pwd = p, ms_address = None, inbound_srtp = srtp_new, outbound_srtp = srtp_new\<rparr>"

definition latch_address :: "'c media_session \<Rightarrow> sockaddr \<Rightarrow> 'c media_session" where
  "latch_address ms addr = ms\<lparr>ms_address := Some addr\<rparr>"

definition is_media_ready :: "'c media_session \<Rightarrow> bool" where
  "is_media_ready ms \<longleftrightarrow> is_ready (inbound_srtp ms)"

definition install_srtp_keys ::
  "'c srtp_ops \<Rightarrow> 'c media_session \<Rightarrow> bytes \<Rightarrow> bytes \<Rightarrow> bytes \<Rightarrow> bytes \<Rightarrow> 'c media_session" where
  "install_srtp_keys ops ms ck cs sk ss =
     ms\<lparr>inbound_srtp := install_key ops (inbound_srtp ms) ck cs,
        outbound_srtp := install_key ops (outbound_srtp ms) sk ss\<rparr>"

section \<open>The retransmission cache\<close>

record rtp_cache =
  slots :: "bytes option list"

definition rtp_cache_new :: rtp_cache where
  "rtp_cache_new = \<lparr>slots = replicate RTP_CACHE_SIZE None\<rparr>"

definition cache_store :: "rtp_cache \<Rightarrow> u16 \<Rightarrow> bytes \<Rightarrow> rtp_cache option" where
  "cache_store c seq plaintext = do {
     let i = unat seq mod RTP_CACHE_SIZE;
     _ \<leftarrow> idx (slots c) i;
     Some (c\<lparr>slots := (slots c)[i := Some plaintext]\<rparr>) }"

definition slot_seq :: "rtp_cache \<Rightarrow> u16 \<Rightarrow> u16 option option" where
  "slot_seq c seq = do {
     slot \<leftarrow> idx (slots c) (unat seq mod RTP_CACHE_SIZE);
     case slot of
       Some pkt \<Rightarrow> if length pkt \<ge> RTP_HEADER_MIN_SIZE
         then do { s \<leftarrow> rd16 pkt 2; Some (Some s) } else Some None
     | None \<Rightarrow> Some None }"

definition cache_get :: "rtp_cache \<Rightarrow> u16 \<Rightarrow> bytes option option" where
  "cache_get c seq = do {
     slot \<leftarrow> idx (slots c) (unat seq mod RTP_CACHE_SIZE);
     case slot of
       Some pkt \<Rightarrow> if length pkt \<ge> RTP_HEADER_MIN_SIZE
         then do { cached_seq \<leftarrow> rd16 pkt 2; Some (if cached_seq = seq then Some pkt else None) }
         else Some None
     | None \<Rightarrow> Some None }"

section \<open>The participant\<close>

text \<open>The sender of the web socket is the number of its connection.\<close>

record 'c participant =
  p_user_id :: string
  p_room_id :: string
  joined_at :: u64
  last_seen :: u64
  ws_tx :: nat
  publish :: "'c media_session"
  subscribe :: "'c media_session"
  tracks :: "track list"
  p_rtp_cache :: rtp_cache
  rtx_ssrc_counter :: u32
  p_rtx_seq :: u16
  p_twcc_recorder :: twcc_recorder
  egress_queue :: "egress_packet list"
  egress_rx_taken :: bool

definition participant_new ::
  "string \<Rightarrow> string \<Rightarrow> string \<Rightarrow> string \<Rightarrow> string \<Rightarrow> string \<Rightarrow> nat \<Rightarrow> u64 \<Rightarrow> 'c participant" where
  "participant_new uid room_id pub_ufrag pub_pwd sub_ufrag sub_pwd tx joined =
     \<lparr>p_user_id = uid, p_room_id = room_id, joined_at = joined, last_seen = joined, ws_tx = tx,
      publish = media_session_new pub_ufrag pub_pwd, subscribe = media_session_new sub_ufrag sub_pwd,
      tracks = [], p_rtp_cache = rtp_cache_new, rtx_ssrc_counter = 0, p_rtx_seq = 0,
      p_twcc_recorder = twcc_new, egress_queue = [], egress_rx_taken = False\<rparr>"

definition touch :: "u64 \<Rightarrow> 'c participant \<Rightarrow> 'c participant" where
  "touch ts p = p\<lparr>last_seen := ts\<rparr>"

definition session :: "'c participant \<Rightarrow> pc_type \<Rightarrow> 'c media_session" where
  "session p pc = (case pc of Publish \<Rightarrow> publish p | Subscribe \<Rightarrow> subscribe p)"

text \<open>Writing through the shared reference that \<open>session\<close> returns.\<close>

definition map_session ::
  "pc_type \<Rightarrow> ('c media_session \<Rightarrow> 'c media_session) \<Rightarrow> 'c participant \<Rightarrow> 'c participant" where
  "map_session pc f p =
     (case pc of Publish \<Rightarrow> p\<lparr>publish := f (publish p)\<rparr> | Subscribe \<Rightarrow> p\<lparr>subscribe := f (subscribe p)\<rparr>)"

definition alloc_rtx_ssrc :: "'c participant \<Rightarrow> u32 \<Rightarrow> u32 \<times> 'c participant" where
  "alloc_rtx_ssrc p media_ssrc =
     (media_ssrc + 1000 + rtx_ssrc_counter p, p\<lparr>rtx_ssrc_counter := rtx_ssrc_counter p + 1\<rparr>)"

definition next_rtx_seq :: "'c participant \<Rightarrow> u16 \<times> 'c participant" where
  "next_rtx_seq p = (p_rtx_seq p, p\<lparr>p_rtx_seq := p_rtx_seq p + 1\<rparr>)"

definition add_track :: "u32 \<Rightarrow> track_kind \<Rightarrow> string \<Rightarrow> 'c participant \<Rightarrow> 'c participant" where
  "add_track ssrc kind track_id p =
     (if list_ex (\<lambda>t. t_ssrc t = ssrc) (tracks p) then p
      else (let (rtx, p) = (if kind = Video then apfst Some (alloc_rtx_ssrc p ssrc) else (None, p))
            in p\<lparr>tracks := tracks p @
                 [\<lparr>t_ssrc = ssrc, t_kind = kind, t_track_id = track_id, t_rtx_ssrc = rtx, t_muted = False\<rparr>]\<rparr>))"

fun remove_first :: "u32 \<Rightarrow> track list \<Rightarrow> track option \<times> track list" where
  "remove_first ssrc [] = (None, [])"
| "remove_first ssrc (t # ts) =
     (if t_ssrc t = ssrc then (Some t, ts) else apsnd ((#) t) (remove_first ssrc ts))"

definition remove_track :: "u32 \<Rightarrow> 'c participant \<Rightarrow> track option \<times> 'c participant" where
  "remove_track ssrc p = apsnd (\<lambda>ts. p\<lparr>tracks := ts\<rparr>) (remove_first ssrc (tracks p))"

fun mute_first :: "u32 \<Rightarrow> bool \<Rightarrow> track list \<Rightarrow> track_kind option \<times> track list" where
  "mute_first ssrc muted [] = (None, [])"
| "mute_first ssrc muted (t # ts) =
     (if t_ssrc t = ssrc then (Some (t_kind t), t\<lparr>t_muted := muted\<rparr> # ts)
      else apsnd ((#) t) (mute_first ssrc muted ts))"

definition set_track_muted :: "u32 \<Rightarrow> bool \<Rightarrow> 'c participant \<Rightarrow> track_kind option \<times> 'c participant" where
  "set_track_muted ssrc muted p = apsnd (\<lambda>ts. p\<lparr>tracks := ts\<rparr>) (mute_first ssrc muted (tracks p))"

definition get_tracks :: "'c participant \<Rightarrow> track list" where
  "get_tracks p = tracks p"

definition is_publish_ready :: "'c participant \<Rightarrow> bool" where
  "is_publish_ready p \<longleftrightarrow> is_media_ready (publish p)"

definition is_subscribe_ready :: "'c participant \<Rightarrow> bool" where
  "is_subscribe_ready p \<longleftrightarrow> is_media_ready (subscribe p)"

text \<open>\<open>egress_tx.try_send\<close>: whether it succeeded, and the queue after it.\<close>

definition try_send :: "egress_packet \<Rightarrow> 'c participant \<Rightarrow> bool \<times> 'c participant" where
  "try_send pkt p =
     (if length (egress_queue p) < EGRESS_QUEUE_SIZE
      then (True, p\<lparr>egress_queue := egress_queue p @ [pkt]\<rparr>) else (False, p))"

interpretation eq: bounded_queue try_send egress_queue EGRESS_QUEUE_SIZE
  by unfold_locales (auto simp: try_send_def)

text \<open>The track queries that the handlers write out.\<close>

definition first_ssrc_of_kind :: "track_kind \<Rightarrow> 'c participant \<Rightarrow> u32 option" where
  "first_ssrc_of_kind k p = map_option t_ssrc (List.find (\<lambda>t. t_kind t = k) (tracks p))"

definition has_ssrc :: "u32 \<Rightarrow> 'c participant \<Rightarrow> bool" where
  "has_ssrc ssrc p \<longleftrightarrow> list_ex (\<lambda>t. t_ssrc t = ssrc) (tracks p)"

section \<open>The cache as a ring\<close>

definition wf_cache :: "rtp_cache \<Rightarrow> bool" where
  "wf_cache c \<longleftrightarrow> length (slots c) = RTP_CACHE_SIZE"

text \<open>A packet that carries a sequence number: a full header with the number in it.\<close>

definition carries_seq :: "u16 \<Rightarrow> bytes \<Rightarrow> bool" where
  "carries_seq s pkt \<longleftrightarrow> RTP_HEADER_MIN_SIZE \<le> length pkt \<and> rd16 pkt 2 = Some s"

lemma wf_cache_new [simp]: "wf_cache rtp_cache_new"
  by (simp add: wf_cache_def rtp_cache_new_def)

lemma cache_slot: "wf_cache c \<Longrightarrow> unat (s :: u16) mod RTP_CACHE_SIZE < length (slots c)"
  by (simp add: wf_cache_def RTP_CACHE_SIZE_def)

lemma cache_store_eq:
  assumes "wf_cache c"
  shows "cache_store c s pkt = Some (c\<lparr>slots := (slots c)[unat s mod RTP_CACHE_SIZE := Some pkt]\<rparr>)"
  using cache_slot [OF assms, of s] by (simp add: cache_store_def)

lemma cache_get_total: "wf_cache c \<Longrightarrow> cache_get c s \<noteq> None"
  using cache_slot [of c s]
  by (auto simp: cache_get_def RTP_HEADER_MIN_SIZE_def split: option.splits)

interpretation rc: seq_ring cache_store cache_get wf_cache carries_seq RTP_CACHE_SIZE
proof unfold_locales
  fix c s pkt c' and t :: u16
  assume wf: "wf_cache c"
  note eq = cache_store_eq [OF wf, of s pkt]
  show "\<exists>c'. cache_store c s pkt = Some c' \<and> wf_cache c'"
    using wf by (simp add: eq wf_cache_def)
  note lt = cache_slot [OF wf]
  { assume c': "cache_store c s pkt = Some c'"
    { assume "carries_seq s pkt"
      then show "cache_get c' s = Some (Some pkt)"
        using c' lt [of s] by (auto simp: eq cache_get_def carries_seq_def)
    }
    { assume "carries_seq s pkt" "t \<noteq> s" "unat t mod RTP_CACHE_SIZE = unat s mod RTP_CACHE_SIZE"
      then show "cache_get c' t = Some None"
        using c' lt [of s] by (auto simp: eq cache_get_def carries_seq_def)
    }
    { assume "unat t mod RTP_CACHE_SIZE \<noteq> unat s mod RTP_CACHE_SIZE"
      then show "cache_get c' t = cache_get c t"
        using c' lt [of t] by (auto simp: eq cache_get_def)
    }
  }
qed

text \<open>
  C37: the last \<open>512\<close> video packets can be retransmitted. Storing at most \<open>512\<close> packets with
  consecutive sequence numbers, from any number (wrapping at \<open>2 ^ 16\<close>), never panics, and
  afterwards the lookup of each of these numbers returns its packet.
\<close>

theorem rtp_cache_window:
  assumes "wf_cache c" and "length pkts \<le> RTP_CACHE_SIZE"
    and "\<forall>i < length pkts. carries_seq (s + of_nat i) (pkts ! i)" and "i < length pkts"
  shows "\<exists>c'. rc.put_all c (map (\<lambda>i. (s + of_nat i, pkts ! i)) [0..<length pkts]) = Some c' \<and>
              cache_get c' (s + of_nat i) = Some (Some (pkts ! i))"
  by (rule rc.recent) (use assms in \<open>simp_all add: RTP_CACHE_SIZE_def\<close>)

definition demo_packets :: "bytes list" where
  "demo_packets = [[0x80, 96, 255, 255, 0, 0, 0, 0, 0, 0, 0, 0], [0x80, 96, 0, 0, 0, 0, 0, 0, 0, 0, 0, 0]]"

theorem rtp_cache_window_witness:
  "\<exists>c'. rc.put_all rtp_cache_new (map (\<lambda>i. (65535 + of_nat i, demo_packets ! i)) [0..<length demo_packets]) = Some c' \<and>
     cache_get c' (65535 + of_nat 1) = Some (Some (demo_packets ! 1))"
proof (rule rtp_cache_window)
  show "\<forall>i < length demo_packets. carries_seq (65535 + of_nat i) (demo_packets ! i)"
    by (auto simp: demo_packets_def less_Suc_eq carries_seq_def config_defs rd16_def of_be16_def)
qed (simp_all add: demo_packets_def RTP_CACHE_SIZE_def)

section \<open>The track registry\<close>

definition wf_tracks :: "'c participant \<Rightarrow> bool" where
  "wf_tracks p \<longleftrightarrow> distinct (map t_ssrc (tracks p)) \<and>
     (\<forall>t \<in> set (tracks p). t_rtx_ssrc t \<noteq> None \<longleftrightarrow> t_kind t = Video)"

lemma add_track_dup: "has_ssrc ssrc p \<Longrightarrow> add_track ssrc k i p = p"
  by (simp add: add_track_def has_ssrc_def)

lemma add_track_new:
  "\<not> has_ssrc ssrc p \<Longrightarrow> \<exists>rtx n. (rtx \<noteq> None \<longleftrightarrow> k = Video) \<and>
     add_track ssrc k i p = p\<lparr>tracks := tracks p @
       [\<lparr>t_ssrc = ssrc, t_kind = k, t_track_id = i, t_rtx_ssrc = rtx, t_muted = False\<rparr>], rtx_ssrc_counter := n\<rparr>"
proof (cases k)
  case Audio
  moreover assume "\<not> has_ssrc ssrc p"
  ultimately show ?thesis
    by (intro exI [of _ None] exI [of _ "rtx_ssrc_counter p"]) (simp add: add_track_def has_ssrc_def)
next
  case Video
  moreover assume "\<not> has_ssrc ssrc p"
  ultimately show ?thesis
    by (intro exI [of _ "Some (ssrc + 1000 + rtx_ssrc_counter p)"] exI [of _ "rtx_ssrc_counter p + 1"])
       (simp add: add_track_def has_ssrc_def alloc_rtx_ssrc_def)
qed

lemma has_ssrc_iff: "has_ssrc ssrc p \<longleftrightarrow> ssrc \<in> t_ssrc ` set (tracks p)"
  by (auto simp: has_ssrc_def list_ex_iff)

lemma wf_add_track: "wf_tracks p \<Longrightarrow> wf_tracks (add_track ssrc k i p)"
  using add_track_dup [of ssrc p k i] add_track_new [of ssrc p k i]
  by (cases "has_ssrc ssrc p") (fastforce simp: wf_tracks_def has_ssrc_iff)+

lemma add_track_ssrcs: "t_ssrc ` set (tracks (add_track ssrc k i p)) = insert ssrc (t_ssrc ` set (tracks p))"
  using add_track_dup [of ssrc p k i] add_track_new [of ssrc p k i]
  by (cases "has_ssrc ssrc p") (auto simp: has_ssrc_iff insert_absorb)

lemma remove_first_spec:
  "distinct (map t_ssrc ts) \<Longrightarrow>
   remove_first ssrc ts = (List.find (\<lambda>t. t_ssrc t = ssrc) ts, filter (\<lambda>t. t_ssrc t \<noteq> ssrc) ts)"
proof (induction ts)
  case (Cons t ts)
  then show ?case
    by (auto simp: image_iff intro!: filter_id_conv [THEN iffD2, symmetric])
qed simp

lemma mute_first_spec:
  "distinct (map t_ssrc ts) \<Longrightarrow>
   mute_first ssrc m ts = (map_option t_kind (List.find (\<lambda>t. t_ssrc t = ssrc) ts),
     map (\<lambda>t. if t_ssrc t = ssrc then t\<lparr>t_muted := m\<rparr> else t) ts)"
proof (induction ts)
  case (Cons t ts)
  then show ?case
    by (auto simp: image_iff intro!: map_idI [symmetric])
qed simp

datatype track_op = Add u32 track_kind string | Remove u32 | Mute u32 bool

fun track_step :: "'c participant \<Rightarrow> track_op \<Rightarrow> 'c participant" where
  "track_step p (Add ssrc k i) = add_track ssrc k i p"
| "track_step p (Remove ssrc) = snd (remove_track ssrc p)"
| "track_step p (Mute ssrc m) = snd (set_track_muted ssrc m p)"

fun ssrcs_after :: "u32 set \<Rightarrow> track_op \<Rightarrow> u32 set" where
  "ssrcs_after S (Add ssrc k i) = insert ssrc S"
| "ssrcs_after S (Remove ssrc) = S - {ssrc}"
| "ssrcs_after S (Mute ssrc m) = S"

lemma track_step_wf:
  assumes "wf_tracks p"
  shows "wf_tracks (track_step p e) \<and>
    t_ssrc ` set (tracks (track_step p e)) = ssrcs_after (t_ssrc ` set (tracks p)) e"
proof (cases e)
  case (Add ssrc k i)
  then show ?thesis using assms by (simp add: wf_add_track add_track_ssrcs)
next
  case (Remove ssrc)
  have d: "distinct (map t_ssrc (tracks p))" using assms by (simp add: wf_tracks_def)
  show ?thesis using assms
    by (auto simp: Remove remove_track_def remove_first_spec [OF d] wf_tracks_def distinct_map inj_on_def)
next
  case (Mute ssrc m)
  have d: "distinct (map t_ssrc (tracks p))" using assms by (simp add: wf_tracks_def)
  define f where "f = (\<lambda>t :: track. if t_ssrc t = ssrc then t\<lparr>t_muted := m\<rparr> else t)"
  have f: "t_ssrc (f t) = t_ssrc t" "t_kind (f t) = t_kind t" "t_rtx_ssrc (f t) = t_rtx_ssrc t" for t
    by (simp_all add: f_def)
  have ts: "tracks (track_step p e) = map f (tracks p)"
    by (simp add: Mute set_track_muted_def mute_first_spec [OF d] f_def)
  have "map t_ssrc (map f (tracks p)) = map t_ssrc (tracks p)" by (simp add: f)
  then have "distinct (map t_ssrc (map f (tracks p)))" "t_ssrc ` set (map f (tracks p)) = t_ssrc ` set (tracks p)"
    using d by (simp only:, metis set_map)
  then show ?thesis using assms unfolding wf_tracks_def ts by (simp add: f Mute)
qed

interpretation trk: preserved track_step wf_tracks
  by unfold_locales (simp add: track_step_wf)

text \<open>
  C38: the track registry. However tracks are registered, removed and muted on a
  participant, no two registered tracks share an SSRC and exactly the video tracks have a
  retransmission SSRC; a registration makes its SSRC known and keeps all others, a removal
  forgets exactly its SSRC, and muting changes no SSRC.
\<close>

theorem track_registry:
  assumes "wf_tracks p"
  shows "wf_tracks (foldl track_step p es) \<and>
    t_ssrc ` set (tracks (foldl track_step p es)) = foldl ssrcs_after (t_ssrc ` set (tracks p)) es"
proof (rule conjI)
  show "wf_tracks (foldl track_step p es)" using trk.run_invar [OF assms] .
  show "t_ssrc ` set (tracks (foldl track_step p es)) = foldl ssrcs_after (t_ssrc ` set (tracks p)) es"
    using assms by (induction es arbitrary: p) (simp_all add: track_step_wf)
qed

theorem track_registry_witness:
  "wf_tracks (foldl track_step (participant_new ''u'' ''r'' ''a'' ''b'' ''c'' ''d'' 0 5 :: nat participant)
     [Add 7 Video ''v'', Add 8 Audio ''a'', Mute 7 True, Remove 8, Add 7 Audio ''x''])"
  using track_registry [of "participant_new ''u'' ''r'' ''a'' ''b'' ''c'' ''d'' 0 5 :: nat participant"
      "[Add 7 Video ''v'', Add 8 Audio ''a'', Mute 7 True, Remove 8, Add 7 Audio ''x'']"]
  by (simp add: wf_tracks_def participant_new_def)

text \<open>
  Retransmission SSRCs can collide. Registering two video tracks of a participant, the
  first with the SSRC one above the second, gives both tracks the same retransmission
  SSRC, although the allocation is meant to avoid collisions.
\<close>

theorem rtx_ssrc_collision:
  "map t_rtx_ssrc (tracks (add_track s Video j (add_track (s + 1) Video i
     (participant_new u r pu pp su sp tx now)))) = [Some (s + 1001), Some (s + 1001)]"
proof -
  have "s + 1 \<noteq> s" by simp
  then show ?thesis
    by (simp add: add_track_def alloc_rtx_ssrc_def participant_new_def)
qed

text \<open>
  A retransmission of a packet with a header extension is malformed. The builder keeps
  the X bit but puts the original sequence number where the extension must begin, so no
  extension element of the packet can be read from the retransmission (unless the number
  happens to be the profile \<open>0xBEDE\<close>).
\<close>

theorem rtx_loses_extension:
  assumes "length csrcs = 4 * unat (b0 AND 0x0F)" and "b0 AND 0x10 \<noteq> 0" and "sq \<noteq> 0xBEDE"
  shows "\<exists>rtx. build_rtx_packet ([b0, b1] @ to_be16 sq @ to_be32 ts @ to_be32 ssrc @ csrcs @ payload) rtx_ssrc rtx_seq = Some rtx \<and>
    idx rtx 0 = Some b0 \<and> parse_twcc_seq rtx i = Some None"
proof -
  let ?front = "[b0, RTX_PAYLOAD_TYPE] @ to_be16 rtx_seq @ to_be32 ts @ to_be32 rtx_ssrc @ csrcs"
  let ?rtx = "?front @ to_be16 sq @ payload"
  let ?off = "12 + unat (b0 AND 0x0F) * 4"
  have "rd16 ?rtx ?off = Some sq"
    using assms(1) by (intro be16.get_at) simp
  moreover have b: "idx ?rtx 0 = Some b0" by (simp add: idx_def)
  ultimately have "parse_twcc_seq ?rtx i = Some None"
    unfolding parse_twcc_seq_def using assms
    by (auto simp: Let_def config_defs del: rd16_in_range idx_in_range intro!: bind_eq_Some_conv [THEN iffD2])
  then show ?thesis
    using build_rtx_eq [OF assms(1), of b1 sq ts ssrc payload rtx_ssrc rtx_seq] b by auto
qed

theorem rtx_loses_extension_witness:
  "\<exists>rtx. build_rtx_packet ([0x90, 96] @ to_be16 7 @ to_be32 9 @ to_be32 5 @ [] @ [0xBE, 0xDE, 0, 1, 0x61, 0, 5, 0]) 1005 3 = Some rtx \<and>
     idx rtx 0 = Some 0x90 \<and> parse_twcc_seq rtx 6 = Some None"
proof -
  have h: "length [] = 4 * unat (0x90 AND 0x0F :: u8)" "(0x90 :: u8) AND 0x10 \<noteq> 0" "(7 :: u16) \<noteq> 0xBEDE" by simp_all
  show ?thesis using rtx_loses_extension [OF h] by blast
qed

section \<open>Back pressure\<close>

text \<open>
  A slow subscriber loses the newest packets and nobody waits for it. Of any burst of
  packets sent to the egress queue of a participant, exactly the oldest that fit below 256
  are queued, in order and behind what was there; the others are dropped, and the rest of
  the participant is untouched.
\<close>

theorem egress_back_pressure:
  "egress_queue (eq.send_all pkts p) =
     egress_queue p @ take (EGRESS_QUEUE_SIZE - length (egress_queue p)) pkts \<and>
   eq.send_all pkts p = p\<lparr>egress_queue := egress_queue (eq.send_all pkts p)\<rparr>"
proof (intro conjI)
  show "egress_queue (eq.send_all pkts p) = egress_queue p @ take (EGRESS_QUEUE_SIZE - length (egress_queue p)) pkts"
    by (rule eq.burst)
  show "eq.send_all pkts p = p\<lparr>egress_queue := egress_queue (eq.send_all pkts p)\<rparr>"
  proof -
    have "\<exists>q. fold (\<lambda>x p. snd (try_send x p)) pkts p = p\<lparr>egress_queue := q\<rparr>"
    proof (induction pkts arbitrary: p)
      case Nil
      show ?case by (rule exI [of _ "egress_queue p"]) simp
    next
      case (Cons pkt pkts)
      obtain q where q: "snd (try_send pkt p) = p\<lparr>egress_queue := q\<rparr>"
        by (cases "length (egress_queue p) < EGRESS_QUEUE_SIZE")
           (auto simp: try_send_def intro: that [of "egress_queue p"])
      then show ?case using Cons.IH [of "p\<lparr>egress_queue := q\<rparr>"] by auto
    qed
    then show ?thesis by (auto simp: eq.send_all_def)
  qed
qed

end
