(* ===== verification/Room.thy ===== *)
theory Room
  imports Floor_Control Participant
begin

text \<open>
  Rooms and the room hub (\<open>src/room/room.rs\<close>). A participant is shared: the indices hold
  references into the heap of participants, and an update through one reference is seen
  through all others. A concurrent map that the source iterates is an association list in
  iteration order, the other indices are partial maps.
\<close>

section \<open>The heap of participants\<close>

type_synonym pref = nat
type_synonym 'c heap = "'c participant list"

definition deref :: "'c heap \<Rightarrow> pref \<Rightarrow> 'c participant" where
  "deref h p = h ! p"

definition modify :: "pref \<Rightarrow> ('c participant \<Rightarrow> 'c participant) \<Rightarrow> 'c heap \<Rightarrow> 'c heap" where
  "modify p f h = h[p := f (h ! p)]"

lemma length_modify [simp]: "length (modify p f h) = length h"
  by (simp add: modify_def)

lemma deref_modify: "p < length h \<Longrightarrow> deref (modify p f h) q = (if q = p then f (deref h p) else deref h q)"
  by (simp add: deref_def modify_def nth_list_update)

section \<open>Rooms\<close>

record room =
  r_id :: string
  r_name :: string
  r_capacity :: nat
  r_mode :: room_mode
  r_created_at :: u64
  r_floor :: floor_state
  audio_rewriter :: ptt_rewriter
  video_rewriter :: ptt_rewriter
  participants :: "(string \<times> pref) list"
  by_ufrag :: "string \<Rightarrow> (pref \<times> pc_type) option"
  by_addr :: "sockaddr \<Rightarrow> (pref \<times> pc_type) option"

text \<open>The two random virtual SSRCs are arguments.\<close>

definition room_new ::
  "u32 \<Rightarrow> u32 \<Rightarrow> string \<Rightarrow> string \<Rightarrow> nat option \<Rightarrow> room_mode \<Rightarrow> u64 \<Rightarrow> room" where
  "room_new audio_ssrc video_ssrc rid nm cap mode created =
     \<lparr>r_id = rid, r_name = nm,
      r_capacity = min (case cap of Some c \<Rightarrow> c | None \<Rightarrow> ROOM_DEFAULT_CAPACITY) ROOM_MAX_CAPACITY,
      r_mode = mode, r_created_at = created, r_floor = floor_new,
      audio_rewriter = new_audio audio_ssrc, video_rewriter = new_video video_ssrc,
      participants = [], by_ufrag = Map.empty, by_addr = Map.empty\<rparr>"

definition room_add_participant :: "'c heap \<Rightarrow> pref \<Rightarrow> room \<Rightarrow> (light_error + unit) \<times> room" where
  "room_add_participant h p r =
     (if length (participants r) \<ge> r_capacity r then (Inl RoomFull, r)
      else if map_of (participants r) (p_user_id (deref h p)) \<noteq> None then (Inl AlreadyInRoom, r)
      else (Inr (), r\<lparr>by_ufrag := (by_ufrag r)
               (ms_ufrag (publish (deref h p)) \<mapsto> (p, Publish),
                ms_ufrag (subscribe (deref h p)) \<mapsto> (p, Subscribe)),
             participants := AList.update (p_user_id (deref h p)) p (participants r)\<rparr>))"

definition forget_addr :: "sockaddr option \<Rightarrow> (sockaddr \<Rightarrow> 'v option) \<Rightarrow> (sockaddr \<Rightarrow> 'v option)" where
  "forget_addr a m = (case a of Some a \<Rightarrow> m(a := None) | None \<Rightarrow> m)"

definition room_remove_participant :: "'c heap \<Rightarrow> string \<Rightarrow> room \<Rightarrow> (light_error + pref) \<times> room" where
  "room_remove_participant h uid r =
     (case map_of (participants r) uid of
        None \<Rightarrow> (Inl NotInRoom, r)
      | Some p \<Rightarrow> (Inr p, r\<lparr>participants := AList.delete uid (participants r),
          by_ufrag := (by_ufrag r)(ms_ufrag (publish (deref h p)) := None,
                                   ms_ufrag (subscribe (deref h p)) := None),
          by_addr := forget_addr (ms_address (subscribe (deref h p)))
                       (forget_addr (ms_address (publish (deref h p))) (by_addr r))\<rparr>))"

definition room_latch ::
  "'c heap \<Rightarrow> string \<Rightarrow> sockaddr \<Rightarrow> room \<Rightarrow> (pref \<times> pc_type) option \<times> 'c heap \<times> room" where
  "room_latch h uf addr r =
     (case by_ufrag r uf of
        None \<Rightarrow> (None, h, r)
      | Some (p, pc) \<Rightarrow>
          (let old = ms_address (session (deref h p) pc);
               ba = (case old of
                   Some old_addr \<Rightarrow> if old_addr \<noteq> addr then (by_addr r)(old_addr := None) else by_addr r
                 | None \<Rightarrow> by_addr r);
               h = modify p (map_session pc (\<lambda>ms. latch_address ms addr)) h
           in (Some (p, pc), h, r\<lparr>by_addr := ba(addr \<mapsto> (p, pc))\<rparr>)))"

definition get_participant :: "room \<Rightarrow> string \<Rightarrow> pref option" where
  "get_participant r uid = map_of (participants r) uid"

definition get_by_ufrag :: "room \<Rightarrow> string \<Rightarrow> (pref \<times> pc_type) option" where
  "get_by_ufrag r uf = by_ufrag r uf"

definition get_by_addr :: "room \<Rightarrow> sockaddr \<Rightarrow> (pref \<times> pc_type) option" where
  "get_by_addr r a = by_addr r a"

definition participant_count :: "room \<Rightarrow> nat" where
  "participant_count r = length (participants r)"

definition member_ids :: "room \<Rightarrow> string list" where
  "member_ids r = map fst (participants r)"

definition all_participants :: "room \<Rightarrow> pref list" where
  "all_participants r = map snd (participants r)"

definition other_participants :: "room \<Rightarrow> string \<Rightarrow> pref list" where
  "other_participants r exclude_user = map snd (filter (\<lambda>(uid, p). uid \<noteq> exclude_user) (participants r))"

definition find_by_track_ssrc :: "'c heap \<Rightarrow> room \<Rightarrow> u32 \<Rightarrow> pref option" where
  "find_by_track_ssrc h r ssrc =
     map_option snd (List.find (\<lambda>(uid, p). has_ssrc ssrc (deref h p)) (participants r))"

section \<open>The hub\<close>

record 'c hub =
  heap :: "'c heap"
  rooms :: "(string \<times> room) list"
  ufrag_index :: "string \<Rightarrow> string option"
  addr_index :: "sockaddr \<Rightarrow> string option"

definition hub_new :: "'c hub" where
  "hub_new = \<lparr>heap = [], rooms = [], ufrag_index = Map.empty, addr_index = Map.empty\<rparr>"

text \<open>Writing a room back, for the operations on a shared room.\<close>

definition put_room :: "string \<Rightarrow> room \<Rightarrow> 'c hub \<Rightarrow> 'c hub" where
  "put_room rid r hb = hb\<lparr>rooms := AList.update rid r (rooms hb)\<rparr>"

text \<open>\<open>Uuid::new_v4\<close> gives the identifier.\<close>

definition hub_create ::
  "string \<Rightarrow> u32 \<Rightarrow> u32 \<Rightarrow> string \<Rightarrow> nat option \<Rightarrow> room_mode \<Rightarrow> u64 \<Rightarrow> 'c hub \<Rightarrow> room \<times> 'c hub" where
  "hub_create rid a v nm cap mode created hb =
     (let r = room_new a v rid nm cap mode created in (r, put_room rid r hb))"

definition hub_get :: "'c hub \<Rightarrow> string \<Rightarrow> light_error + room" where
  "hub_get hb rid = (case map_of (rooms hb) rid of Some r \<Rightarrow> Inr r | None \<Rightarrow> Inl RoomNotFound)"

text \<open>The reverse indices forget the two fragments and addresses of a participant.\<close>

definition unindex :: "'c participant \<Rightarrow> 'c hub \<Rightarrow> 'c hub" where
  "unindex p hb = hb\<lparr>
     ufrag_index := (ufrag_index hb)(ms_ufrag (publish p) := None, ms_ufrag (subscribe p) := None),
     addr_index := forget_addr (ms_address (subscribe p))
                     (forget_addr (ms_address (publish p)) (addr_index hb))\<rparr>"

definition remove_room :: "string \<Rightarrow> 'c hub \<Rightarrow> (light_error + room) \<times> 'c hub" where
  "remove_room rid hb =
     (case map_of (rooms hb) rid of
        None \<Rightarrow> (Inl RoomNotFound, hb)
      | Some r \<Rightarrow> (Inr r, foldl (\<lambda>hb (uid, p). unindex (deref (heap hb) p) hb)
          (hb\<lparr>rooms := AList.delete rid (rooms hb)\<rparr>) (participants r)))"

definition hub_count :: "'c hub \<Rightarrow> nat" where
  "hub_count hb = length (rooms hb)"

definition add_participant :: "string \<Rightarrow> pref \<Rightarrow> 'c hub \<Rightarrow> (light_error + unit) \<times> 'c hub" where
  "add_participant rid p hb =
     (case hub_get hb rid of
        Inl e \<Rightarrow> (Inl e, hb)
      | Inr r \<Rightarrow>
          (case room_add_participant (heap hb) p r of
             (Inl e, r') \<Rightarrow> (Inl e, put_room rid r' hb)
           | (Inr _, r') \<Rightarrow>
               (Inr (), (put_room rid r' hb)\<lparr>ufrag_index := (ufrag_index hb)
                  (ms_ufrag (publish (deref (heap hb) p)) \<mapsto> rid,
                   ms_ufrag (subscribe (deref (heap hb) p)) \<mapsto> rid)\<rparr>)))"

definition remove_participant :: "string \<Rightarrow> string \<Rightarrow> 'c hub \<Rightarrow> (light_error + pref) \<times> 'c hub" where
  "remove_participant rid uid hb =
     (case hub_get hb rid of
        Inl e \<Rightarrow> (Inl e, hb)
      | Inr r \<Rightarrow>
          (case room_remove_participant (heap hb) uid r of
             (Inl e, r') \<Rightarrow> (Inl e, put_room rid r' hb)
           | (Inr p, r') \<Rightarrow> (Inr p, unindex (deref (heap hb) p) (put_room rid r' hb))))"

definition latch_by_ufrag ::
  "string \<Rightarrow> sockaddr \<Rightarrow> 'c hub \<Rightarrow> (pref \<times> pc_type \<times> string) option \<times> 'c hub" where
  "latch_by_ufrag uf addr hb =
     (case ufrag_index hb uf of None \<Rightarrow> (None, hb)
      | Some rid \<Rightarrow>
        (case map_of (rooms hb) rid of None \<Rightarrow> (None, hb)
         | Some r \<Rightarrow>
           (case room_latch (heap hb) uf addr r of
              (None, h, r') \<Rightarrow> (None, hb)
            | (Some (p, pc), h, r') \<Rightarrow>
                (Some (p, pc, rid), (put_room rid r' hb)\<lparr>heap := h,
                   addr_index := (addr_index hb)(addr \<mapsto> rid)\<rparr>))))"

definition find_by_addr :: "'c hub \<Rightarrow> sockaddr \<Rightarrow> (pref \<times> pc_type \<times> string) option" where
  "find_by_addr hb addr = do {
     rid \<leftarrow> addr_index hb addr;
     r \<leftarrow> map_of (rooms hb) rid;
     (p, pc) \<leftarrow> get_by_addr r addr;
     Some (p, pc, rid) }"

definition find_by_ufrag :: "'c hub \<Rightarrow> string \<Rightarrow> (pref \<times> pc_type \<times> string) option" where
  "find_by_ufrag hb uf = do {
     rid \<leftarrow> ufrag_index hb uf;
     r \<leftarrow> map_of (rooms hb) rid;
     (p, pc) \<leftarrow> get_by_ufrag r uf;
     Some (p, pc, rid) }"

definition is_zombie :: "u64 \<Rightarrow> u64 \<Rightarrow> 'c participant \<Rightarrow> bool" where
  "is_zombie now_ms timeout_ms p \<longleftrightarrow> last_seen p > 0 \<and> sat_sub now_ms (last_seen p) > timeout_ms"

fun reap_users :: "string \<Rightarrow> string list \<Rightarrow> 'c hub \<Rightarrow> (string \<times> pref) list \<times> 'c hub" where
  "reap_users rid [] hb = ([], hb)"
| "reap_users rid (uid # uids) hb =
     (case remove_participant rid uid hb of
        (Inr p, hb) \<Rightarrow> apfst ((#) (rid, p)) (reap_users rid uids hb)
      | (Inl _, hb) \<Rightarrow> reap_users rid uids hb)"

fun reap_rooms :: "u64 \<Rightarrow> u64 \<Rightarrow> string list \<Rightarrow> 'c hub \<Rightarrow> (string \<times> pref) list \<times> 'c hub" where
  "reap_rooms now_ms timeout_ms [] hb = ([], hb)"
| "reap_rooms now_ms timeout_ms (rid # rids) hb =
     (case map_of (rooms hb) rid of
        None \<Rightarrow> reap_rooms now_ms timeout_ms rids hb
      | Some r \<Rightarrow>
          (let zombie_ids = map fst (filter (\<lambda>(uid, p). is_zombie now_ms timeout_ms (deref (heap hb) p)) (participants r));
               (reaped, hb) = reap_users rid zombie_ids hb;
               (more, hb) = reap_rooms now_ms timeout_ms rids hb
           in (reaped @ more, hb)))"

definition reap_zombies :: "u64 \<Rightarrow> u64 \<Rightarrow> 'c hub \<Rightarrow> (string \<times> pref) list \<times> 'c hub" where
  "reap_zombies now_ms timeout_ms hb = reap_rooms now_ms timeout_ms (map fst (rooms hb)) hb"

section \<open>The invariant of the indices\<close>

definition room_ok :: "'c heap \<Rightarrow> string \<Rightarrow> room \<Rightarrow> bool" where
  "room_ok h rid r \<longleftrightarrow>
     r_id r = rid \<and> distinct (map fst (participants r)) \<and>
     length (participants r) \<le> r_capacity r \<and> r_capacity r \<le> ROOM_MAX_CAPACITY \<and>
     (\<forall>uid p. map_of (participants r) uid = Some p \<longrightarrow>
        p < length h \<and> p_user_id (deref h p) = uid \<and> p_room_id (deref h p) = rid) \<and>
     (\<forall>uf p pc. by_ufrag r uf = Some (p, pc) \<longrightarrow>
        map_of (participants r) (p_user_id (deref h p)) = Some p \<and>
        ms_ufrag (session (deref h p) pc) = uf) \<and>
     (\<forall>a p pc. by_addr r a = Some (p, pc) \<longrightarrow>
        map_of (participants r) (p_user_id (deref h p)) = Some p \<and>
        ms_address (session (deref h p) pc) = Some a)"

definition hub_ok :: "'c hub \<Rightarrow> bool" where
  "hub_ok hb \<longleftrightarrow> distinct (map fst (rooms hb)) \<and>
     (\<forall>rid r. map_of (rooms hb) rid = Some r \<longrightarrow> room_ok (heap hb) rid r)"

lemma room_okD:
  assumes "room_ok h rid r"
  shows "r_id r = rid" "distinct (map fst (participants r))"
    "length (participants r) \<le> r_capacity r" "r_capacity r \<le> ROOM_MAX_CAPACITY"
    "map_of (participants r) uid = Some p \<Longrightarrow> p < length h"
    "map_of (participants r) uid = Some p \<Longrightarrow> p_user_id (deref h p) = uid"
    "map_of (participants r) uid = Some p \<Longrightarrow> p_room_id (deref h p) = rid"
    "by_ufrag r uf = Some (p, pc) \<Longrightarrow> map_of (participants r) (p_user_id (deref h p)) = Some p"
    "by_ufrag r uf = Some (p, pc) \<Longrightarrow> ms_ufrag (session (deref h p) pc) = uf"
    "by_addr r a = Some (p, pc) \<Longrightarrow> map_of (participants r) (p_user_id (deref h p)) = Some p"
    "by_addr r a = Some (p, pc) \<Longrightarrow> ms_address (session (deref h p) pc) = Some a"
  using assms by (auto simp: room_ok_def)

lemma hub_okD:
  assumes "hub_ok hb"
  shows "distinct (map fst (rooms hb))" "map_of (rooms hb) rid = Some r \<Longrightarrow> room_ok (heap hb) rid r"
  using assms by (auto simp: hub_ok_def)

lemma hub_ok_new [simp]: "hub_ok hub_new"
  by (simp add: hub_ok_def hub_new_def)

lemma room_ok_new: "room_ok h rid (room_new a v rid nm cap mode created)"
  by (auto simp: room_ok_def room_new_def)

lemma hub_ok_put_room:
  "hub_ok hb \<Longrightarrow> room_ok (heap hb) rid r \<Longrightarrow> hub_ok (put_room rid r hb)"
  by (auto simp: hub_ok_def put_room_def distinct_update split: if_splits)

lemma hub_ok_reverse [simp]:
  "hub_ok (hb\<lparr>ufrag_index := x\<rparr>) = hub_ok hb" "hub_ok (hb\<lparr>addr_index := y\<rparr>) = hub_ok hb"
  by (simp_all add: hub_ok_def)

lemma put_room_fields [simp]:
  "heap (put_room rid r hb) = heap hb" "ufrag_index (put_room rid r hb) = ufrag_index hb"
  "addr_index (put_room rid r hb) = addr_index hb"
  "map_of (rooms (put_room rid r hb)) = (map_of (rooms hb))(rid \<mapsto> r)"
  by (simp_all add: put_room_def)

lemma unindex_fields [simp]:
  "heap (unindex p hb) = heap hb" "rooms (unindex p hb) = rooms hb"
  "hub_ok (unindex p hb) = hub_ok hb"
  by (simp_all add: unindex_def hub_ok_def)

lemma forget_addr_Some: "forget_addr a m k = Some v \<longleftrightarrow> a \<noteq> Some k \<and> m k = Some v"
  by (cases a) (auto simp: forget_addr_def)

text \<open>The addresses and fragments of a participant are those of its two sessions.\<close>

lemma session_cases: "session p pc = publish p \<or> session p pc = subscribe p"
  by (cases pc) (simp_all add: session_def)

subsection \<open>Preservation\<close>

lemma room_add_ok:
  assumes ok: "room_ok h rid r" and p: "p < length h" "p_room_id (deref h p) = rid"
    and add: "room_add_participant h p r = (res, r')"
  shows "room_ok h rid r'"
proof (cases "length (participants r) \<ge> r_capacity r \<or> map_of (participants r) (p_user_id (deref h p)) \<noteq> None")
  case True
  then show ?thesis using ok add by (auto simp: room_add_participant_def split: if_splits)
next
  case False
  then have new: "map_of (participants r) (p_user_id (deref h p)) = None"
    and r': "r' = r\<lparr>by_ufrag := (by_ufrag r)
               (ms_ufrag (publish (deref h p)) \<mapsto> (p, Publish), ms_ufrag (subscribe (deref h p)) \<mapsto> (p, Subscribe)),
             participants := AList.update (p_user_id (deref h p)) p (participants r)\<rparr>"
    and cap: "length (participants r) < r_capacity r"
    using add by (auto simp: room_add_participant_def)
  have other: "map_of (participants r) (p_user_id (deref h q)) = Some q \<Longrightarrow>
      p_user_id (deref h q) \<noteq> p_user_id (deref h p)" for q
    using new by auto
  note D = room_okD [OF ok]
  have "by_ufrag r' u = Some (q, pc) \<Longrightarrow> map_of (participants r') (p_user_id (deref h q)) = Some q \<and>
      ms_ufrag (session (deref h q) pc) = u" for u q pc
    using D(8,9) [of u q pc] other [of q] by (auto simp: r' session_def split: if_splits)
  moreover have "by_addr r' a = Some (q, pc) \<Longrightarrow> map_of (participants r') (p_user_id (deref h q)) = Some q \<and>
      ms_address (session (deref h q) pc) = Some a" for a q pc
    using D(10,11) [of a q pc] other [of q] by (auto simp: r')
  moreover have "map_of (participants r') u = Some q \<Longrightarrow> q < length h \<and> p_user_id (deref h q) = u \<and> p_room_id (deref h q) = rid" for u q
    using D(5-7) [of u q] p by (auto simp: r' split: if_splits)
  moreover have "r_id r' = rid" "distinct (map fst (participants r'))" "length (participants r') \<le> r_capacity r'"
    "r_capacity r' \<le> ROOM_MAX_CAPACITY"
    using D(1-4) cap new by (simp_all add: r' distinct_update length_update_new)
  ultimately show ?thesis unfolding room_ok_def by blast
qed

lemma room_remove_ok:
  assumes ok: "room_ok h rid r" and rm: "room_remove_participant h uid r = (res, r')"
  shows "room_ok h rid r'"
proof (cases "map_of (participants r) uid")
  case None
  then show ?thesis using ok rm by (simp add: room_remove_participant_def)
next
  case (Some p)
  note D = room_okD [OF ok]
  have r': "r' = r\<lparr>participants := AList.delete uid (participants r),
          by_ufrag := (by_ufrag r)(ms_ufrag (publish (deref h p)) := None, ms_ufrag (subscribe (deref h p)) := None),
          by_addr := forget_addr (ms_address (subscribe (deref h p)))
                       (forget_addr (ms_address (publish (deref h p))) (by_addr r))\<rparr>"
    using rm Some by (simp add: room_remove_participant_def)
  have uid: "p_user_id (deref h p) = uid" using D(6) [OF Some] .
  have same: "q = p" if "map_of (participants r) (p_user_id (deref h q)) = Some q" "p_user_id (deref h q) = uid" for q
    using that Some by simp
  have uf: "q \<noteq> p" if "by_ufrag r u = Some (q, pc)" "u \<noteq> ms_ufrag (publish (deref h p))"
      "u \<noteq> ms_ufrag (subscribe (deref h p))" for u q pc
    using D(9) [OF that(1)] that(2,3) session_cases [of "deref h p" pc] by auto
  have ad: "q \<noteq> p" if "by_addr r a = Some (q, pc)" "ms_address (publish (deref h p)) \<noteq> Some a"
      "ms_address (subscribe (deref h p)) \<noteq> Some a" for a q pc
    using D(11) [OF that(1)] that(2,3) session_cases [of "deref h p" pc] by auto
  have len: "length (AList.delete uid (participants r)) \<le> r_capacity r"
    using D(3) length_delete_distinct [OF D(2), of uid] Some by simp
  have "by_ufrag r' u = Some (q, pc) \<Longrightarrow> map_of (participants r') (p_user_id (deref h q)) = Some q \<and>
      ms_ufrag (session (deref h q) pc) = u" for u q pc
    using D(8,9) [of u q pc] uf [of u q pc] same [of q] by (auto simp: r' split: if_splits)
  moreover have "by_addr r' a = Some (q, pc) \<Longrightarrow> map_of (participants r') (p_user_id (deref h q)) = Some q \<and>
      ms_address (session (deref h q) pc) = Some a" for a q pc
    using D(10,11) [of a q pc] ad [of a q pc] same [of q] by (auto simp: r' forget_addr_Some)
  moreover have "map_of (participants r') u = Some q \<Longrightarrow> q < length h \<and> p_user_id (deref h q) = u \<and> p_room_id (deref h q) = rid" for u q
    using D(5-7) [of u q] by (auto simp: r' split: if_splits)
  moreover have "r_id r' = rid" "distinct (map fst (participants r'))" "length (participants r') \<le> r_capacity r'"
    "r_capacity r' \<le> ROOM_MAX_CAPACITY"
    using D(1-4) len by (simp_all add: r' distinct_delete)
  ultimately show ?thesis unfolding room_ok_def by blast
qed

text \<open>
  Two heaps that agree on what the indices depend on: identity, fragments and addresses.
  Every operation except the latch keeps them.
\<close>

definition same_id :: "'c participant \<Rightarrow> 'c participant \<Rightarrow> bool" where
  "same_id p q \<longleftrightarrow> p_user_id p = p_user_id q \<and> p_room_id p = p_room_id q \<and>
     (\<forall>pc. ms_ufrag (session p pc) = ms_ufrag (session q pc) \<and>
           ms_address (session p pc) = ms_address (session q pc))"

definition heap_sim :: "'c heap \<Rightarrow> 'c heap \<Rightarrow> bool" where
  "heap_sim h h' \<longleftrightarrow> length h \<le> length h' \<and> (\<forall>q < length h. same_id (deref h q) (deref h' q))"

lemma same_id_refl [simp]: "same_id p p"
  by (simp add: same_id_def)

lemma same_id_trans: "same_id p q \<Longrightarrow> same_id q r \<Longrightarrow> same_id p r"
  by (simp add: same_id_def)

lemma heap_sim_refl [simp]: "heap_sim h h"
  by (simp add: heap_sim_def)

lemma heap_sim_trans: "heap_sim h1 h2 \<Longrightarrow> heap_sim h2 h3 \<Longrightarrow> heap_sim h1 h3"
  by (auto simp: heap_sim_def intro: same_id_trans order_trans)

lemma heap_sim_append [simp]: "heap_sim h (h @ ps)"
  by (simp add: heap_sim_def deref_def nth_append)

lemma heap_sim_modify:
  "(\<And>q. same_id q (f q)) \<Longrightarrow> heap_sim h (modify p f h)"
  unfolding heap_sim_def deref_def modify_def by (metis length_list_update nth_list_update_eq nth_list_update_neq order_refl same_id_refl)

lemma room_ok_sim:
  assumes ok: "room_ok h rid r" and sim: "heap_sim h h'"
  shows "room_ok h' rid r"
proof -
  note D = room_okD [OF ok]
  have s: "p_user_id (deref h' q) = p_user_id (deref h q)" "p_room_id (deref h' q) = p_room_id (deref h q)"
    "ms_ufrag (session (deref h' q) pc) = ms_ufrag (session (deref h q) pc)"
    "ms_address (session (deref h' q) pc) = ms_address (session (deref h q) pc)"
    if "q < length h" for q pc
    using sim that by (auto simp: heap_sim_def same_id_def)
  have lt: "map_of (participants r) u = Some q \<Longrightarrow> q < length h" for u q by (rule D(5))
  have "by_ufrag r u = Some (q, pc) \<Longrightarrow> map_of (participants r) (p_user_id (deref h' q)) = Some q \<and>
      ms_ufrag (session (deref h' q) pc) = u" for u q pc
    using D(8,9) [of u q pc] lt s by metis
  moreover have "by_addr r a = Some (q, pc) \<Longrightarrow> map_of (participants r) (p_user_id (deref h' q)) = Some q \<and>
      ms_address (session (deref h' q) pc) = Some a" for a q pc
    using D(10,11) [of a q pc] lt s by metis
  moreover have "map_of (participants r) u = Some q \<Longrightarrow> q < length h' \<and> p_user_id (deref h' q) = u \<and> p_room_id (deref h' q) = rid" for u q
    using D(5-7) [of u q] s [of q] sim by (auto simp: heap_sim_def)
  ultimately show ?thesis unfolding room_ok_def using D(1-4) by blast
qed

lemma hub_ok_sim:
  "hub_ok hb \<Longrightarrow> heap_sim (heap hb) h' \<Longrightarrow> hub_ok (hb\<lparr>heap := h'\<rparr>)"
proof -
  assume "hub_ok hb" and "heap_sim (heap hb) h'"
  moreover have "rooms (hb\<lparr>heap := h'\<rparr>) = rooms hb" "heap (hb\<lparr>heap := h'\<rparr>) = h'" by simp_all
  ultimately show ?thesis unfolding hub_ok_def by (metis room_ok_sim)
qed

lemma session_map_session:
  "session (map_session pc f p) pc' = (if pc' = pc then f (session p pc) else session p pc')"
  by (cases pc; cases pc') (simp_all add: session_def map_session_def)

lemma map_session_identity [simp]:
  "p_user_id (map_session pc f p) = p_user_id p" "p_room_id (map_session pc f p) = p_room_id p"
  by (cases pc; simp add: map_session_def)+

lemma room_latch_ok:
  assumes ok: "room_ok h rid r" and l: "room_latch h uf addr r = (Some (p, pc), h', r')"
  shows "room_ok h' rid r'" and "p < length h" "p_room_id (deref h p) = rid"
    and "h' = modify p (map_session pc (\<lambda>ms. latch_address ms addr)) h"
    and "by_ufrag r uf = Some (p, pc)" "by_addr r' addr = Some (p, pc)" "participants r' = participants r"
proof -
  note D = room_okD [OF ok]
  show bu: "by_ufrag r uf = Some (p, pc)"
    and h': "h' = modify p (map_session pc (\<lambda>ms. latch_address ms addr)) h"
    using l by (auto simp: room_latch_def Let_def split: option.splits prod.splits)
  obtain ba where r': "r' = r\<lparr>by_addr := ba(addr \<mapsto> (p, pc))\<rparr>"
    and ba: "\<And>a v. ba a = Some v \<Longrightarrow> by_addr r a = Some v \<and>
        (ms_address (session (deref h p) pc) = Some a \<longrightarrow> a = addr)"
  proof (cases "ms_address (session (deref h p) pc)")
    case None
    then show ?thesis using l that [of "by_addr r"] by (simp add: room_latch_def Let_def bu)
  next
    case (Some old)
    let ?ba = "if old \<noteq> addr then (by_addr r)(old := None) else by_addr r"
    have "r' = r\<lparr>by_addr := ?ba(addr \<mapsto> (p, pc))\<rparr>"
      using l by (simp add: room_latch_def Let_def bu Some)
    moreover have "?ba a = Some v \<Longrightarrow> by_addr r a = Some v \<and>
        (ms_address (session (deref h p) pc) = Some a \<longrightarrow> a = addr)" for a v
      by (cases "old = addr") (auto simp: Some split: if_splits)
    ultimately show ?thesis by (rule that)
  qed
  show "by_addr r' addr = Some (p, pc)" "participants r' = participants r" by (simp_all add: r')
  have mem: "map_of (participants r) (p_user_id (deref h p)) = Some p" using D(8) [OF bu] .
  show lt: "p < length h" and "p_room_id (deref h p) = rid" using D(5,7) [OF mem] by auto
  have d: "deref h' q = (if q = p then map_session pc (\<lambda>ms. latch_address ms addr) (deref h p) else deref h q)" for q
    using lt by (simp add: h' deref_modify)
  have id: "p_user_id (deref h' q) = p_user_id (deref h q)" "p_room_id (deref h' q) = p_room_id (deref h q)" for q
    by (simp_all add: d)
  have uf: "ms_ufrag (session (deref h' q) k) = ms_ufrag (session (deref h q) k)" for q k
    by (simp add: d session_map_session latch_address_def)
  have ad: "ms_address (session (deref h' q) k) =
      (if q = p \<and> k = pc then Some addr else ms_address (session (deref h q) k))" for q k
    by (simp add: d session_map_session latch_address_def)
  have "by_ufrag r' u = Some (q, k) \<Longrightarrow> map_of (participants r') (p_user_id (deref h' q)) = Some q \<and>
      ms_ufrag (session (deref h' q) k) = u" for u q k
    using D(8,9) [of u q k] by (simp add: r' id uf)
  moreover have "by_addr r' a = Some (q, k) \<Longrightarrow> map_of (participants r') (p_user_id (deref h' q)) = Some q \<and>
      ms_address (session (deref h' q) k) = Some a" for a q k
  proof (cases "a = addr")
    case True
    then show "by_addr r' a = Some (q, k) \<Longrightarrow> ?thesis" using mem by (auto simp: r' id ad)
  next
    case False
    assume "by_addr r' a = Some (q, k)"
    then have b: "ba a = Some (q, k)" using False by (simp add: r')
    then have "by_addr r a = Some (q, k)" and "ms_address (session (deref h p) pc) \<noteq> Some a"
      using ba False by auto
    then show ?thesis using D(10,11) [of a q k] by (auto simp: r' id ad)
  qed
  moreover have "map_of (participants r') u = Some q \<Longrightarrow> q < length h' \<and> p_user_id (deref h' q) = u \<and> p_room_id (deref h' q) = rid" for u q
    using D(5-7) [of u q] id by (simp add: r' h')
  ultimately show "room_ok h' rid r'" unfolding room_ok_def using D(1-4) by (simp add: r')
qed

subsection \<open>The hub operations\<close>

lemma hub_getE:
  assumes "hub_get hb rid = Inr r"
  shows "map_of (rooms hb) rid = Some r"
  using assms by (simp add: hub_get_def split: option.splits)

lemma hub_create_ok: "hub_ok hb \<Longrightarrow> hub_ok (snd (hub_create rid a v nm cap mode created hb))"
  by (simp add: hub_create_def Let_def hub_ok_put_room room_ok_new)

lemma add_participant_ok:
  assumes ok: "hub_ok hb" and p: "p < length (heap hb)" "p_room_id (deref (heap hb) p) = rid"
  shows "hub_ok (snd (add_participant rid p hb)) \<and> heap (snd (add_participant rid p hb)) = heap hb"
proof (cases "hub_get hb rid")
  case (Inr r)
  obtain res r' where a: "room_add_participant (heap hb) p r = (res, r')" by fastforce
  have "room_ok (heap hb) rid r'"
    using room_add_ok [OF hub_okD(2) [OF ok hub_getE [OF Inr]] p a] .
  then show ?thesis using ok
    by (cases res) (simp_all add: add_participant_def Inr a hub_ok_put_room)
qed (simp add: add_participant_def ok)

lemma remove_participant_ok:
  assumes ok: "hub_ok hb"
  shows "hub_ok (snd (remove_participant rid uid hb)) \<and> heap (snd (remove_participant rid uid hb)) = heap hb"
proof (cases "hub_get hb rid")
  case (Inr r)
  obtain res r' where a: "room_remove_participant (heap hb) uid r = (res, r')" by fastforce
  have "room_ok (heap hb) rid r'"
    using room_remove_ok [OF hub_okD(2) [OF ok hub_getE [OF Inr]] a] .
  then show ?thesis using ok
    by (cases res) (simp_all add: remove_participant_def Inr a hub_ok_put_room)
qed (simp add: remove_participant_def ok)

lemma latch_by_ufrag_cases [consumes 1]:
  assumes ok: "hub_ok hb"
  obtains (miss) "latch_by_ufrag uf addr hb = (None, hb)"
  | (hit) rid r p pc r' where
      "ufrag_index hb uf = Some rid" "map_of (rooms hb) rid = Some r" "by_ufrag r uf = Some (p, pc)"
      "p < length (heap hb)" "p_room_id (deref (heap hb) p) = rid"
      "room_latch (heap hb) uf addr r =
         (Some (p, pc), modify p (map_session pc (\<lambda>ms. latch_address ms addr)) (heap hb), r')"
      "latch_by_ufrag uf addr hb = (Some (p, pc, rid), (put_room rid r' hb)
         \<lparr>heap := modify p (map_session pc (\<lambda>ms. latch_address ms addr)) (heap hb),
          addr_index := (addr_index hb)(addr \<mapsto> rid)\<rparr>)"
proof (cases "latch_by_ufrag uf addr hb = (None, hb)")
  case False
  then obtain rid r p pc h' r' where 1: "ufrag_index hb uf = Some rid" "map_of (rooms hb) rid = Some r"
    and l: "room_latch (heap hb) uf addr r = (Some (p, pc), h', r')"
    by (auto simp: latch_by_ufrag_def split: option.splits prod.splits)
  note L = room_latch_ok [OF hub_okD(2) [OF ok 1(2)] l]
  show ?thesis
    by (rule hit [OF 1 L(5,2,3)]) (use l 1 in \<open>simp_all add: L(4) latch_by_ufrag_def\<close>)
qed (rule miss)

lemma latch_by_ufrag_ok:
  assumes ok: "hub_ok hb"
  shows "hub_ok (snd (latch_by_ufrag uf addr hb))"
  using ok
proof (cases rule: latch_by_ufrag_cases [where uf = uf and addr = addr])
  case miss
  then show ?thesis using ok by simp
next
  case (hit rid r p pc r')
  let ?h' = "modify p (map_session pc (\<lambda>ms. latch_address ms addr)) (heap hb)"
  let ?hb' = "(put_room rid r' hb)\<lparr>heap := ?h', addr_index := (addr_index hb)(addr \<mapsto> rid)\<rparr>"
  have new: "room_ok ?h' rid r'" using room_latch_ok(1) [OF hub_okD(2) [OF ok hit(2)] hit(6)] .
  have other: "room_ok ?h' rid2 r2" if r2: "map_of (rooms hb) rid2 = Some r2" and ne: "rid2 \<noteq> rid" for rid2 r2
  proof -
    note D = room_okD [OF hub_okD(2) [OF ok r2]]
    have np: "q \<noteq> p" if "map_of (participants r2) u = Some q" for u q
      using D(7) [OF that] hit(5) ne by auto
    have d: "deref ?h' q = deref (heap hb) q" if "q \<noteq> p" for q
      using that hit(4) by (simp add: deref_modify)
    have "by_ufrag r2 u = Some (q, k) \<Longrightarrow> map_of (participants r2) (p_user_id (deref ?h' q)) = Some q \<and>
        ms_ufrag (session (deref ?h' q) k) = u" for u q k
      using D(8,9) [of u q k] np d by metis
    moreover have "by_addr r2 a = Some (q, k) \<Longrightarrow> map_of (participants r2) (p_user_id (deref ?h' q)) = Some q \<and>
        ms_address (session (deref ?h' q) k) = Some a" for a q k
      using D(10,11) [of a q k] np d by metis
    moreover have "map_of (participants r2) u = Some q \<Longrightarrow>
        q < length ?h' \<and> p_user_id (deref ?h' q) = u \<and> p_room_id (deref ?h' q) = rid2" for u q
      using D(5-7) [of u q] np d by (metis length_modify)
    ultimately show ?thesis unfolding room_ok_def using D(1-4) by blast
  qed
  have "map_of (rooms ?hb') = (map_of (rooms hb))(rid \<mapsto> r')" "distinct (map fst (rooms ?hb'))" "heap ?hb' = ?h'"
    using hub_okD(1) [OF ok] by (simp_all add: put_room_def distinct_update)
  then have "hub_ok ?hb'" unfolding hub_ok_def using new other by (simp only:) (metis fun_upd_apply option.inject)
  then show ?thesis using hit(7) by simp
qed

lemma reap_users_ok: "hub_ok hb \<Longrightarrow> hub_ok (snd (reap_users rid uids hb)) \<and> heap (snd (reap_users rid uids hb)) = heap hb"
proof (induction rid uids hb rule: reap_users.induct)
  case (2 rid uid uids hb)
  obtain res hb1 where r: "remove_participant rid uid hb = (res, hb1)" by fastforce
  then have 1: "hub_ok hb1 \<and> heap hb1 = heap hb" using remove_participant_ok [OF "2.prems", of rid uid] by simp
  show ?case
  proof (cases res)
    case (Inl e)
    then show ?thesis using "2.IH"(1) [OF r [symmetric] Inl] 1 by (simp add: r)
  next
    case (Inr p)
    then show ?thesis using "2.IH"(2) [OF r [symmetric] Inr] 1
      by (cases "reap_users rid uids hb1") (simp add: r)
  qed
qed simp

lemma reap_rooms_ok: "hub_ok hb \<Longrightarrow> hub_ok (snd (reap_rooms now t rids hb)) \<and> heap (snd (reap_rooms now t rids hb)) = heap hb"
proof (induction now t rids hb rule: reap_rooms.induct)
  case (2 now t rid rids hb)
  show ?case
  proof (cases "map_of (rooms hb) rid")
    case None
    then show ?thesis using "2.IH"(1) [OF None "2.prems"] by simp
  next
    case (Some r)
    let ?z = "map fst (filter (\<lambda>(uid, p). is_zombie now t (deref (heap hb) p)) (participants r))"
    obtain reaped hb1 where u: "reap_users rid ?z hb = (reaped, hb1)" by fastforce
    then have "hub_ok hb1 \<and> heap hb1 = heap hb" using reap_users_ok [OF "2.prems", of rid ?z] by simp
    obtain more hb2 where m: "reap_rooms now t rids hb1 = (more, hb2)" by fastforce
    have "hub_ok hb2 \<and> heap hb2 = heap hb1"
      using "2.IH"(2) [OF Some refl u [symmetric] refl] \<open>hub_ok hb1 \<and> heap hb1 = heap hb\<close> by (simp add: m)
    then show ?thesis using \<open>hub_ok hb1 \<and> heap hb1 = heap hb\<close> by (simp add: Some u m Let_def)
  qed
qed simp

lemma remove_room_ok:
  assumes "hub_ok hb" shows "hub_ok (snd (remove_room rid hb))"
proof (cases "map_of (rooms hb) rid")
  case (Some r)
  have f: "hub_ok (foldl (\<lambda>hb (uid, p). unindex (deref (heap hb) p) hb) hb0 ps) = hub_ok hb0" for hb0 ps
  proof (induction ps arbitrary: hb0)
    case (Cons x ps)
    show ?case by (cases x) (simp only: foldl_Cons prod.case Cons unindex_fields)
  qed simp
  have "hub_ok (hb\<lparr>rooms := AList.delete rid (rooms hb)\<rparr>)"
  proof -
    have "rooms (hb\<lparr>rooms := AList.delete rid (rooms hb)\<rparr>) = AList.delete rid (rooms hb)"
      "heap (hb\<lparr>rooms := AList.delete rid (rooms hb)\<rparr>) = heap hb" by simp_all
    then show ?thesis using assms unfolding hub_ok_def
      by (metis distinct_delete fun_upd_apply map_of_delete_alist option.discI)
  qed
  then show ?thesis by (simp add: remove_room_def Some f)
qed (simp add: remove_room_def assms)

section \<open>Runs of the hub\<close>

text \<open>A new reference: \<open>Arc::new\<close>.\<close>

definition alloc_participant :: "'c participant \<Rightarrow> 'c hub \<Rightarrow> pref \<times> 'c hub" where
  "alloc_participant p hb = (length (heap hb), hb\<lparr>heap := heap hb @ [p]\<rparr>)"

lemma alloc_participant_ok:
  assumes "hub_ok hb" and "alloc_participant p hb = (q, hb')"
  shows "hub_ok hb'" "q < length (heap hb')" "deref (heap hb') q = p" "rooms hb' = rooms hb"
  using assms hub_ok_sim [OF assms(1), of "heap hb @ [p]"]
  by (auto simp: alloc_participant_def deref_def)

datatype hub_event =
    HCreate string u32 u32 string "nat option" room_mode u64
  | HJoin string string string string string string nat u64
  | HLeave string string
  | HLatch string sockaddr
  | HReap u64 u64
  | HDrop string

fun hub_step :: "'c hub \<Rightarrow> hub_event \<Rightarrow> 'c hub" where
  "hub_step hb (HCreate rid a v nm cap mode now) = snd (hub_create rid a v nm cap mode now hb)"
| "hub_step hb (HJoin rid uid pu pp su sp tx now) =
     (case alloc_participant (participant_new uid rid pu pp su sp tx now) hb of
        (p, hb) \<Rightarrow> snd (add_participant rid p hb))"
| "hub_step hb (HLeave rid uid) = snd (remove_participant rid uid hb)"
| "hub_step hb (HLatch uf addr) = snd (latch_by_ufrag uf addr hb)"
| "hub_step hb (HReap now timeout) = snd (reap_zombies now timeout hb)"
| "hub_step hb (HDrop rid) = snd (remove_room rid hb)"

lemma hub_step_ok: "hub_ok hb \<Longrightarrow> hub_ok (hub_step hb e)"
proof (cases e)
  case (HJoin rid uid pu pp su sp tx now)
  assume ok: "hub_ok hb"
  obtain q hb' where a: "alloc_participant (participant_new uid rid pu pp su sp tx now) hb = (q, hb')" by fastforce
  note A = alloc_participant_ok [OF ok a]
  have "p_room_id (deref (heap hb') q) = rid" by (simp add: A(3) participant_new_def)
  then show ?thesis using add_participant_ok [OF A(1,2)] by (simp add: HJoin a)
qed (simp_all add: hub_create_ok remove_participant_ok latch_by_ufrag_ok reap_zombies_def reap_rooms_ok remove_room_ok)

interpretation hubm: preserved hub_step hub_ok
  by unfold_locales (rule hub_step_ok)

text \<open>
  C36: the media path never finds a stranger. After any sequence of room creations, joins,
  departures, address latches, zombie sweeps and room removals, a participant found by a
  source address or by a STUN fragment is a current member of the room found with it,
  registered under its own user identifier, and the address (the fragment) is the one of
  exactly the session that was found; and no room has more members than its capacity, at
  most \<open>1000\<close>.
\<close>

theorem hub_lookup_sound:
  fixes es :: "hub_event list"
  defines "hb \<equiv> foldl hub_step hub_new es :: 'c hub"
  shows "(find_by_addr hb a = Some (p, pc, rid) \<longrightarrow>
      (\<exists>r. map_of (rooms hb) rid = Some r \<and> get_participant r (p_user_id (deref (heap hb) p)) = Some p \<and>
           ms_address (session (deref (heap hb) p) pc) = Some a \<and> p_room_id (deref (heap hb) p) = rid)) \<and>
    (find_by_ufrag hb uf = Some (p, pc, rid) \<longrightarrow>
      (\<exists>r. map_of (rooms hb) rid = Some r \<and> get_participant r (p_user_id (deref (heap hb) p)) = Some p \<and>
           ms_ufrag (session (deref (heap hb) p) pc) = uf \<and> p_room_id (deref (heap hb) p) = rid)) \<and>
    (map_of (rooms hb) rid = Some r \<longrightarrow> participant_count r \<le> r_capacity r \<and> r_capacity r \<le> 1000)"
proof -
  have ok: "hub_ok hb" unfolding hb_def by (rule hubm.run_invar) simp
  have addr: "get_participant r (p_user_id (deref (heap hb) p)) = Some p \<and>
      ms_address (session (deref (heap hb) p) pc) = Some a \<and> p_room_id (deref (heap hb) p) = rid"
    if "map_of (rooms hb) rid = Some r" "by_addr r a = Some (p, pc)" for r
  proof -
    note D = room_okD [OF hub_okD(2) [OF ok that(1)]]
    show ?thesis using D(10,11) [OF that(2)] D(7) [OF D(10) [OF that(2)]] by (simp add: get_participant_def)
  qed
  have uf: "get_participant r (p_user_id (deref (heap hb) p)) = Some p \<and>
      ms_ufrag (session (deref (heap hb) p) pc) = uf \<and> p_room_id (deref (heap hb) p) = rid"
    if "map_of (rooms hb) rid = Some r" "by_ufrag r uf = Some (p, pc)" for r
  proof -
    note D = room_okD [OF hub_okD(2) [OF ok that(1)]]
    show ?thesis using D(8,9) [OF that(2)] D(7) [OF D(8) [OF that(2)]] by (simp add: get_participant_def)
  qed
  have "find_by_addr hb a = Some (p, pc, rid) \<Longrightarrow> \<exists>r. map_of (rooms hb) rid = Some r \<and> by_addr r a = Some (p, pc)"
    by (auto simp: find_by_addr_def get_by_addr_def split: Option.bind_splits)
  moreover have "find_by_ufrag hb uf = Some (p, pc, rid) \<Longrightarrow> \<exists>r. map_of (rooms hb) rid = Some r \<and> by_ufrag r uf = Some (p, pc)"
    by (auto simp: find_by_ufrag_def get_by_ufrag_def split: Option.bind_splits)
  moreover have "map_of (rooms hb) rid = Some r \<Longrightarrow> participant_count r \<le> r_capacity r \<and> r_capacity r \<le> 1000"
    using room_okD(3,4) [OF hub_okD(2) [OF ok]] by (simp add: participant_count_def ROOM_MAX_CAPACITY_def)
  ultimately show ?thesis using addr uf by meson
qed

definition demo_run :: "hub_event list" where
  "demo_run = [HCreate ''r'' 1 2 ''room'' (Some 2) Ptt 5,
     HJoin ''r'' ''alice'' ''aaaa'' ''pw1'' ''bbbb'' ''pw2'' 0 10,
     HLatch ''aaaa'' (V4 7 100)]"

lemmas demo_defs = demo_run_def hub_create_def room_new_def hub_new_def put_room_def alloc_participant_def
      add_participant_def hub_get_def room_add_participant_def deref_def participant_new_def
      media_session_new_def latch_by_ufrag_def room_latch_def session_def Let_def find_by_addr_def
      get_by_addr_def ROOM_MAX_CAPACITY_def
  modify_def map_session_def

lemma demo_lookup: "find_by_addr (foldl hub_step hub_new demo_run) (V4 7 100) = Some (0, Publish, ''r'')"
  by (simp add: demo_defs)

theorem hub_lookup_sound_witness:
  "\<exists>r. map_of (rooms (foldl hub_step (hub_new :: nat hub) demo_run)) ''r'' = Some r \<and>
     get_participant r (p_user_id (deref (heap (foldl hub_step (hub_new :: nat hub) demo_run)) 0)) = Some 0"
  using hub_lookup_sound [of demo_run "V4 7 100" 0 Publish "''r''"] demo_lookup by blast

section \<open>Departure, arrival, sweep\<close>

text \<open>The member of a room with a user identifier.\<close>

definition member :: "'c hub \<Rightarrow> string \<Rightarrow> string \<Rightarrow> pref option" where
  "member hb rid uid = Option.bind (map_of (rooms hb) rid) (\<lambda>r. get_participant r uid)"

lemma member_Some_iff:
  "member hb rid uid = Some p \<longleftrightarrow> (\<exists>r. map_of (rooms hb) rid = Some r \<and> map_of (participants r) uid = Some p)"
  by (auto simp: member_def get_participant_def bind_eq_Some_conv simp del: map_of_eq_Some_iff)

lemma member_ok:
  assumes "hub_ok hb" and "member hb rid uid = Some p"
  shows "p < length (heap hb)" "p_user_id (deref (heap hb) p) = uid" "p_room_id (deref (heap hb) p) = rid"
proof -
  obtain r where "map_of (rooms hb) rid = Some r" "map_of (participants r) uid = Some p"
    using assms(2) by (auto simp: member_Some_iff simp del: map_of_eq_Some_iff)
  then show "p < length (heap hb)" "p_user_id (deref (heap hb) p) = uid" "p_room_id (deref (heap hb) p) = rid"
    using room_okD(5-7) [OF hub_okD(2) [OF assms(1)]] by blast+
qed

lemma found_by_addr:
  assumes ok: "hub_ok hb" and f: "find_by_addr hb a = Some (p, pc, rid)"
  shows "member hb rid (p_user_id (deref (heap hb) p)) = Some p"
    and "ms_address (session (deref (heap hb) p) pc) = Some a"
proof -
  obtain r where r: "map_of (rooms hb) rid = Some r" "by_addr r a = Some (p, pc)"
    using f by (auto simp: find_by_addr_def get_by_addr_def bind_eq_Some_conv simp del: map_of_eq_Some_iff)
  note D = room_okD [OF hub_okD(2) [OF ok r(1)]]
  show "member hb rid (p_user_id (deref (heap hb) p)) = Some p"
    using D(10) [OF r(2)] r(1) by (simp add: member_Some_iff del: map_of_eq_Some_iff)
  show "ms_address (session (deref (heap hb) p) pc) = Some a" by (rule D(11) [OF r(2)])
qed

lemma found_by_ufrag:
  assumes ok: "hub_ok hb" and f: "find_by_ufrag hb uf = Some (p, pc, rid)"
  shows "member hb rid (p_user_id (deref (heap hb) p)) = Some p"
proof -
  obtain r where r: "map_of (rooms hb) rid = Some r" "by_ufrag r uf = Some (p, pc)"
    using f by (auto simp: find_by_ufrag_def get_by_ufrag_def bind_eq_Some_conv simp del: map_of_eq_Some_iff)
  then show ?thesis using room_okD(8) [OF hub_okD(2) [OF ok r(1)] r(2)]
    by (simp add: member_Some_iff del: map_of_eq_Some_iff)
qed

lemma remove_participant_member:
  assumes rm: "remove_participant rid uid hb = (res, hb')"
  shows "res = (case member hb rid uid of Some p \<Rightarrow> Inr p
       | None \<Rightarrow> Inl (if map_of (rooms hb) rid = None then RoomNotFound else NotInRoom))"
    and "member hb' rid' uid' = (if rid' = rid \<and> uid' = uid then None else member hb rid' uid')"
    and "(map_of (rooms hb') rid' = None) = (map_of (rooms hb) rid' = None)" and "heap hb' = heap hb"
proof -
  consider (a) "map_of (rooms hb) rid = None"
    | (b) r where "map_of (rooms hb) rid = Some r" "map_of (participants r) uid = None"
    | (c) r p where "map_of (rooms hb) rid = Some r" "map_of (participants r) uid = Some p"
    by (metis not_None_eq)
  then have "res = (case member hb rid uid of Some p \<Rightarrow> Inr p
       | None \<Rightarrow> Inl (if map_of (rooms hb) rid = None then RoomNotFound else NotInRoom)) \<and>
      member hb' rid' uid' = (if rid' = rid \<and> uid' = uid then None else member hb rid' uid') \<and>
      ((map_of (rooms hb') rid' = None) = (map_of (rooms hb) rid' = None)) \<and> heap hb' = heap hb"
  proof cases
    case a
    then show ?thesis using rm by (auto simp: remove_participant_def hub_get_def member_def)
  next
    case b
    then show ?thesis using rm
      by (auto simp: remove_participant_def hub_get_def member_def get_participant_def
          room_remove_participant_def simp del: map_of_eq_Some_iff map_of_eq_None_iff split: if_splits)
  next
    case c
    then show ?thesis using rm
      by (auto simp: remove_participant_def hub_get_def member_def get_participant_def
          room_remove_participant_def simp del: map_of_eq_Some_iff map_of_eq_None_iff split: if_splits)
  qed
  then show "res = (case member hb rid uid of Some p \<Rightarrow> Inr p
       | None \<Rightarrow> Inl (if map_of (rooms hb) rid = None then RoomNotFound else NotInRoom))"
    "member hb' rid' uid' = (if rid' = rid \<and> uid' = uid then None else member hb rid' uid')"
    "(map_of (rooms hb') rid' = None) = (map_of (rooms hb) rid' = None)" "heap hb' = heap hb"
    by blast+
qed

lemma remove_participant_gone:
  assumes ok: "hub_ok hb" and rm: "remove_participant rid uid hb = (Inr p, hb')"
  shows "find_by_addr hb' a \<noteq> Some (p, pc, rid')" "find_by_ufrag hb' uf \<noteq> Some (p, pc, rid')"
proof -
  note R = remove_participant_member [OF rm]
  have ok': "hub_ok hb'" using remove_participant_ok [OF ok, of rid uid] rm by simp
  have m: "member hb rid uid = Some p" using R(1) by (simp split: option.splits)
  have gone: "member hb' rid' (p_user_id (deref (heap hb') p)) \<noteq> Some p" for rid'
  proof
    assume m': "member hb' rid' (p_user_id (deref (heap hb') p)) = Some p"
    have "rid' = rid" using member_ok(3) [OF ok' m'] member_ok(3) [OF ok m] R(4) by simp
    moreover have "p_user_id (deref (heap hb') p) = uid" using member_ok(2) [OF ok m] R(4) by simp
    ultimately show False using m' R(2) by simp
  qed
  then show "find_by_addr hb' a \<noteq> Some (p, pc, rid')" "find_by_ufrag hb' uf \<noteq> Some (p, pc, rid')"
    using found_by_addr(1) [OF ok'] found_by_ufrag [OF ok'] by blast+
qed

text \<open>
  A departed participant is gone. Removing a user from a room succeeds exactly when the
  room exists and has the user, reports which of the two failed otherwise, and after it no
  address and no fragment leads to the removed participant any more, while every other
  membership is what it was.
\<close>

theorem departed_unreachable:
  assumes ok: "hub_ok hb" and rm: "remove_participant rid uid hb = (res, hb')"
  shows "res = (case member hb rid uid of Some p \<Rightarrow> Inr p
       | None \<Rightarrow> Inl (if map_of (rooms hb) rid = None then RoomNotFound else NotInRoom)) \<and>
    (\<forall>rid' uid'. member hb' rid' uid' = (if rid' = rid \<and> uid' = uid then None else member hb rid' uid')) \<and>
    (\<forall>p. res = Inr p \<longrightarrow> (\<forall>a uf pc rid'.
       find_by_addr hb' a \<noteq> Some (p, pc, rid') \<and> find_by_ufrag hb' uf \<noteq> Some (p, pc, rid')))"
  using remove_participant_member(1,2) [OF rm] remove_participant_gone [OF ok] rm by blast

theorem departed_unreachable_witness:
  "\<exists>hb'. remove_participant ''r'' ''alice'' (foldl hub_step (hub_new :: nat hub) demo_run) = (Inr 0, hb') \<and>
     find_by_addr hb' (V4 7 100) \<noteq> Some (0, Publish, ''r'')"
proof -
  let ?hb = "foldl hub_step (hub_new :: nat hub) demo_run"
  have ok: "hub_ok ?hb" by (rule hubm.run_invar) simp
  obtain res hb' where rm: "remove_participant ''r'' ''alice'' ?hb = (res, hb')" by fastforce
  have "member ?hb ''r'' (p_user_id (deref (heap ?hb) 0)) = Some 0" using found_by_addr(1) [OF ok demo_lookup] .
  moreover have "p_user_id (deref (heap ?hb) 0) = ''alice''"
    by (simp add: demo_defs)
  ultimately show ?thesis using departed_unreachable [OF ok rm] rm by auto
qed

lemma reap_users_spec:
  "reap_users rid uids hb = (reaped, hb') \<Longrightarrow>
   (\<forall>r q. (r, q) \<in> set reaped \<longleftrightarrow> r = rid \<and> (\<exists>uid. uid \<in> set uids \<and> member hb rid uid = Some q)) \<and>
   (\<forall>rid' uid'. member hb' rid' uid' = (if rid' = rid \<and> uid' \<in> set uids then None else member hb rid' uid')) \<and>
   (\<forall>rid'. (map_of (rooms hb') rid' = None) = (map_of (rooms hb) rid' = None))"
proof (induction uids arbitrary: hb reaped hb')
  case (Cons uid uids)
  obtain res hb1 where r: "remove_participant rid uid hb = (res, hb1)" by fastforce
  note R = remove_participant_member [OF r]
  show ?case
  proof (cases "member hb rid uid")
    case None
    then obtain e where "res = Inl e" using R(1) by simp
    then have "reap_users rid uids hb1 = (reaped, hb')" using Cons.prems r by simp
    note IH = Cons.IH [OF this, unfolded R(2,3)]
    show ?thesis
    proof (intro conjI allI)
      fix r q
      show "(r, q) \<in> set reaped \<longleftrightarrow> r = rid \<and> (\<exists>u. u \<in> set (uid # uids) \<and> member hb rid u = Some q)"
        using IH None by (metis (no_types, lifting) option.distinct(1) set_ConsD list.set_intros(2))
    next
      show "member hb' rid' uid' = (if rid' = rid \<and> uid' \<in> set (uid # uids) then None else member hb rid' uid')" for rid' uid'
        using IH [THEN conjunct2, THEN conjunct1, rule_format, of rid' uid'] by (cases "rid' = rid") auto
      show "(map_of (rooms hb') rid' = None) = (map_of (rooms hb) rid' = None)" for rid'
        using IH by blast
    qed
  next
    case (Some p)
    then have "res = Inr p" using R(1) by simp
    then obtain more where m: "reap_users rid uids hb1 = (more, hb')" "reaped = (rid, p) # more"
      using Cons.prems r by (cases "reap_users rid uids hb1") simp
    note IH = Cons.IH [OF m(1), unfolded R(2,3)]
    show ?thesis
    proof (intro conjI allI)
      fix r q
      show "(r, q) \<in> set reaped \<longleftrightarrow> r = rid \<and> (\<exists>u. u \<in> set (uid # uids) \<and> member hb rid u = Some q)"
      proof -
        have "(r, q) \<in> set more \<longleftrightarrow> r = rid \<and> (\<exists>u. u \<in> set uids \<and> u \<noteq> uid \<and> member hb rid u = Some q)"
          using IH [THEN conjunct1, rule_format, of r q] by (metis option.distinct(1))
        then show ?thesis using Some unfolding m(2) by auto
      qed
    next
      show "member hb' rid' uid' = (if rid' = rid \<and> uid' \<in> set (uid # uids) then None else member hb rid' uid')" for rid' uid'
        using IH [THEN conjunct2, THEN conjunct1, rule_format, of rid' uid'] by (cases "rid' = rid") auto
      show "(map_of (rooms hb') rid' = None) = (map_of (rooms hb) rid' = None)" for rid'
        using IH by blast
    qed
  qed
qed auto

lemma zombie_ids_iff:
  assumes "distinct (map fst ps)"
  shows "uid \<in> set (map fst (filter (\<lambda>(uid, p). Z p) ps)) \<longleftrightarrow> (\<exists>p. map_of ps uid = Some p \<and> Z p)"
  using assms by (force simp: image_iff)

lemma reap_rooms_spec:
  assumes "hub_ok hb" and "distinct rids" and "reap_rooms now t rids hb = (reaped, hb')"
  shows "(\<forall>r q. (r, q) \<in> set reaped \<longleftrightarrow>
       r \<in> set rids \<and> (\<exists>uid. member hb r uid = Some q) \<and> is_zombie now t (deref (heap hb) q)) \<and>
    (\<forall>rid uid. member hb' rid uid =
       (case member hb rid uid of None \<Rightarrow> None
        | Some p \<Rightarrow> if rid \<in> set rids \<and> is_zombie now t (deref (heap hb) p) then None else Some p))"
  using assms
proof (induction rids arbitrary: hb reaped)
  case Nil
  then show ?case by (auto split: option.splits)
next
  case (Cons rid rids)
  show ?case
  proof (cases "map_of (rooms hb) rid")
    case None
    then have "member hb rid uid = None" for uid by (simp add: member_def)
    moreover have "reap_rooms now t rids hb = (reaped, hb')" using Cons.prems(3) None by simp
    ultimately show ?thesis using Cons.IH [OF Cons.prems(1)] Cons.prems(2)
      by (auto split: option.splits)
  next
    case (Some r)
    let ?z = "map fst (filter (\<lambda>(uid, p). is_zombie now t (deref (heap hb) p)) (participants r))"
    obtain r1 hb1 where u: "reap_users rid ?z hb = (r1, hb1)" by fastforce
    obtain r2 where m: "reap_rooms now t rids hb1 = (r2, hb')" and re: "reaped = r1 @ r2"
      using Cons.prems(3) by (cases "reap_rooms now t rids hb1") (simp add: Some u Let_def)
    have hb1: "hub_ok hb1" "heap hb1 = heap hb" using reap_users_ok [OF Cons.prems(1), of rid ?z] u by simp_all
    have mem: "member hb rid uid = map_of (participants r) uid" for uid
      by (simp add: member_def Some get_participant_def)
    have z: "uid \<in> set ?z \<longleftrightarrow> (\<exists>p. member hb rid uid = Some p \<and> is_zombie now t (deref (heap hb) p))" for uid
      unfolding mem by (rule zombie_ids_iff) (rule room_okD(2) [OF hub_okD(2) [OF Cons.prems(1) Some]])
    note U = reap_users_spec [OF u, unfolded z]
    have M1: "member hb1 rid' uid' = (if rid' = rid \<and> (\<exists>p. member hb rid uid' = Some p \<and> is_zombie now t (deref (heap hb) p))
        then None else member hb rid' uid')" for rid' uid'
      using U by blast
    have S1: "(x, q) \<in> set r1 \<longleftrightarrow> x = rid \<and> (\<exists>uid. member hb rid uid = Some q) \<and> is_zombie now t (deref (heap hb) q)" for x q
      using U by (metis option.inject)
    have notin: "rid \<notin> set rids" and "distinct rids" using Cons.prems(2) by auto
    note IH = Cons.IH [OF hb1(1) \<open>distinct rids\<close> m, unfolded hb1(2)]
    have S2: "(x, q) \<in> set r2 \<longleftrightarrow> x \<in> set rids \<and> (\<exists>uid. member hb x uid = Some q) \<and> is_zombie now t (deref (heap hb) q)" for x q
    proof -
      have "x \<in> set rids \<Longrightarrow> member hb1 x uid = member hb x uid" for uid using notin by (auto simp: M1)
      then show ?thesis using IH by auto
    qed
    show ?thesis
    proof (intro conjI allI)
      show "(x, q) \<in> set reaped \<longleftrightarrow> x \<in> set (rid # rids) \<and> (\<exists>uid. member hb x uid = Some q) \<and> is_zombie now t (deref (heap hb) q)" for x q
        using S1 S2 notin by (auto simp: re)
      fix rid' uid
      show "member hb' rid' uid = (case member hb rid' uid of None \<Rightarrow> None
          | Some p \<Rightarrow> if rid' \<in> set (rid # rids) \<and> is_zombie now t (deref (heap hb) p) then None else Some p)"
        using IH [THEN conjunct2, rule_format, of rid' uid] notin
        by (cases "member hb rid' uid") (auto simp: M1)
    qed
  qed
qed

text \<open>
  The zombie sweep is exact. A sweep at a time reports and removes, from every room,
  exactly the members that have been seen at some time and not within the timeout before
  now (a clock behind the last sign of life removes nobody), and keeps everybody else.
\<close>

theorem reap_zombies_spec:
  assumes "hub_ok hb" and "reap_zombies now timeout hb = (reaped, hb')"
  shows "set reaped = {(rid, p) |rid uid p. member hb rid uid = Some p \<and>
      0 < last_seen (deref (heap hb) p) \<and> unat (last_seen (deref (heap hb) p)) + unat timeout < unat now} \<and>
    (\<forall>rid uid. member hb' rid uid =
       (case member hb rid uid of None \<Rightarrow> None
        | Some p \<Rightarrow> if 0 < last_seen (deref (heap hb) p) \<and> unat (last_seen (deref (heap hb) p)) + unat timeout < unat now
            then None else Some p))"
proof -
  have d: "distinct (map fst (rooms hb))" using hub_okD(1) [OF assms(1)] .
  have m: "member hb rid uid = Some p \<Longrightarrow> rid \<in> set (map fst (rooms hb))" for rid uid p
    by (auto simp: member_Some_iff simp del: map_of_eq_Some_iff dest: map_of_SomeD) (metis fst_conv image_eqI map_of_SomeD)
  have z: "is_zombie now timeout q \<longleftrightarrow> 0 < last_seen q \<and> unat (last_seen q) + unat timeout < unat now" for q :: "'a participant"
    by (simp add: is_zombie_def sat_sub_greater_iff)
  note R = reap_rooms_spec [OF assms(1) d assms(2) [unfolded reap_zombies_def], unfolded z]
  show ?thesis
  proof (intro conjI allI)
    show "set reaped = {(rid, p) |rid uid p. member hb rid uid = Some p \<and>
      0 < last_seen (deref (heap hb) p) \<and> unat (last_seen (deref (heap hb) p)) + unat timeout < unat now}"
      using R m by auto
    fix rid uid
    show "member hb' rid uid =
       (case member hb rid uid of None \<Rightarrow> None
        | Some p \<Rightarrow> if 0 < last_seen (deref (heap hb) p) \<and> unat (last_seen (deref (heap hb) p)) + unat timeout < unat now
            then None else Some p)"
      using R m by (auto split: option.splits)
  qed
qed

theorem reap_zombies_spec_witness:
  "\<exists>reaped hb'. reap_zombies 200000 120000 (foldl hub_step (hub_new :: nat hub) demo_run) = (reaped, hb') \<and>
     member hb' ''r'' ''alice'' = None"
proof -
  let ?hb = "foldl hub_step (hub_new :: nat hub) demo_run"
  have ok: "hub_ok ?hb" by (rule hubm.run_invar) simp
  obtain reaped hb' where r: "reap_zombies 200000 120000 ?hb = (reaped, hb')" by fastforce
  have "p_user_id (deref (heap ?hb) 0) = ''alice'' \<and> last_seen (deref (heap ?hb) 0) = 10"
    by (simp add: demo_defs)
  moreover have "member ?hb ''r'' (p_user_id (deref (heap ?hb) 0)) = Some 0" using found_by_addr(1) [OF ok demo_lookup] .
  ultimately show ?thesis using reap_zombies_spec [OF ok r] r by auto
qed

text \<open>
  Joining and connecting. A user who is not yet in an existing room with a free place
  joins it (with two different STUN fragments); then a connectivity check with either
  fragment, from any address, latches the session of that fragment, and from then on
  packets from this address are attributed to this user and this session.
\<close>

theorem join_then_connect:
  assumes r: "map_of (rooms hb) rid = Some r" and cap: "participant_count r < r_capacity r"
    and new: "get_participant r uid = None" and frag: "pu \<noteq> su"
    and a: "alloc_participant (participant_new uid rid pu pp su sp tx now) hb = (p, hb1)"
    and j: "add_participant rid p hb1 = (res, hb2)"
  shows "res = Inr () \<and> member hb2 rid uid = Some p \<and>
    (\<forall>pc addr. case latch_by_ufrag (case pc of Publish \<Rightarrow> pu | Subscribe \<Rightarrow> su) addr hb2 of
       (found, hb3) \<Rightarrow> found = Some (p, pc, rid) \<and> find_by_addr hb3 addr = Some (p, pc, rid))"
proof -
  let ?q = "participant_new uid rid pu pp su sp tx now"
  have hb1: "hb1 = hb\<lparr>heap := heap hb @ [?q]\<rparr>" "p = length (heap hb)" "deref (heap hb1) p = ?q"
    using a by (auto simp: alloc_participant_def deref_def)
  have q: "p_user_id ?q = uid" "ms_ufrag (publish ?q) = pu" "ms_ufrag (subscribe ?q) = su"
    by (simp_all add: participant_new_def media_session_new_def)
  let ?r' = "r\<lparr>by_ufrag := (by_ufrag r)(pu \<mapsto> (p, Publish), su \<mapsto> (p, Subscribe)),
      participants := AList.update uid p (participants r)\<rparr>"
  have g: "hub_get hb1 rid = Inr r" using r by (simp add: hub_get_def hb1)
  have add: "room_add_participant (heap hb1) p r = (Inr (), ?r')"
    using cap new by (simp add: room_add_participant_def hb1(3) q participant_count_def get_participant_def)
  have res: "res = Inr ()" and hb2: "hb2 = (put_room rid ?r' hb1)
      \<lparr>ufrag_index := (ufrag_index hb1)(pu \<mapsto> rid, su \<mapsto> rid)\<rparr>"
    using j by (simp_all add: add_participant_def g add hb1(3) q)
  have mem: "member hb2 rid uid = Some p" by (simp add: member_def hb2 get_participant_def)
  have "latch_by_ufrag (case pc of Publish \<Rightarrow> pu | Subscribe \<Rightarrow> su) addr hb2 = (found, hb3) \<Longrightarrow>
      found = Some (p, pc, rid) \<and> find_by_addr hb3 addr = Some (p, pc, rid)" for pc addr found hb3
    using frag by (cases pc) (auto simp: latch_by_ufrag_def hb2 room_latch_def Let_def find_by_addr_def get_by_addr_def
        split: option.splits)
  then show ?thesis using res mem by (auto split: prod.splits)
qed

theorem join_then_connect_witness:
  "\<exists>hb1 hb2. alloc_participant (participant_new ''bob'' ''r'' ''cc'' ''x'' ''dd'' ''y'' 1 5)
       (snd (hub_create ''r'' 1 2 ''room'' (Some 2) Ptt 5 (hub_new :: nat hub))) = (0, hb1) \<and>
     add_participant ''r'' 0 hb1 = (Inr (), hb2) \<and>
     fst (latch_by_ufrag ''dd'' (V4 1 2) hb2) = Some (0, Subscribe, ''r'')"
proof -
  let ?hb = "snd (hub_create ''r'' 1 2 ''room'' (Some 2) Ptt 5 (hub_new :: nat hub))"
  let ?r = "room_new 1 2 ''r'' ''room'' (Some 2) Ptt 5"
  have r: "map_of (rooms ?hb) ''r'' = Some ?r" by (simp add: hub_create_def hub_new_def Let_def)
  have c: "participant_count ?r < r_capacity ?r" "get_participant ?r ''bob'' = None"
    by (simp_all add: participant_count_def get_participant_def room_new_def ROOM_MAX_CAPACITY_def)
  obtain hb1 where a: "alloc_participant (participant_new ''bob'' ''r'' ''cc'' ''x'' ''dd'' ''y'' 1 5) ?hb = (0, hb1)"
    by (auto simp: alloc_participant_def hub_create_def hub_new_def Let_def put_room_def)
  obtain res hb2 where j: "add_participant ''r'' 0 hb1 = (res, hb2)" by fastforce
  have f: "''cc'' \<noteq> ''dd''" by simp
  note T = join_then_connect [OF r c f a j]
  have "fst (latch_by_ufrag ''dd'' (V4 1 2) hb2) = Some (0, Subscribe, ''r'')"
    using T [THEN conjunct2, THEN conjunct2, rule_format, of Subscribe "V4 1 2"]
    by (simp split: prod.splits)
  then show ?thesis using a j T by blast
qed

text \<open>
  A rebound address is never forgotten. When a session that is latched to one address
  is latched to another, the room forgets the old address but the hub's reverse index
  keeps its entry; lookups of the old address fail, and the entry stays when the
  participant leaves.
\<close>

theorem rebind_leaks_address:
  assumes ok: "hub_ok hb" and l1: "latch_by_ufrag uf a1 hb = (Some (p, pc, rid), hb1)"
    and l2: "latch_by_ufrag uf a2 hb1 = (Some (p, pc, rid), hb2)" and ne: "a1 \<noteq> a2"
    and other: "ms_address (session (deref (heap hb1) p) (case pc of Publish \<Rightarrow> Subscribe | Subscribe \<Rightarrow> Publish)) \<noteq> Some a1"
    and rm: "remove_participant rid (p_user_id (deref (heap hb) p)) hb2 = (Inr p, hb3)"
  shows "find_by_addr hb2 a1 = None \<and> addr_index hb2 a1 = Some rid \<and> addr_index hb3 a1 = Some rid"
proof -
  have ok1: "hub_ok hb1" and ok2: "hub_ok hb2"
    using latch_by_ufrag_ok [OF ok, of uf a1] latch_by_ufrag_ok [of hb1 uf a2] l1 l2 by auto
  obtain r r1 where h1: "map_of (rooms hb) rid = Some r" "p < length (heap hb)"
      "room_latch (heap hb) uf a1 r = (Some (p, pc), heap hb1, r1)" "addr_index hb1 = (addr_index hb)(a1 \<mapsto> rid)"
      "heap hb1 = modify p (map_session pc (\<lambda>ms. latch_address ms a1)) (heap hb)"
    using ok l1 by (cases rule: latch_by_ufrag_cases [where uf = uf and addr = a1]) auto
  obtain r2 r2' where h2: "map_of (rooms hb1) rid = Some r2" "p < length (heap hb1)"
      "room_latch (heap hb1) uf a2 r2 = (Some (p, pc), heap hb2, r2')" "addr_index hb2 = (addr_index hb1)(a2 \<mapsto> rid)"
      "heap hb2 = modify p (map_session pc (\<lambda>ms. latch_address ms a2)) (heap hb1)" "map_of (rooms hb2) rid = Some r2'"
    using ok1 l2 by (cases rule: latch_by_ufrag_cases [where uf = uf and addr = a2]) auto
  have s1: "ms_address (session (deref (heap hb1) p) pc) = Some a1"
    using h1(2) by (simp add: h1(5) deref_modify session_map_session latch_address_def)
  have idx: "addr_index hb2 a1 = Some rid" using ne by (simp add: h2(4) h1(4))
  have "by_addr r2' a1 = None"
    using h2(3) ne s1 by (auto simp: room_latch_def Let_def split: option.splits prod.splits)
  then have none: "find_by_addr hb2 a1 = None"
    by (simp add: find_by_addr_def idx h2(6) get_by_addr_def)
  have addrs: "ms_address (session (deref (heap hb2) p) k) \<noteq> Some a1" for k
    using other h2(2) ne by (cases pc; cases k) (auto simp: h2(5) deref_modify session_map_session latch_address_def)
  have "addr_index hb3 a1 = addr_index hb2 a1"
    using rm addrs [of Publish] addrs [of Subscribe]
    by (auto simp: remove_participant_def unindex_def session_def forget_addr_def split: sum.splits prod.splits option.splits)
  then show ?thesis using none idx by simp
qed

theorem rebind_leaks_address_witness:
  "\<exists>hb2. latch_by_ufrag ''aaaa'' (V4 8 100) (foldl hub_step (hub_new :: nat hub) demo_run) = (Some (0, Publish, ''r''), hb2) \<and>
     find_by_addr hb2 (V4 7 100) = None \<and> addr_index hb2 (V4 7 100) = Some ''r''"
proof -
  let ?hb = "foldl hub_step (hub_new :: nat hub) (take 2 demo_run)"
  let ?hb1 = "foldl hub_step (hub_new :: nat hub) demo_run"
  have ok: "hub_ok ?hb" by (rule hubm.run_invar) simp
  have l1: "latch_by_ufrag ''aaaa'' (V4 7 100) ?hb = (Some (0, Publish, ''r''), ?hb1)"
    by (simp add: demo_defs)
  obtain hb2 where l2: "latch_by_ufrag ''aaaa'' (V4 8 100) ?hb1 = (Some (0, Publish, ''r''), hb2)"
    by (simp add: demo_defs)
  have o: "ms_address (session (deref (heap ?hb1) 0) (case Publish of Publish \<Rightarrow> Subscribe | Subscribe \<Rightarrow> Publish)) \<noteq> Some (V4 7 100)"
    by (simp add: demo_defs)
  have u: "p_user_id (deref (heap ?hb) 0) = ''alice''" by (simp add: demo_defs)
  have ok1: "hub_ok ?hb1" by (rule hubm.run_invar) simp
  have m2: "member hb2 ''r'' ''alice'' = Some 0"
    using l2 by (auto simp: member_def demo_defs get_participant_def)
  obtain res hb3 where r3: "remove_participant ''r'' ''alice'' hb2 = (res, hb3)" by fastforce
  have rm: "remove_participant ''r'' (p_user_id (deref (heap ?hb) 0)) hb2 = (Inr 0, hb3)"
    using remove_participant_member(1) [OF r3] r3 m2 u by simp
  have ne: "V4 7 100 \<noteq> V4 8 100" by simp
  show ?thesis using rebind_leaks_address [OF ok l1 l2 ne o rm] l2 by blast
qed

end
