(* ===== verification/Metrics.thy ===== *)
theory Metrics
  imports Config
begin

text \<open>
  The statistics of \<open>src/metrics/mod.rs\<close>: timing accumulators, counters and the fan-out
  distribution, and the report that empties them. The atomics are plain numbers: every
  method is one step. JSON values are here because the report is the first to build one.
\<close>

section \<open>JSON values\<close>

datatype json =
    JNull | JBool bool | JNum int | JStr string | JArr "json list" | JObj "(string \<times> json) list"

section \<open>Timing accumulators\<close>

record timing_stat =
  sum_us :: u64
  ts_count :: u64
  min_us :: u64
  max_us :: u64

definition timing_new :: timing_stat where
  "timing_new = \<lparr>sum_us = 0, ts_count = 0, min_us = - 1, max_us = 0\<rparr>"

text \<open>The two compare-and-swap loops, without interference, set the bound once.\<close>

definition timing_record :: "timing_stat \<Rightarrow> u64 \<Rightarrow> timing_stat" where
  "timing_record t us =
     \<lparr>sum_us = sum_us t + us, ts_count = ts_count t + 1,
      min_us = (if us < min_us t then us else min_us t),
      max_us = (if us > max_us t then us else max_us t)\<rparr>"

definition timing_flush :: "timing_stat \<Rightarrow> json \<times> timing_stat" where
  "timing_flush t =
     ((if ts_count t = 0 then JNull
       else JObj [(''avg_us'', JNum (uint (sum_us t div ts_count t))),
                  (''min_us'', JNum (if min_us t = - 1 then 0 else uint (min_us t))),
                  (''max_us'', JNum (uint (max_us t))),
                  (''count'', JNum (uint (ts_count t)))]),
      timing_new)"

section \<open>Counters\<close>

datatype counter =
    Encrypt_fail | Decrypt_fail | Nack_received | Rtx_sent | Rtx_cache_miss | Pli_sent
  | Sr_relayed | Rr_relayed | Twcc_sent | Twcc_recorded | Remb_sent | Sub_rtcp_received
  | Sub_rtcp_not_rtcp | Sub_rtcp_decrypted | Rtp_cache_stored | Nack_publisher_not_found
  | Nack_no_rtx_ssrc | Rtp_cache_lock_fail | Egress_drop | Spawn_rtp_relayed | Spawn_sr_relayed
  | Spawn_encrypt_fail | Ptt_rtp_gated | Ptt_rtp_rewritten | Ptt_video_pending_drop
  | Ptt_keyframe_arrived | Ptt_floor_granted | Ptt_floor_revoked | Ptt_nack_remapped
  | Ptt_floor_released | Ptt_speaker_switches | Ptt_audio_rewritten | Ptt_video_rewritten
  | Ptt_video_skip

datatype timing = Relay | Decrypt | Encrypt | Lock_wait | Egress_encrypt

record global_metrics =
  timings :: "timing \<Rightarrow> timing_stat"
  fan_out_sum :: u64
  fan_out_count :: u64
  fan_out_min :: u32
  fan_out_max :: u32
  counts :: "counter \<Rightarrow> u64"

definition metrics_new :: global_metrics where
  "metrics_new = \<lparr>timings = (\<lambda>_. timing_new), fan_out_sum = 0, fan_out_count = 0,
     fan_out_min = - 1, fan_out_max = 0, counts = (\<lambda>_. 0)\<rparr>"

definition record_fan_out :: "u32 \<Rightarrow> global_metrics \<Rightarrow> global_metrics" where
  "record_fan_out c m = m\<lparr>fan_out_sum := fan_out_sum m + ucast c, fan_out_count := fan_out_count m + 1,
     fan_out_max := (if c > fan_out_max m then c else fan_out_max m),
     fan_out_min := (if c < fan_out_min m then c else fan_out_min m)\<rparr>"

definition counter_names :: "(string \<times> counter) list" where
  "counter_names =
     [(''encrypt_fail'', Encrypt_fail), (''decrypt_fail'', Decrypt_fail),
      (''nack_received'', Nack_received), (''rtx_sent'', Rtx_sent),
      (''rtx_cache_miss'', Rtx_cache_miss), (''pli_sent'', Pli_sent),
      (''sr_relayed'', Sr_relayed), (''rr_relayed'', Rr_relayed), (''twcc_sent'', Twcc_sent),
      (''twcc_recorded'', Twcc_recorded), (''remb_sent'', Remb_sent),
      (''sub_rtcp_received'', Sub_rtcp_received), (''sub_rtcp_not_rtcp'', Sub_rtcp_not_rtcp),
      (''sub_rtcp_decrypted'', Sub_rtcp_decrypted), (''rtp_cache_stored'', Rtp_cache_stored),
      (''nack_pub_not_found'', Nack_publisher_not_found), (''nack_no_rtx'', Nack_no_rtx_ssrc),
      (''cache_lock_fail'', Rtp_cache_lock_fail), (''egress_drop'', Egress_drop),
      (''spawn_rtp_relayed'', Spawn_rtp_relayed), (''spawn_sr_relayed'', Spawn_sr_relayed),
      (''spawn_encrypt_fail'', Spawn_encrypt_fail)]"

definition ptt_counter_names :: "(string \<times> counter) list" where
  "ptt_counter_names =
     [(''rtp_gated'', Ptt_rtp_gated), (''rtp_rewritten'', Ptt_rtp_rewritten),
      (''audio_rewritten'', Ptt_audio_rewritten), (''video_rewritten'', Ptt_video_rewritten),
      (''video_skip'', Ptt_video_skip), (''video_pending_drop'', Ptt_video_pending_drop),
      (''keyframe_arrived'', Ptt_keyframe_arrived), (''floor_granted'', Ptt_floor_granted),
      (''floor_released'', Ptt_floor_released), (''floor_revoked'', Ptt_floor_revoked),
      (''speaker_switches'', Ptt_speaker_switches), (''nack_remapped'', Ptt_nack_remapped)]"

definition report_counters :: "(string \<times> counter) list \<Rightarrow> global_metrics \<Rightarrow> (string \<times> json) list" where
  "report_counters ns m = map (\<lambda>(n, c). (n, JNum (uint (counts m c)))) ns"

text \<open>
  \<open>flush\<close>: every cell is swapped with its initial value and the report shows what was
  swapped out. The description of the environment, the sample of the runtime and the
  decimal text of the average are arguments.
\<close>

definition metrics_flush ::
  "json \<Rightarrow> json \<Rightarrow> (u64 \<Rightarrow> u64 \<Rightarrow> string) \<Rightarrow> global_metrics \<Rightarrow> json \<times> global_metrics" where
  "metrics_flush env_json tokio_json avg m =
     (JObj ([(''type'', JStr ''server_metrics''),
         (''relay'', fst (timing_flush (timings m Relay))),
         (''decrypt'', fst (timing_flush (timings m Decrypt))),
         (''encrypt'', fst (timing_flush (timings m Encrypt))),
         (''lock_wait'', fst (timing_flush (timings m Lock_wait))),
         (''egress_encrypt'', fst (timing_flush (timings m Egress_encrypt))),
         (''fan_out'', JObj
           [(''avg'', JStr (avg (fan_out_sum m) (fan_out_count m))),
            (''min'', JNum (if fan_out_min m = - 1 then 0 else uint (fan_out_min m))),
            (''max'', JNum (uint (fan_out_max m)))]),
         (''ptt'', JObj (report_counters ptt_counter_names m)),
         (''env'', env_json), (''tokio_runtime'', tokio_json)]
        @ report_counters counter_names m),
      m\<lparr>timings := (\<lambda>t. snd (timing_flush (timings m t))), fan_out_sum := 0, fan_out_count := 0,
        fan_out_min := - 1, fan_out_max := 0,
        counts := (\<lambda>c. if c \<in> snd ` set (counter_names @ ptt_counter_names) then 0 else counts m c)\<rparr>)"

section \<open>What a report shows\<close>

lemma every_counter_reported: "c \<in> snd ` set (counter_names @ ptt_counter_names)"
proof -
  have "list_ex ((=) c) (map snd (counter_names @ ptt_counter_names))"
    unfolding counter_names_def ptt_counter_names_def append.simps list.map snd_conv by (cases c) simp_all
  then show ?thesis by (auto simp: list_ex_iff)
qed

lemma flush_resets: "snd (metrics_flush e t a m) = metrics_new"
proof -
  have "(\<lambda>c. if c \<in> snd ` set (counter_names @ ptt_counter_names) then 0 else counts m c) = (\<lambda>_. 0)"
    using every_counter_reported by (intro ext) simp
  then show ?thesis by (simp add: metrics_flush_def metrics_new_def timing_flush_def)
qed

lemma timing_run:
  "sum_us (foldl timing_record timing_new us) = of_nat (sum_list (map unat us)) \<and>
   ts_count (foldl timing_record timing_new us) = of_nat (length us) \<and>
   min_us (foldl timing_record timing_new us) = Min (insert (- 1) (set us)) \<and>
   max_us (foldl timing_record timing_new us) = Max (insert 0 (set us))"
proof (induction us rule: rev_induct)
  case (snoc u us)
  let ?t = "foldl timing_record timing_new us"
  have s: "insert x (set (us @ [u])) = insert u (insert x (set us))" for x by auto
  have "Min (insert (- 1) (set (us @ [u]))) = min u (Min (insert (- 1) (set us)))"
    "Max (insert 0 (set (us @ [u]))) = max u (Max (insert 0 (set us)))"
    unfolding s by (rule Min_insert Max_insert; simp)+
  moreover have "foldl timing_record timing_new (us @ [u]) = timing_record ?t u" by simp
  moreover have "min_us (timing_record ?t u) = min u (min_us ?t)" "max_us (timing_record ?t u) = max u (max_us ?t)"
    by (auto simp: timing_record_def min_def max_def)
  moreover have "sum_us (timing_record ?t u) = sum_us ?t + u" "ts_count (timing_record ?t u) = ts_count ?t + 1"
    by (simp_all add: timing_record_def)
  ultimately show ?case using snoc by simp
qed (simp add: timing_new_def)

text \<open>
  Timing windows. Recording any durations in a fresh accumulator and reporting gives
  nothing for an empty window, and otherwise their number, their least and their greatest
  and the quotient of their sum (the sum and the number are exact below \<open>2 ^ 64\<close>, the
  number of durations is not zero), and afterwards the accumulator is fresh again.
\<close>

theorem timing_window:
  assumes "length us < 2 ^ 64" and "sum_list (map unat us) < 2 ^ 64" and "- 1 \<notin> set us"
  shows "timing_flush (foldl timing_record timing_new us) =
    ((if us = [] then JNull
      else JObj [(''avg_us'', JNum (int (sum_list (map unat us) div length us))),
                 (''min_us'', JNum (uint (Min (set us)))), (''max_us'', JNum (uint (Max (set us)))),
                 (''count'', JNum (int (length us)))]), timing_new)"
proof (cases "us = []")
  case False
  let ?t = "foldl timing_record timing_new us"
  have c: "unat (ts_count ?t) = length us" "unat (sum_us ?t) = sum_list (map unat us)"
    using assms(1,2) by (simp_all add: timing_run unat_of_nat take_bit_nat_eq_self)
  have nz: "ts_count ?t \<noteq> 0" using c(1) False by auto
  have "Min (set us) \<noteq> - 1" using assms(3) False Min_in [of "set us"] by (metis List.finite_set set_empty)
  moreover have mn: "min_us ?t = Min (set us)" using False by (simp add: timing_run min_absorb2)
  moreover have "max_us ?t = Max (set us)" using False by (simp add: timing_run max_def)
  moreover have "uint (sum_us ?t div ts_count ?t) = int (sum_list (map unat us) div length us)"
    by (metis c uint_nat unat_div_distrib)
  moreover have "uint (ts_count ?t) = int (length us)" by (metis c(1) uint_nat)
  ultimately show ?thesis using False nz by (simp add: timing_flush_def)
qed (simp add: timing_flush_def timing_new_def)

theorem timing_window_witness:
  "timing_flush (foldl timing_record timing_new [7, 3, 5]) =
     (JObj [(''avg_us'', JNum 5), (''min_us'', JNum 3), (''max_us'', JNum 7), (''count'', JNum 3)], timing_new)"
  by (subst timing_window) simp_all

end
