(* ===== verification/App.thy ===== *)
theory App
  imports Room Metrics
begin

text \<open>
  The state the handlers share (\<open>src/state.rs\<close>): the hub, the metrics, and the log of
  effects a handler has. The packets of \<open>src/signaling/message.rs\<close> are here because every
  component sends them. What comes from other packages is the record \<open>env\<close>. The wall-clock
  durations that the hot path records are an event of their own in the system.
\<close>

section \<open>Packets\<close>

record packet =
  op :: u16
  pid :: u64
  ok :: "bool option"
  d :: json

definition packet_new :: "u16 \<Rightarrow> u64 \<Rightarrow> json \<Rightarrow> packet" where
  "packet_new o' n j = \<lparr>op = o', pid = n, ok = None, d = j\<rparr>"

definition packet_ok :: "u16 \<Rightarrow> u64 \<Rightarrow> json \<Rightarrow> packet" where
  "packet_ok o' n j = \<lparr>op = o', pid = n, ok = Some True, d = j\<rparr>"

definition packet_err :: "u16 \<Rightarrow> u64 \<Rightarrow> u16 \<Rightarrow> string \<Rightarrow> packet" where
  "packet_err o' n code msg =
     \<lparr>op = o', pid = n, ok = Some False, d = JObj [(''code'', JNum (uint code)), (''msg'', JStr msg)]\<rparr>"

definition is_response :: "packet \<Rightarrow> bool" where
  "is_response p \<longleftrightarrow> ok p \<noteq> None"

section \<open>Effects and state\<close>

datatype effect =
    WsSend nat string
  | WsReply nat string
  | UdpSend sockaddr bytes
  | AdminSend string
  | SpawnEgress pref
  | SpawnDtls sockaddr pref pc_type nat
  | SpawnPli pref u32 sockaddr

text \<open>
  \<open>WsSend\<close> queues an event for a connection (\<open>ws_tx.send\<close>), \<open>WsReply\<close> writes to its socket.
  The other effects are datagrams, texts for the admin channel, and spawned tasks.
\<close>

text \<open>
  The bounded channel between a UDP worker and a DTLS task: the packets in it, and whether
  the receiver still exists. An effect is an attempt: the log says that a send was tried.
\<close>

record dtls_channel =
  chan_queue :: "bytes list"
  chan_open :: bool

definition DTLS_CHANNEL_SIZE :: nat where [config_defs]: "DTLS_CHANNEL_SIZE = 128"

record 'c app =
  hub :: "'c hub"
  metrics :: global_metrics
  channels :: "dtls_channel list"
  out :: "effect list"

text \<open>
  The environment: the SRTP package, the digests, whether the socket accepts a datagram
  (which may depend on everything sent before, so it gets the number of effects so far),
  the JSON printer for packets and values (\<open>serde_json\<close>).
\<close>

record 'c env =
  srtp :: "'c srtp_ops"
  hmac_sha1 :: "bytes \<Rightarrow> bytes \<Rightarrow> bytes"
  crc32 :: "bytes \<Rightarrow> u32"
  send_ok :: "nat \<Rightarrow> sockaddr \<Rightarrow> bytes \<Rightarrow> bool"
  packet_string :: "packet \<Rightarrow> string option"
  json_string :: "json \<Rightarrow> string"

definition bump :: "counter \<Rightarrow> nat \<Rightarrow> 'c app \<Rightarrow> 'c app" where
  "bump c n s = s\<lparr>metrics := (metrics s)\<lparr>counts := (counts (metrics s))(c := counts (metrics s) c + of_nat n)\<rparr>\<rparr>"

definition emit :: "effect \<Rightarrow> 'c app \<Rightarrow> 'c app" where
  "emit e s = s\<lparr>out := out s @ [e]\<rparr>"

text \<open>\<open>socket.send_to\<close>: the datagram is handed over, and the socket may refuse it.\<close>

definition send_to :: "'c env \<Rightarrow> sockaddr \<Rightarrow> bytes \<Rightarrow> 'c app \<Rightarrow> bool \<times> 'c app" where
  "send_to e addr data s = (send_ok e (length (out s)) addr data, emit (UdpSend addr data) s)"

definition pt :: "'c app \<Rightarrow> pref \<Rightarrow> 'c participant" where
  "pt s p = deref (heap (hub s)) p"

definition on_pt :: "pref \<Rightarrow> ('c participant \<Rightarrow> 'c participant) \<Rightarrow> 'c app \<Rightarrow> 'c app" where
  "on_pt p f s = s\<lparr>hub := (hub s)\<lparr>heap := modify p f (heap (hub s))\<rparr>\<rparr>"

definition on_hub :: "('c hub \<Rightarrow> 'r \<times> 'c hub) \<Rightarrow> 'c app \<Rightarrow> 'r \<times> 'c app" where
  "on_hub f s = (case f (hub s) of (r, hb) \<Rightarrow> (r, s\<lparr>hub := hb\<rparr>))"

definition set_room :: "string \<Rightarrow> room \<Rightarrow> 'c app \<Rightarrow> 'c app" where
  "set_room rid r s = s\<lparr>hub := put_room rid r (hub s)\<rparr>"

definition room_of :: "'c app \<Rightarrow> string \<Rightarrow> room option" where
  "room_of s rid = map_of (rooms (hub s)) rid"

lemma app_simps [simp]:
  "hub (bump c n s) = hub s" "out (bump c n s) = out s" "channels (bump c n s) = channels s"
  "hub (emit e s) = hub s" "metrics (emit e s) = metrics s" "channels (emit e s) = channels s"
  "out (emit e s) = out s @ [e]"
  "out (on_pt p f s) = out s" "metrics (on_pt p f s) = metrics s" "channels (on_pt p f s) = channels s"
  "rooms (hub (on_pt p f s)) = rooms (hub s)" "heap (hub (on_pt p f s)) = modify p f (heap (hub s))"
  "ufrag_index (hub (on_pt p f s)) = ufrag_index (hub s)" "addr_index (hub (on_pt p f s)) = addr_index (hub s)"
  "out (set_room rid r s) = out s" "metrics (set_room rid r s) = metrics s"
  "heap (hub (set_room rid r s)) = heap (hub s)" "hub (set_room rid r s) = put_room rid r (hub s)"
  by (simp_all add: bump_def emit_def on_pt_def set_room_def)

lemma pt_simps [simp]:
  "pt (bump c n s) p = pt s p" "pt (emit e s) p = pt s p" "pt (set_room rid r s) p = pt s p"
  "room_of (bump c n s) rid = room_of s rid" "room_of (emit e s) rid = room_of s rid"
  "room_of (on_pt p f s) rid = room_of s rid"
  by (simp_all add: pt_def room_of_def)

lemma counts_bump [simp]:
  "counts (metrics (bump c n s)) k = counts (metrics s) k + (if k = c then of_nat n else 0)"
  by (simp add: bump_def)

lemma pt_on_pt: "p < length (heap (hub s)) \<Longrightarrow> pt (on_pt p f s) q = (if q = p then f (pt s p) else pt s q)"
  by (simp add: pt_def deref_modify)

lemma set_room_fields [simp]:
  "channels (set_room rid r s) = channels s" "room_of (set_room rid r s) rid' = (if rid' = rid then Some r else room_of s rid')"
  by (simp_all add: set_room_def room_of_def)

section \<open>The invariant of the state\<close>

text \<open>
  A participant is well formed when its cache and its recorder have their sizes, its
  registry has no duplicates and its egress queue respects its bound.
\<close>

definition wf_pt :: "'c participant \<Rightarrow> bool" where
  "wf_pt p \<longleftrightarrow> wf_cache (p_rtp_cache p) \<and> wf_recorder (p_twcc_recorder p) \<and> wf_tracks p \<and>
     length (egress_queue p) \<le> EGRESS_QUEUE_SIZE"

text \<open>
  The floor and the two rewriters of a room agree on the speaker, and a conference room
  has none.
\<close>

definition floor_synced :: "room \<Rightarrow> bool" where
  "floor_synced r \<longleftrightarrow>
     rw_speaker (rw_state (audio_rewriter r)) = current_speaker (r_floor r) \<and>
     rw_speaker (rw_state (video_rewriter r)) = current_speaker (r_floor r) \<and>
     (r_mode r = Conference \<longrightarrow> r_floor r = Idle)"

definition app_ok :: "'c app \<Rightarrow> bool" where
  "app_ok s \<longleftrightarrow> hub_ok (hub s) \<and> (\<forall>p < length (heap (hub s)). wf_pt (pt s p)) \<and>
     (\<forall>rid r. room_of s rid = Some r \<longrightarrow> floor_synced r)"

text \<open>The part of it that overlapping floor handlers keep as well.\<close>

definition store_ok :: "'c app \<Rightarrow> bool" where
  "store_ok s \<longleftrightarrow> hub_ok (hub s) \<and> (\<forall>p < length (heap (hub s)). wf_pt (pt s p))"

lemma app_ok_store: "app_ok s \<Longrightarrow> store_ok s"
  and app_ok_iff: "app_ok s \<longleftrightarrow> store_ok s \<and> (\<forall>rid r. room_of s rid = Some r \<longrightarrow> floor_synced r)"
  by (auto simp: app_ok_def store_ok_def)

lemma store_okD:
  assumes "store_ok s"
  shows "hub_ok (hub s)" "p < length (heap (hub s)) \<Longrightarrow> wf_pt (pt s p)"
    "room_of s rid = Some r \<Longrightarrow> room_ok (heap (hub s)) rid r"
  using assms hub_okD(2) by (auto simp: store_ok_def room_of_def)

named_theorems app_ok_intros

lemma wf_pt_new [simp]: "wf_pt (participant_new u r pu pp su sp tx t)"
  by (simp add: wf_pt_def participant_new_def wf_tracks_def)

lemma app_okD:
  assumes "app_ok s"
  shows "hub_ok (hub s)" "p < length (heap (hub s)) \<Longrightarrow> wf_pt (pt s p)"
    "room_of s rid = Some r \<Longrightarrow> floor_synced r" "room_of s rid = Some r \<Longrightarrow> room_ok (heap (hub s)) rid r"
  using assms hub_okD(2) by (auto simp: app_ok_def room_of_def)

lemma app_ok_bump [simp]: "app_ok (bump c n s) = app_ok s"
  and app_ok_emit [simp]: "app_ok (emit e s) = app_ok s"
  and app_ok_out [simp]: "app_ok (s\<lparr>out := x\<rparr>) = app_ok s"
  and app_ok_metrics [simp]: "app_ok (s\<lparr>metrics := m\<rparr>) = app_ok s"
  and app_ok_channels [simp]: "app_ok (s\<lparr>channels := y\<rparr>) = app_ok s"
  by (simp_all add: app_ok_def pt_def room_of_def bump_def emit_def)

lemma store_ok_bump [simp]: "store_ok (bump c n s) = store_ok s"
  and store_ok_emit [simp]: "store_ok (emit e s) = store_ok s"
  by (simp_all add: store_ok_def pt_def bump_def emit_def)

text \<open>An update of a participant that keeps its identity and its well-formedness.\<close>

lemma store_ok_on_pt:
  assumes ok: "store_ok s" and id: "\<And>q. same_id q (f q)" and wf: "wf_pt (pt s p) \<Longrightarrow> wf_pt (f (pt s p))"
  shows "store_ok (on_pt p f s)"
proof -
  have "hub_ok (hub (on_pt p f s))"
    using hub_ok_sim [OF store_okD(1) [OF ok], of "modify p f (heap (hub s))"] heap_sim_modify [OF id]
    by (simp add: on_pt_def)
  moreover have "wf_pt (pt (on_pt p f s) q)" if "q < length (heap (hub (on_pt p f s)))" for q
    using that store_okD(2) [OF ok] wf
    by (cases "p < length (heap (hub s))")
       (auto simp: pt_on_pt, simp add: pt_def on_pt_def modify_def deref_def)
  ultimately show ?thesis by (auto simp: store_ok_def)
qed

lemma app_ok_on_pt [app_ok_intros]:
  assumes "app_ok s" and "\<And>q. same_id q (f q)" and "wf_pt (pt s p) \<Longrightarrow> wf_pt (f (pt s p))"
  shows "app_ok (on_pt p f s)"
  using assms store_ok_on_pt [of s f p] by (auto simp: app_ok_iff)

text \<open>An update of a room that keeps its indices and its agreement on the speaker.\<close>

lemma store_ok_set_room:
  assumes ok: "store_ok s" and "room_ok (heap (hub s)) rid r"
  shows "store_ok (set_room rid r s)"
  using assms hub_ok_put_room [OF store_okD(1) [OF ok]]
  by (auto simp: store_ok_def)

lemma app_ok_set_room [app_ok_intros]:
  assumes "app_ok s" and "room_ok (heap (hub s)) rid r" and "floor_synced r"
  shows "app_ok (set_room rid r s)"
  using assms store_ok_set_room by (auto simp: app_ok_iff)

lemma room_ok_fields [simp]:
  "room_ok h rid (r\<lparr>r_floor := f\<rparr>) = room_ok h rid r"
  "room_ok h rid (r\<lparr>audio_rewriter := a\<rparr>) = room_ok h rid r"
  "room_ok h rid (r\<lparr>video_rewriter := v\<rparr>) = room_ok h rid r"
  by (simp_all add: room_ok_def)

section \<open>Steps of the media path\<close>

text \<open>
  The media path changes contexts, caches, recorders, queues, clocks and the numbering of
  the rewriters; it never changes who is where, which tracks there are, who holds the
  floor, or which sessions are keyed. What it emits are datagrams.
\<close>

definition same_media :: "'c participant \<Rightarrow> 'c participant \<Rightarrow> bool" where
  "same_media p q \<longleftrightarrow> same_id p q \<and> tracks p = tracks q \<and> ws_tx p = ws_tx q \<and>
     egress_rx_taken p = egress_rx_taken q \<and>
     (\<forall>pc. is_media_ready (session p pc) = is_media_ready (session q pc))"

definition same_room :: "room \<Rightarrow> room \<Rightarrow> bool" where
  "same_room r r' \<longleftrightarrow> (\<exists>a v. r' = r\<lparr>audio_rewriter := a, video_rewriter := v\<rparr> \<and>
     rw_speaker (rw_state a) = rw_speaker (rw_state (audio_rewriter r)) \<and> virtual_ssrc a = virtual_ssrc (audio_rewriter r) \<and>
     rw_speaker (rw_state v) = rw_speaker (rw_state (video_rewriter r)) \<and> virtual_ssrc v = virtual_ssrc (video_rewriter r))"

definition udp_only :: "effect list \<Rightarrow> bool" where
  "udp_only es \<longleftrightarrow> (\<forall>x \<in> set es. \<exists>a b. x = UdpSend a b)"

definition media_step :: "'c app \<Rightarrow> 'c app \<Rightarrow> bool" where
  "media_step s s' \<longleftrightarrow>
     (store_ok s \<longrightarrow> store_ok s') \<and> length (heap (hub s')) = length (heap (hub s)) \<and>
     (\<forall>q. same_media (pt s q) (pt s' q)) \<and> channels s' = channels s \<and>
     addr_index (hub s') = addr_index (hub s) \<and> ufrag_index (hub s') = ufrag_index (hub s) \<and>
     (\<forall>rid. rel_option same_room (room_of s rid) (room_of s' rid)) \<and>
     (\<exists>es. out s' = out s @ es \<and> udp_only es)"

lemma same_media_refl [simp]: "same_media p p"
  by (simp add: same_media_def)

lemma same_media_trans: "same_media p q \<Longrightarrow> same_media q r \<Longrightarrow> same_media p r"
  by (auto simp: same_media_def intro: same_id_trans)

lemma same_media_id: "same_media p q \<Longrightarrow> same_id p q"
  by (simp add: same_media_def)

lemma same_room_refl [simp]: "same_room r r"
  unfolding same_room_def
  by (rule exI [of _ "audio_rewriter r"], rule exI [of _ "video_rewriter r"]) simp

lemma same_room_trans: "same_room r1 r2 \<Longrightarrow> same_room r2 r3 \<Longrightarrow> same_room r1 r3"
  by (fastforce simp: same_room_def)

lemma same_roomD:
  assumes "same_room r r'"
  shows "r_id r' = r_id r" "r_mode r' = r_mode r" "r_floor r' = r_floor r" "participants r' = participants r"
    "by_addr r' = by_addr r" "by_ufrag r' = by_ufrag r" "r_capacity r' = r_capacity r"
    "virtual_ssrc (audio_rewriter r') = virtual_ssrc (audio_rewriter r)"
    "virtual_ssrc (video_rewriter r') = virtual_ssrc (video_rewriter r)"
    "floor_synced r' = floor_synced r" "room_ok h rid r' = room_ok h rid r"
  using assms by (auto simp: same_room_def floor_synced_def)

lemma udp_only_simps [simp]: "udp_only []" "udp_only (a @ b) = (udp_only a \<and> udp_only b)" "udp_only [UdpSend x y]"
  by (auto simp: udp_only_def)

lemma media_step_refl [simp]: "media_step s s"
  by (auto simp: media_step_def option.rel_refl intro: exI [of _ "[]"])

lemma media_step_trans:
  assumes 1: "media_step s1 s2" and 2: "media_step s2 s3"
  shows "media_step s1 s3"
  unfolding media_step_def
proof (intro conjI allI)
  note D1 = 1 [unfolded media_step_def] and D2 = 2 [unfolded media_step_def]
  show "store_ok s1 \<longrightarrow> store_ok s3" "length (heap (hub s3)) = length (heap (hub s1))" "channels s3 = channels s1"
    "addr_index (hub s3) = addr_index (hub s1)" "ufrag_index (hub s3) = ufrag_index (hub s1)"
    using D1 D2 by simp_all
  show "same_media (pt s1 q) (pt s3 q)" for q using D1 D2 same_media_trans by blast
  show "rel_option same_room (room_of s1 rid) (room_of s3 rid)" for rid
  proof -
    have "rel_option same_room (room_of s1 rid) (room_of s2 rid)" "rel_option same_room (room_of s2 rid) (room_of s3 rid)"
      using D1 D2 by blast+
    then show ?thesis by (auto elim!: option.rel_cases intro: same_room_trans)
  qed
  obtain es1 es2 where "out s2 = out s1 @ es1" "udp_only es1" "out s3 = out s2 @ es2" "udp_only es2"
    using D1 D2 by blast
  then show "\<exists>es. out s3 = out s1 @ es \<and> udp_only es" by (intro exI [of _ "es1 @ es2"]) simp
qed

text \<open>Counters are invisible to the media path.\<close>

lemma media_step_bump_iff [simp]:
  "media_step s (bump c n s') = media_step s s'" "media_step (bump c n s) s' = media_step s s'"
  by (simp_all add: media_step_def)

lemma media_step_udp [simp]: "media_step s (emit (UdpSend a b) s)"
  by (auto simp: media_step_def option.rel_refl intro: exI [of _ "[UdpSend a b]"])

lemma pt_on_pt_outside: "\<not> p < length (heap (hub s)) \<Longrightarrow> pt (on_pt p f s) q = pt s q"
  by (simp add: pt_def on_pt_def modify_def deref_def list_update_beyond)

lemma media_step_on_pt:
  assumes "\<And>q. same_media q (f q)" and "wf_pt (pt s p) \<Longrightarrow> wf_pt (f (pt s p))"
  shows "media_step s (on_pt p f s)"
proof -
  have "same_media (pt s q) (pt (on_pt p f s) q)" for q
    using assms(1) by (cases "p < length (heap (hub s))") (auto simp: pt_on_pt pt_on_pt_outside)
  moreover have "store_ok s \<Longrightarrow> store_ok (on_pt p f s)"
    by (rule store_ok_on_pt) (use assms in \<open>auto intro: same_media_id\<close>)
  ultimately show ?thesis
    by (auto simp: media_step_def option.rel_refl intro: exI [of _ "[]"])
qed

lemma media_step_set_room:
  assumes "room_of s rid = Some r" and "same_room r r'"
  shows "media_step s (set_room rid r' s)"
proof -
  have "store_ok s \<Longrightarrow> store_ok (set_room rid r' s)"
    by (rule store_ok_set_room) (use assms store_okD(3) in \<open>auto simp: same_roomD\<close>)
  moreover have "rel_option same_room (room_of s x) (room_of (set_room rid r' s) x)" for x
    using assms by (auto simp: option.rel_refl)
  ultimately show ?thesis by (auto simp: media_step_def intro: exI [of _ "[]"])
qed

lemma media_stepD:
  assumes "media_step s s'"
  shows "app_ok s \<Longrightarrow> app_ok s'" "length (heap (hub s')) = length (heap (hub s))"
    "same_media (pt s q) (pt s' q)" "channels s' = channels s"
    "room_of s rid = Some r \<Longrightarrow> \<exists>r'. room_of s' rid = Some r' \<and> same_room r r'"
    "room_of s rid = None \<Longrightarrow> room_of s' rid = None" "store_ok s \<Longrightarrow> store_ok s'"
proof -
  have room: "rel_option same_room (room_of s rid) (room_of s' rid)" for rid using assms by (simp add: media_step_def)
  show "length (heap (hub s')) = length (heap (hub s))" "same_media (pt s q) (pt s' q)" "channels s' = channels s"
    "store_ok s \<Longrightarrow> store_ok s'" using assms by (simp_all add: media_step_def)
  show "room_of s rid = Some r \<Longrightarrow> \<exists>r'. room_of s' rid = Some r' \<and> same_room r r'" "room_of s rid = None \<Longrightarrow> room_of s' rid = None"
    using room [of rid] by (auto elim: option.rel_cases)
  assume ok: "app_ok s"
  have "floor_synced r" if "room_of s' x = Some r" for x r
  proof -
    have "rel_option same_room (room_of s x) (Some r)" using room [of x] that by simp
    then obtain r0 where "room_of s x = Some r0" "same_room r0 r" by (cases "room_of s x") auto
    then show ?thesis using app_okD(3) [OF ok] by (simp add: same_roomD(10))
  qed
  then show "app_ok s'" using ok assms by (auto simp: app_ok_iff media_step_def)
qed

end
