(* ===== verification/Ingress.thy ===== *)
theory Ingress
  imports App
begin

text \<open>
  The reception of media (\<open>src/transport/udp/ingress.rs\<close>): the RTP and RTCP of a publish
  session fan out to the egress queues of the other members of the room, the RTCP of a
  subscribe session asks for retransmissions or is relayed to the publisher. A handler is
  one step on the shared state; the outer \<^term>\<open>None\<close> is a panic. The order in which the
  hash map of relayed blocks is iterated is the argument \<open>order\<close>. Log output is left out.
\<close>

section \<open>Helpers of the handlers\<close>

definition is_rtcp :: "bytes \<Rightarrow> bool" where
  "is_rtcp buf =
     (case idx buf 1 of Some b \<Rightarrow> 72 \<le> b AND 0x7F \<and> b AND 0x7F \<le> 79 | None \<Rightarrow> False)"

text \<open>A transform of an SRTP context of a session, under its lock.\<close>

definition with_inbound ::
  "('c srtp_context \<Rightarrow> bytes \<Rightarrow> (srtp_error + bytes) \<times> 'c srtp_context) \<Rightarrow> pc_type \<Rightarrow> pref \<Rightarrow> bytes \<Rightarrow>
   'c app \<Rightarrow> (srtp_error + bytes) \<times> 'c app" where
  "with_inbound f pc p buf s =
     (fst (f (inbound_srtp (session (pt s p) pc)) buf),
      on_pt p (map_session pc (\<lambda>ms. ms\<lparr>inbound_srtp := snd (f (inbound_srtp ms) buf)\<rparr>)) s)"

definition with_outbound ::
  "('c srtp_context \<Rightarrow> bytes \<Rightarrow> (srtp_error + bytes) \<times> 'c srtp_context) \<Rightarrow> pc_type \<Rightarrow> pref \<Rightarrow> bytes \<Rightarrow>
   'c app \<Rightarrow> (srtp_error + bytes) \<times> 'c app" where
  "with_outbound f pc p buf s =
     (fst (f (outbound_srtp (session (pt s p) pc)) buf),
      on_pt p (map_session pc (\<lambda>ms. ms\<lparr>outbound_srtp := snd (f (outbound_srtp ms) buf)\<rparr>)) s)"

definition send_egress :: "egress_packet \<Rightarrow> pref \<Rightarrow> 'c app \<Rightarrow> 'c app" where
  "send_egress pkt p s =
     (let accepted = fst (try_send pkt (pt s p));
          s = on_pt p (\<lambda>q. snd (try_send pkt q)) s
      in if accepted then s else bump Egress_drop 1 s)"

fun fan_out :: "egress_packet \<Rightarrow> string \<Rightarrow> (string \<times> pref) list \<Rightarrow> 'c app \<Rightarrow> 'c app" where
  "fan_out pkt sender [] s = s"
| "fan_out pkt sender ((uid, p) # ps) s =
     (if uid = sender then fan_out pkt sender ps s
      else if \<not> is_subscribe_ready (pt s p) then fan_out pkt sender ps s
      else fan_out pkt sender ps (send_egress pkt p s))"

definition floor_allows :: "room \<Rightarrow> string \<Rightarrow> bool" where
  "floor_allows r user =
     (case current_speaker (r_floor r) of Some speaker \<Rightarrow> speaker = user | None \<Rightarrow> False)"

text \<open>The SSRC of the first track of a kind of who holds the floor.\<close>

definition speaker_ssrc :: "'c app \<Rightarrow> room \<Rightarrow> track_kind \<Rightarrow> u32 option" where
  "speaker_ssrc s r k = do {
     uid \<leftarrow> current_speaker (r_floor r);
     p \<leftarrow> get_participant r uid;
     first_ssrc_of_kind k (pt s p) }"

section \<open>RTP of a publisher\<close>

definition store_rtp :: "rtp_header \<Rightarrow> bytes \<Rightarrow> pref \<Rightarrow> 'c app \<Rightarrow> 'c app option" where
  "store_rtp hdr plaintext p s =
     (if h_pt hdr = 96
      then do { cache \<leftarrow> cache_store (p_rtp_cache (pt s p)) (h_seq hdr) plaintext;
                Some (bump Rtp_cache_stored 1 (on_pt p (\<lambda>q. q\<lparr>p_rtp_cache := cache\<rparr>) s)) }
      else Some s)"

definition record_twcc :: "nat \<Rightarrow> bytes \<Rightarrow> pref \<Rightarrow> 'c app \<Rightarrow> 'c app option" where
  "record_twcc arrival plaintext p s = do {
     found \<leftarrow> parse_twcc_seq plaintext TWCC_EXTMAP_ID;
     case found of
       None \<Rightarrow> Some s
     | Some twcc_seq \<Rightarrow> do {
         rec \<leftarrow> twcc_record (p_twcc_recorder (pt s p)) twcc_seq arrival;
         Some (bump Twcc_recorded 1 (on_pt p (\<lambda>q. q\<lparr>p_twcc_recorder := rec\<rparr>) s)) } }"

text \<open>The payload to forward, or none while the first keyframe of a burst is awaited.\<close>

definition ptt_payload ::
  "rtp_header \<Rightarrow> bytes \<Rightarrow> string \<Rightarrow> string \<Rightarrow> 'c app \<Rightarrow> (bytes option \<times> 'c app) option" where
  "ptt_payload hdr plaintext rid sender s = do {
     r \<leftarrow> room_of s rid;
     if r_mode r \<noteq> Ptt then Some (Some plaintext, s)
     else do {
       (result, rewritten, s) \<leftarrow>
         (if h_pt hdr = 111 then do {
            (result, buf, w) \<leftarrow> rewrite (audio_rewriter r) plaintext sender False;
            Some (result, buf, set_room rid (r\<lparr>audio_rewriter := w\<rparr>) s) }
          else if h_pt hdr = 96 then do {
            keyframe \<leftarrow> is_vp8_keyframe plaintext;
            let s = (if keyframe then bump Ptt_keyframe_arrived 1 s else s);
            (result, buf, w) \<leftarrow> rewrite (video_rewriter r) plaintext sender keyframe;
            Some (result, buf, set_room rid (r\<lparr>video_rewriter := w\<rparr>) s) }
          else Some (Skip, plaintext, s));
       Some (case result of
           Ok \<Rightarrow> (Some rewritten,
             (let s = bump Ptt_rtp_rewritten 1 s in
              if h_pt hdr = 111 then bump Ptt_audio_rewritten 1 s
              else if h_pt hdr = 96 then bump Ptt_video_rewritten 1 s else s))
         | PendingKeyframe \<Rightarrow> (None, bump Ptt_video_pending_drop 1 s)
         | Skip \<Rightarrow> (Some plaintext, if h_pt hdr = 96 then bump Ptt_video_skip 1 s else s)) } }"

definition handle_publish_rtp ::
  "'c env \<Rightarrow> nat \<Rightarrow> bytes \<Rightarrow> pref \<Rightarrow> string \<Rightarrow> 'c app \<Rightarrow> 'c app option" where
  "handle_publish_rtp e arrival buf p rid s =
     (case with_inbound (decrypt_rtp (srtp e)) Publish p buf s of
        (Inl err, s) \<Rightarrow> Some (bump Decrypt_fail 1 s)
      | (Inr plaintext, s) \<Rightarrow> do {
          hdr \<leftarrow> parse_rtp_header plaintext;
          s \<leftarrow> store_rtp hdr plaintext p s;
          s \<leftarrow> record_twcc arrival plaintext p s;
          r \<leftarrow> room_of s rid;
          let sender = p_user_id (pt s p);
          if r_mode r = Ptt \<and> \<not> floor_allows r sender then Some (bump Ptt_rtp_gated 1 s)
          else do {
            (payload, s) \<leftarrow> ptt_payload hdr plaintext rid sender s;
            Some (case payload of
                None \<Rightarrow> s
              | Some fanout_payload \<Rightarrow> fan_out (Rtp fanout_payload) sender (participants r) s) } })"

section \<open>RTCP of a publisher\<close>

definition relay_publish_rtcp :: "bytes \<Rightarrow> pref \<Rightarrow> string \<Rightarrow> 'c app \<Rightarrow> 'c app option" where
  "relay_publish_rtcp plaintext p rid s = do {
     r \<leftarrow> room_of s rid;
     let sender = p_user_id (pt s p);
     if r_mode r = Ptt \<and> \<not> floor_allows r sender then Some s
     else Some (fan_out (Rtcp plaintext) sender (participants r) (bump Sr_relayed 1 s)) }"

section \<open>Retransmissions\<close>

fun rtx_packets :: "u32 \<Rightarrow> pref \<Rightarrow> u16 list \<Rightarrow> 'c app \<Rightarrow> (bytes list \<times> 'c app) option" where
  "rtx_packets rtx_ssrc p [] s = Some ([], s)"
| "rtx_packets rtx_ssrc p (lost_seq # seqs) s = do {
     cached \<leftarrow> cache_get (p_rtp_cache (pt s p)) lost_seq;
     case cached of
       None \<Rightarrow> rtx_packets rtx_ssrc p seqs s
     | Some original \<Rightarrow> do {
         let rtx_seq = fst (next_rtx_seq (pt s p));
         let s = on_pt p (\<lambda>q. snd (next_rtx_seq q)) s;
         rtx_pkt \<leftarrow> build_rtx_packet original rtx_ssrc rtx_seq;
         (pkts, s) \<leftarrow> rtx_packets rtx_ssrc p seqs s;
         Some (rtx_pkt # pkts, s) } }"

definition nack_lookup :: "'c app \<Rightarrow> room \<Rightarrow> u32 \<Rightarrow> u16 list \<Rightarrow> u32 \<times> u16 list \<times> nat" where
  "nack_lookup s r media_ssrc lost_seqs =
     (if r_mode r = Ptt \<and> media_ssrc = virtual_ssrc (video_rewriter r)
      then (case speaker_ssrc s r Video of Some ssrc \<Rightarrow> ssrc | None \<Rightarrow> media_ssrc,
            map (reverse_seq (video_rewriter r)) lost_seqs, 1)
      else (media_ssrc, lost_seqs, 0))"

definition handle_nack_item :: "pref \<Rightarrow> string \<Rightarrow> nack_item \<Rightarrow> 'c app \<Rightarrow> 'c app option" where
  "handle_nack_item subscriber rid nack s = do {
     r \<leftarrow> room_of s rid;
     let (lookup_ssrc, cache_seqs, remapped) =
       nack_lookup s r (n_media_ssrc nack) (expand_nack (n_pid nack) (n_blp nack));
     let s = bump Ptt_nack_remapped remapped s;
     case find_by_track_ssrc (heap (hub s)) r lookup_ssrc of
       None \<Rightarrow> Some (bump Nack_publisher_not_found 1 s)
     | Some publisher \<Rightarrow>
         (case Option.bind (List.find (\<lambda>t. t_ssrc t = lookup_ssrc) (get_tracks (pt s publisher))) t_rtx_ssrc of
            None \<Rightarrow> Some (bump Nack_no_rtx_ssrc 1 s)
          | Some rtx_ssrc \<Rightarrow> do {
              (pkts, s) \<leftarrow> rtx_packets rtx_ssrc publisher cache_seqs s;
              let s = bump Rtx_sent (length pkts) (bump Rtx_cache_miss (length cache_seqs - length pkts) s);
              Some (fold (\<lambda>pkt. send_egress (Rtp pkt) subscriber) pkts s) }) }"

fun handle_nack_items :: "pref \<Rightarrow> string \<Rightarrow> nack_item list \<Rightarrow> 'c app \<Rightarrow> 'c app option" where
  "handle_nack_items subscriber rid [] s = Some s"
| "handle_nack_items subscriber rid (n # ns) s = do {
     s \<leftarrow> handle_nack_item subscriber rid n s;
     handle_nack_items subscriber rid ns s }"

definition handle_nack_block :: "bytes \<Rightarrow> pref \<Rightarrow> string \<Rightarrow> 'c app \<Rightarrow> 'c app option" where
  "handle_nack_block nack_data subscriber rid s = do {
     items \<leftarrow> parse_rtcp_nack nack_data;
     handle_nack_items subscriber rid items s }"

fun handle_nack_blocks :: "bytes list \<Rightarrow> pref \<Rightarrow> string \<Rightarrow> 'c app \<Rightarrow> 'c app option" where
  "handle_nack_blocks [] subscriber rid s = Some s"
| "handle_nack_blocks (b # bs) subscriber rid s = do {
     s \<leftarrow> handle_nack_block b subscriber rid s;
     handle_nack_blocks bs subscriber rid s }"

section \<open>RTCP of a subscriber\<close>

definition count_block :: "bytes \<Rightarrow> rtcp_block_ref \<Rightarrow> 'c app \<Rightarrow> 'c app" where
  "count_block plaintext b s =
     (let block_pt = (case idx plaintext (rb_offset b + 1) of Some x \<Rightarrow> x | None \<Rightarrow> 0);
          s = (if block_pt = RTCP_PT_RR then bump Rr_relayed 1 s else s)
      in if block_pt = RTCP_PT_PSFB then bump Pli_sent 1 s else s)"

definition count_relay :: "bytes \<Rightarrow> rtcp_block_ref list \<Rightarrow> 'c app \<Rightarrow> 'c app" where
  "count_relay plaintext bs s = fold (count_block plaintext) bs s"

definition effective_ssrc :: "'c app \<Rightarrow> room \<Rightarrow> u32 \<Rightarrow> u32" where
  "effective_ssrc s r media_ssrc =
     (if r_mode r = Ptt \<and> (media_ssrc = virtual_ssrc (audio_rewriter r) \<or> media_ssrc = virtual_ssrc (video_rewriter r))
      then (case speaker_ssrc s r (if media_ssrc = virtual_ssrc (video_rewriter r) then Video else Audio) of
              Some ssrc \<Rightarrow> ssrc | None \<Rightarrow> media_ssrc)
      else media_ssrc)"

fun group_blocks ::
  "'c app \<Rightarrow> room \<Rightarrow> bytes \<Rightarrow> rtcp_block_ref list \<Rightarrow> (u32 \<times> bytes list) list \<Rightarrow> (u32 \<times> bytes list) list option" where
  "group_blocks s r plaintext [] m = Some m"
| "group_blocks s r plaintext (b # bs) m =
     (if rb_media_ssrc b = 0 then group_blocks s r plaintext bs m
      else do {
        let k = effective_ssrc s r (rb_media_ssrc b);
        block \<leftarrow> slice plaintext (rb_offset b) (rb_offset b + rb_length b);
        group_blocks s r plaintext bs
          (AList.update k ((case map_of m k of Some l \<Rightarrow> l | None \<Rightarrow> []) @ [block]) m) })"

definition relay_group :: "'c env \<Rightarrow> string \<Rightarrow> u32 \<times> bytes list \<Rightarrow> 'c app \<Rightarrow> 'c app option" where
  "relay_group e rid g s = do {
     r \<leftarrow> room_of s rid;
     Some (case find_by_track_ssrc (heap (hub s)) r (fst g) of
         None \<Rightarrow> s
       | Some publisher \<Rightarrow>
           if \<not> is_publish_ready (pt s publisher) then s
           else (case ms_address (publish (pt s publisher)) of
               None \<Rightarrow> s
             | Some pub_addr \<Rightarrow>
                 (case with_outbound (encrypt_rtcp (srtp e)) Publish publisher (assemble_compound (snd g)) s of
                    (Inl err, s) \<Rightarrow> s
                  | (Inr encrypted, s) \<Rightarrow> snd (send_to e pub_addr encrypted s)))) }"

fun relay_groups :: "'c env \<Rightarrow> string \<Rightarrow> (u32 \<times> bytes list) list \<Rightarrow> 'c app \<Rightarrow> 'c app option" where
  "relay_groups e rid [] s = Some s"
| "relay_groups e rid (g # gs) s = do { s \<leftarrow> relay_group e rid g s; relay_groups e rid gs s }"

definition handle_subscribe_rtcp ::
  "'c env \<Rightarrow> ((u32 \<times> bytes list) list \<Rightarrow> (u32 \<times> bytes list) list) \<Rightarrow> bytes \<Rightarrow> pref \<Rightarrow> string \<Rightarrow>
   'c app \<Rightarrow> 'c app option" where
  "handle_subscribe_rtcp e order buf subscriber rid s =
     (let s = bump Sub_rtcp_received 1 s in
      if \<not> is_rtcp buf then Some (bump Sub_rtcp_not_rtcp 1 s)
      else (case with_inbound (decrypt_rtcp (srtp e)) Subscribe subscriber buf s of
          (Inl err, s) \<Rightarrow> Some (bump Decrypt_fail 1 s)
        | (Inr plaintext, s) \<Rightarrow> do {
            let s = bump Sub_rtcp_decrypted 1 s;
            parsed \<leftarrow> split_compound_rtcp plaintext;
            let s = bump Nack_received (length (nack_blocks parsed)) s;
            s \<leftarrow> handle_nack_blocks (nack_blocks parsed) subscriber rid s;
            if relay_blocks parsed = [] then Some s
            else do {
              let s = count_relay plaintext (relay_blocks parsed) s;
              r \<leftarrow> room_of s rid;
              publisher_rtcp \<leftarrow> group_blocks s r plaintext (relay_blocks parsed) [];
              relay_groups e rid (order publisher_rtcp) s } }))"

section \<open>The dispatcher of a media packet\<close>

definition handle_srtp ::
  "'c env \<Rightarrow> ((u32 \<times> bytes list) list \<Rightarrow> (u32 \<times> bytes list) list) \<Rightarrow> u64 \<Rightarrow> nat \<Rightarrow> bytes \<Rightarrow> sockaddr \<Rightarrow>
   'c app \<Rightarrow> 'c app option" where
  "handle_srtp e order now arrival buf remote s =
     (case find_by_addr (hub s) remote of
        None \<Rightarrow> Some s
      | Some (sender, pc, rid) \<Rightarrow>
          (let s = on_pt sender (touch now) s in
           if pc \<noteq> Publish then handle_subscribe_rtcp e order buf sender rid s
           else if \<not> is_media_ready (publish (pt s sender)) then Some s
           else if is_rtcp buf then
             (case with_inbound (decrypt_rtcp (srtp e)) Publish sender buf s of
                (Inl err, s) \<Rightarrow> Some (bump Decrypt_fail 1 s)
              | (Inr plaintext, s) \<Rightarrow> relay_publish_rtcp plaintext sender rid s)
           else handle_publish_rtp e arrival buf sender rid s))"

section \<open>Every handler is a media step that does not panic\<close>

text \<open>
  What holds of a handler that is entered with the references the hub returned: it
  returns, and what it did is a media step.
\<close>

definition safe :: "'c app \<Rightarrow> 'c app option \<Rightarrow> bool" where
  "safe s x \<longleftrightarrow> (\<exists>s'. x = Some s' \<and> media_step s s')"

definition entered :: "pref \<Rightarrow> string \<Rightarrow> 'c app \<Rightarrow> bool" where
  "entered p rid s \<longleftrightarrow> store_ok s \<and> p < length (heap (hub s)) \<and> room_of s rid \<noteq> None"

named_theorems safe_intros

lemma safe_Some [safe_intros]: "media_step s s' \<Longrightarrow> safe s (Some s')"
  by (simp add: safe_def)

lemma safe_bind:
  assumes "safe s x" and "\<And>s'. media_step s s' \<Longrightarrow> safe s' (f s')"
  shows "safe s (Option.bind x f)"
proof -
  obtain s' where "x = Some s'" "media_step s s'" using assms(1) by (auto simp: safe_def)
  moreover obtain s'' where "f s' = Some s''" "media_step s' s''"
    using assms(2) [OF \<open>media_step s s'\<close>] by (auto simp: safe_def)
  ultimately show ?thesis by (auto simp: safe_def intro: media_step_trans)
qed

lemma safe_from: "media_step s s' \<Longrightarrow> safe s' x \<Longrightarrow> safe s x"
  by (auto simp: safe_def intro: media_step_trans)

lemma entered_step: "entered p rid s \<Longrightarrow> media_step s s' \<Longrightarrow> entered p rid s'"
  using media_stepD(2,5,7) by (fastforce simp: entered_def)

lemma entered_room: "entered p rid s \<Longrightarrow> \<exists>r. room_of s rid = Some r"
  by (auto simp: entered_def)

lemma same_media_map_session:
  assumes "\<And>ms. ms_ufrag (f ms) = ms_ufrag ms" "\<And>ms. ms_address (f ms) = ms_address ms"
    "\<And>ms. is_media_ready (f ms) = is_media_ready ms"
  shows "same_media q (map_session pc f q)"
  using assms by (cases pc) (auto simp: same_media_def same_id_def map_session_def session_def split: pc_type.splits)

lemma wf_pt_map_session [simp]: "wf_pt (map_session pc f q) = wf_pt q"
  by (cases pc) (simp_all add: wf_pt_def map_session_def wf_tracks_def)

lemma with_inbound_step:
  assumes "\<And>ctx b. is_ready (snd (f ctx b)) = is_ready ctx"
  shows "media_step s (snd (with_inbound f pc p buf s))"
  unfolding with_inbound_def snd_conv
  by (rule media_step_on_pt) (auto intro!: same_media_map_session simp: is_media_ready_def assms)

lemma with_outbound_step: "media_step s (snd (with_outbound f pc p buf s))"
  unfolding with_outbound_def snd_conv
  by (rule media_step_on_pt) (auto intro!: same_media_map_session simp: is_media_ready_def)

lemma with_srtp_step:
  "with_inbound (decrypt_rtp ops) pc p buf s = (r, s') \<Longrightarrow> media_step s s'"
  "with_inbound (decrypt_rtcp ops) pc p buf s = (r, s') \<Longrightarrow> media_step s s'"
  "with_outbound f pc p buf s = (r, s') \<Longrightarrow> media_step s s'"
  using with_inbound_step [of "decrypt_rtp ops" s pc p buf] with_inbound_step [of "decrypt_rtcp ops" s pc p buf]
    with_outbound_step [of s f pc p buf] by simp_all

lemma touch_step: "media_step s (on_pt p (touch now) s)"
  by (rule media_step_on_pt) (simp_all add: touch_def same_media_def same_id_def session_def wf_pt_def wf_tracks_def split: pc_type.splits)

lemma send_egress_step: "media_step s (send_egress pkt p s)"
proof -
  have "media_step s (on_pt p (\<lambda>q. snd (try_send pkt q)) s)"
    by (rule media_step_on_pt)
       (auto simp: try_send_def same_media_def same_id_def session_def wf_pt_def wf_tracks_def split: pc_type.splits)
  then show ?thesis by (auto simp: send_egress_def Let_def intro: media_step_trans)
qed

lemma fan_out_step: "media_step s (fan_out pkt sender ps s)"
  by (induction pkt sender ps s rule: fan_out.induct) (auto intro: media_step_trans send_egress_step)

lemma media_step_fold: "(\<And>x s. media_step s (f x s)) \<Longrightarrow> media_step s (fold f xs s)"
  by (induction xs arbitrary: s) (auto intro: media_step_trans)

lemma fold_send_step: "media_step s (fold (\<lambda>pkt. send_egress (Rtp pkt) p) pkts s)"
  by (rule media_step_fold) (rule send_egress_step)

lemma count_relay_step: "media_step s (count_relay plaintext bs s)"
  unfolding count_relay_def
  by (rule media_step_fold) (auto simp: count_block_def Let_def)

lemma store_rtp_safe:
  assumes "entered p rid s"
  shows "safe s (store_rtp hdr plaintext p s)"
proof (cases "h_pt hdr = 96")
  case True
  have "wf_pt (pt s p)" using assms store_okD(2) by (auto simp: entered_def)
  then obtain c where c: "cache_store (p_rtp_cache (pt s p)) (h_seq hdr) plaintext = Some c" "wf_cache c"
    unfolding wf_pt_def using rc.put_wf by blast
  have "media_step s (on_pt p (\<lambda>q. q\<lparr>p_rtp_cache := c\<rparr>) s)"
    by (rule media_step_on_pt) (use c in \<open>auto simp: same_media_def same_id_def session_def wf_pt_def wf_tracks_def split: pc_type.splits\<close>)
  then show ?thesis using True c by (auto simp: store_rtp_def intro!: safe_Some intro: media_step_trans)
qed (simp add: store_rtp_def safe_def)

lemma record_twcc_safe:
  assumes "entered p rid s"
  shows "safe s (record_twcc arrival plaintext p s)"
proof -
  obtain found where f: "parse_twcc_seq plaintext TWCC_EXTMAP_ID = Some found"
    using parse_twcc_seq_total by fastforce
  show ?thesis
  proof (cases found)
    case (Some sq)
    have "wf_pt (pt s p)" using assms store_okD(2) by (auto simp: entered_def)
    then obtain c where c: "twcc_record (p_twcc_recorder (pt s p)) sq arrival = Some c" "wf_recorder c"
      unfolding wf_pt_def using tw.put_wf by blast
    have "media_step s (on_pt p (\<lambda>q. q\<lparr>p_twcc_recorder := c\<rparr>) s)"
      by (rule media_step_on_pt) (use c in \<open>auto simp: same_media_def same_id_def session_def wf_pt_def wf_tracks_def split: pc_type.splits\<close>)
    then show ?thesis using Some f c by (auto simp: record_twcc_def intro!: safe_Some intro: media_step_trans)
  qed (simp add: record_twcc_def f safe_def)
qed

lemma rewrite_same_room:
  "rewrite (audio_rewriter r) p u k = Some (x, b, w) \<Longrightarrow> same_room r (r\<lparr>audio_rewriter := w\<rparr>)"
  "rewrite (video_rewriter r) p u k = Some (x, b, w) \<Longrightarrow> same_room r (r\<lparr>video_rewriter := w\<rparr>)"
  using rewrite_speaker rewrite_virtual_ssrc unfolding same_room_def
  by (metis room.surjective room.update_convs(7) room.update_convs(8))+

lemma ptt_payload_cases:
  assumes "entered p rid s"
  shows "\<exists>pl s'. ptt_payload hdr plaintext rid sender s = Some (pl, s') \<and> media_step s s'"
proof -
  obtain r where r: "room_of s rid = Some r" using entered_room [OF assms] by blast
  show ?thesis
  proof (cases "r_mode r = Ptt")
    case True
    obtain x b w where a: "rewrite (audio_rewriter r) plaintext sender False = Some (x, b, w)"
      using rewrite_total by (metis not_None_eq prod_cases3)
    obtain k where k: "is_vp8_keyframe plaintext = Some k" using is_vp8_keyframe_total by blast
    obtain x' b' w' where v: "rewrite (video_rewriter r) plaintext sender k = Some (x', b', w')"
      using rewrite_total by (metis not_None_eq prod_cases3)
    have sa: "media_step s (set_room rid (r\<lparr>audio_rewriter := w\<rparr>) s)"
      by (rule media_step_set_room [OF r rewrite_same_room(1) [OF a]])
    have sv: "media_step s (set_room rid (r\<lparr>video_rewriter := w'\<rparr>) (if k then bump Ptt_keyframe_arrived 1 s else s))"
    proof -
      have "room_of (if k then bump Ptt_keyframe_arrived 1 s else s) rid = Some r" using r by simp
      from media_step_set_room [OF this rewrite_same_room(2) [OF v]] show ?thesis
        by (auto split: if_splits)
    qed
    show ?thesis
      using sa sv r True
      by (cases "h_pt hdr = 111"; cases "h_pt hdr = 96"; cases x; cases x')
         (auto simp: ptt_payload_def a k v Let_def)
  qed (simp add: ptt_payload_def r)
qed

lemma handle_publish_rtp_safe:
  assumes "entered p rid s"
  shows "safe s (handle_publish_rtp e arrival buf p rid s)"
proof -
  obtain res s1 where c: "with_inbound (decrypt_rtp (srtp e)) Publish p buf s = (res, s1)" by fastforce
  have 1: "media_step s s1" "entered p rid s1" using with_srtp_step(1) [OF c] entered_step [OF assms] by blast+
  have "safe s1 (handle_publish_rtp e arrival buf p rid s)"
  proof (cases res)
    case (Inr plaintext)
    obtain hdr where h: "parse_rtp_header plaintext = Some hdr" using parse_rtp_header_total by fastforce
    show ?thesis
      unfolding handle_publish_rtp_def c Inr prod.case sum.case h Option.bind.bind_lunit
    proof (intro safe_bind)
      show "safe s1 (store_rtp hdr plaintext p s1)" by (rule store_rtp_safe [OF 1(2)])
    next
      fix s2 assume 2: "media_step s1 s2"
      note e2 = entered_step [OF 1(2) 2]
      show "safe s2 (record_twcc arrival plaintext p s2)" by (rule record_twcc_safe [OF e2])
    next
      fix s2 s3 assume "media_step s1 s2" "media_step s2 s3"
      note e3 = entered_step [OF entered_step [OF 1(2) this(1)] this(2)]
      obtain r where r: "room_of s3 rid = Some r" using entered_room [OF e3] by blast
      obtain pl s4 where pp: "ptt_payload hdr plaintext rid (p_user_id (pt s3 p)) s3 = Some (pl, s4)" "media_step s3 s4"
        using ptt_payload_cases [OF e3] by blast
      show "safe s3 (Option.bind (room_of s3 rid) (\<lambda>r. let sender = p_user_id (pt s3 p) in
          if r_mode r = Ptt \<and> \<not> floor_allows r sender then Some (bump Ptt_rtp_gated 1 s3)
          else Option.bind (ptt_payload hdr plaintext rid sender s3) (\<lambda>(payload, s).
            Some (case payload of None \<Rightarrow> s
              | Some fanout_payload \<Rightarrow> fan_out (Rtp fanout_payload) sender (participants r) s))))"
        using pp by (auto simp: r Let_def intro!: safe_Some intro: media_step_trans fan_out_step split: option.splits)
    qed
  qed (auto simp: handle_publish_rtp_def c intro: safe_Some)
  then show ?thesis by (rule safe_from [OF 1(1)])
qed

lemma fan_out_bumped [simp]: "media_step s (fan_out pkt sender ps (bump c n s))"
  using fan_out_step [of "bump c n s" pkt sender ps] by simp

lemma relay_publish_rtcp_safe:
  assumes "entered p rid s"
  shows "safe s (relay_publish_rtcp plaintext p rid s)"
  using entered_room [OF assms] by (auto simp: relay_publish_rtcp_def Let_def intro!: safe_Some)

lemma rtx_packets_safe:
  assumes "entered p rid s"
  shows "\<exists>pkts s'. rtx_packets rtx_ssrc p seqs s = Some (pkts, s') \<and> media_step s s'"
  using assms
proof (induction seqs arbitrary: s)
  case (Cons lost seqs)
  have "wf_pt (pt s p)" using Cons.prems store_okD(2) by (auto simp: entered_def)
  then have "wf_cache (p_rtp_cache (pt s p))" by (simp add: wf_pt_def)
  then obtain cached where c: "cache_get (p_rtp_cache (pt s p)) lost = Some cached"
    using cache_get_total by fastforce
  show ?case
  proof (cases cached)
    case (Some original)
    let ?s = "on_pt p (\<lambda>q. snd (next_rtx_seq q)) s"
    have st: "media_step s ?s"
      by (rule media_step_on_pt)
         (auto simp: next_rtx_seq_def same_media_def same_id_def session_def wf_pt_def wf_tracks_def split: pc_type.splits)
    obtain pkt where b: "build_rtx_packet original rtx_ssrc (fst (next_rtx_seq (pt s p))) = Some pkt"
      using build_rtx_total by blast
    obtain pkts s' where "rtx_packets rtx_ssrc p seqs ?s = Some (pkts, s')" "media_step ?s s'"
      using Cons.IH [OF entered_step [OF Cons.prems st]] by blast
    then show ?thesis using media_step_trans [OF st] by (simp add: c Some b Let_def)
  qed (use Cons c in simp)
qed simp

lemma handle_nack_item_safe:
  assumes "entered p rid s"
  shows "safe s (handle_nack_item subscriber rid nack s)"
proof -
  obtain r where r: "room_of s rid = Some r" using entered_room [OF assms] by blast
  obtain l q k where n: "nack_lookup s r (n_media_ssrc nack) (expand_nack (n_pid nack) (n_blp nack)) = (l, q, k)"
    by (metis prod_cases3)
  let ?s = "bump Ptt_nack_remapped k s"
  note unf = handle_nack_item_def r n Option.bind.bind_lunit Let_def prod.case
  show ?thesis
  proof (cases "find_by_track_ssrc (heap (hub ?s)) r l")
    case (Some pub)
    have en: "entered pub rid ?s"
    proof -
      have "(u, pub) \<in> set (participants r) \<Longrightarrow> pub < length (heap (hub s))" for u
        using assms store_okD(3) [OF _ r] room_okD(2,5) unfolding entered_def by (metis map_of_eq_Some_iff)
      then show ?thesis using Some assms
        by (auto simp: find_by_track_ssrc_def entered_def find_Some_iff) (metis nth_mem)
    qed
    show ?thesis
    proof (cases "Option.bind (List.find (\<lambda>t. t_ssrc t = l) (get_tracks (pt ?s pub))) t_rtx_ssrc")
      case None
      then show ?thesis using Some by (auto simp: unf intro: safe_Some)
    next
      case (Some rtx)
      obtain pkts s' where x: "rtx_packets rtx pub q ?s = Some (pkts, s')" "media_step ?s s'"
        using rtx_packets_safe [OF en] by blast
      have "media_step s' (fold (\<lambda>pkt. send_egress (Rtp pkt) subscriber) pkts
          (bump Rtx_sent (length pkts) (bump Rtx_cache_miss (length q - length pkts) s')))"
        using fold_send_step [of "bump Rtx_sent (length pkts) (bump Rtx_cache_miss (length q - length pkts) s')"] by simp
      then show ?thesis using x Some \<open>find_by_track_ssrc (heap (hub ?s)) r l = Some pub\<close> media_step_trans [OF x(2)]
        by (auto simp: unf intro!: safe_Some)
    qed
  qed (auto simp: unf intro: safe_Some)
qed

lemma handle_nack_items_safe: "entered p rid s \<Longrightarrow> safe s (handle_nack_items subscriber rid ns s)"
  by (induction ns arbitrary: s) (auto intro: safe_Some safe_bind handle_nack_item_safe entered_step)

lemma handle_nack_block_safe: "entered p rid s \<Longrightarrow> safe s (handle_nack_block data subscriber rid s)"
  using nack_loop_total [of data 0]
  by (auto simp: handle_nack_block_def parse_rtcp_nack_def handle_nack_items_safe)

lemma handle_nack_blocks_safe: "entered p rid s \<Longrightarrow> safe s (handle_nack_blocks bs subscriber rid s)"
  by (induction bs arbitrary: s) (auto intro: safe_Some safe_bind handle_nack_block_safe entered_step)

lemma group_blocks_total:
  "(\<And>b. b \<in> set bs \<Longrightarrow> rb_offset b + rb_length b \<le> length plaintext) \<Longrightarrow>
   group_blocks s r plaintext bs m \<noteq> None"
  by (induction s r plaintext bs m rule: group_blocks.induct) (auto simp: Let_def)

lemma send_to_step: "media_step s (snd (send_to e a b s))"
  by (simp add: send_to_def)

lemma relay_group_safe:
  assumes "entered p rid s"
  shows "safe s (relay_group e rid g s)"
proof -
  obtain r where r: "room_of s rid = Some r" using entered_room [OF assms] by blast
  have "media_step s (case with_outbound f pc q b s of (Inl err, s) \<Rightarrow> s | (Inr enc, s) \<Rightarrow> snd (send_to e a enc s))"
    for f pc q b a
  proof -
    obtain res s' where w: "with_outbound f pc q b s = (res, s')" by fastforce
    show ?thesis using with_srtp_step(3) [OF w] media_step_trans [OF with_srtp_step(3) [OF w] send_to_step]
      by (auto simp: w split: sum.splits)
  qed
  then show ?thesis by (auto simp: relay_group_def r intro!: safe_Some split: option.splits)
qed

lemma relay_groups_safe: "entered p rid s \<Longrightarrow> safe s (relay_groups e rid gs s)"
  by (induction gs arbitrary: s) (auto intro: safe_Some safe_bind relay_group_safe entered_step)

lemma handle_subscribe_rtcp_safe:
  assumes "entered p rid s"
  shows "safe s (handle_subscribe_rtcp e order buf p rid s)"
proof -
  let ?s = "bump Sub_rtcp_received 1 s"
  obtain res s1 where c: "with_inbound (decrypt_rtcp (srtp e)) Subscribe p buf ?s = (res, s1)" by fastforce
  have 1: "media_step s s1" "entered p rid s1"
    using with_srtp_step(2) [OF c] entered_step [OF assms, of s1] by simp_all
  show ?thesis
  proof (cases "is_rtcp buf")
    case True
    have "safe s1 (handle_subscribe_rtcp e order buf p rid s)"
    proof (cases res)
      case (Inr plaintext)
      obtain parsed where sp: "split_compound_rtcp plaintext = Some parsed"
        using split_loop_total by (fastforce simp: split_compound_rtcp_def)
      have refs: "b \<in> set (relay_blocks parsed) \<Longrightarrow> rb_offset b + rb_length b \<le> length plaintext" for b
        using split_loop_refs [of plaintext 0 parsed b] sp by (simp add: split_compound_rtcp_def)
      let ?s1 = "bump Nack_received (length (nack_blocks parsed)) (bump Sub_rtcp_decrypted 1 s1)"
      have e1: "entered p rid ?s1" using entered_step [OF 1(2), of ?s1] by simp
      have "safe ?s1 (handle_subscribe_rtcp e order buf p rid s)"
        unfolding handle_subscribe_rtcp_def Let_def c Inr prod.case sum.case sp Option.bind.bind_lunit
        using True
      proof (simp only: simp_thms if_False, intro safe_bind)
        show "safe ?s1 (handle_nack_blocks (nack_blocks parsed) p rid ?s1)" by (rule handle_nack_blocks_safe [OF e1])
        fix s2 assume "media_step ?s1 s2"
        note e2 = entered_step [OF e1 this]
        let ?s2 = "count_relay plaintext (relay_blocks parsed) s2"
        note e3 = entered_step [OF e2 count_relay_step]
        obtain r where r: "room_of ?s2 rid = Some r" using entered_room [OF e3] by blast
        obtain m where m: "group_blocks ?s2 r plaintext (relay_blocks parsed) [] = Some m"
          using group_blocks_total refs by fastforce
        show "safe s2 (if relay_blocks parsed = [] then Some s2 else
            Option.bind (room_of ?s2 rid) (\<lambda>r. Option.bind (group_blocks ?s2 r plaintext (relay_blocks parsed) [])
              (\<lambda>m. relay_groups e rid (order m) ?s2)))"
          using safe_from [OF count_relay_step relay_groups_safe [OF e3]] by (auto simp: r m intro: safe_Some)
      qed
      then show ?thesis by (rule safe_from [rotated]) simp
    qed (auto simp: handle_subscribe_rtcp_def c True Let_def simp del: One_nat_def intro: safe_Some)
    then show ?thesis by (rule safe_from [OF 1(1)])
  qed (auto simp: handle_subscribe_rtcp_def intro: safe_Some)
qed

lemma found_entered:
  assumes "store_ok s" and "find_by_addr (hub s) a = Some (p, pc, rid)"
  shows "entered p rid s"
proof -
  obtain r where r: "map_of (rooms (hub s)) rid = Some r" "by_addr r a = Some (p, pc)"
    using assms(2) by (auto simp: find_by_addr_def get_by_addr_def split: Option.bind_splits)
  then have "room_ok (heap (hub s)) rid r" using store_okD(3) [OF assms(1)] by (simp add: room_of_def)
  then show ?thesis using assms(1) r room_okD(5,10) by (fastforce simp: entered_def room_of_def)
qed

lemma handle_srtp_returns:
  assumes "store_ok s"
  shows "safe s (handle_srtp e order now arrival buf remote s)"
proof (cases "find_by_addr (hub s) remote")
  case (Some f)
  then obtain p pc rid where f: "find_by_addr (hub s) remote = Some (p, pc, rid)" by (cases f) auto
  let ?s = "on_pt p (touch now) s"
  have en: "entered p rid ?s" by (rule entered_step [OF found_entered [OF assms f] touch_step])
  obtain res s1 where c: "with_inbound (decrypt_rtcp (srtp e)) Publish p buf ?s = (res, s1)" by fastforce
  note st = with_srtp_step(2) [OF c]
  have "safe ?s (case res of Inl err \<Rightarrow> Some (bump Decrypt_fail 1 s1) | Inr plaintext \<Rightarrow> relay_publish_rtcp plaintext p rid s1)"
    using st safe_from [OF st relay_publish_rtcp_safe [OF entered_step [OF en st]]]
    by (auto intro: safe_Some split: sum.splits)
  then have "safe ?s (handle_srtp e order now arrival buf remote s)"
    by (auto simp: handle_srtp_def f Let_def c handle_subscribe_rtcp_safe [OF en] handle_publish_rtp_safe [OF en]
        intro: safe_Some split: sum.splits)
  then show ?thesis by (rule safe_from [OF touch_step])
qed (simp add: handle_srtp_def safe_Some)

lemma handle_srtp_safe: "app_ok s \<Longrightarrow> safe s (handle_srtp e order now arrival buf remote s)"
  by (rule handle_srtp_returns [OF app_ok_store])

text \<open>
  No datagram harms the media path. From a state that satisfies the invariant, handling
  any datagram from any address returns without a panic; the invariant holds again, and
  the step changed no identity, track, mute state, address, key state or floor and sent
  nothing but datagrams, whatever the SRTP package returned and in whatever order the map
  of relayed blocks was iterated.
\<close>

theorem media_handler_safe:
  assumes "app_ok s"
  shows "\<exists>s'. handle_srtp e order now arrival buf remote s = Some s' \<and> app_ok s' \<and> media_step s s'"
  using handle_srtp_safe [OF assms] media_stepD(1) assms by (fastforce simp: safe_def)

section \<open>The floor gates the media\<close>

definition quiet :: "'c app \<Rightarrow> 'c app \<Rightarrow> bool" where
  "quiet s s' \<longleftrightarrow> (\<forall>q. egress_queue (pt s' q) = egress_queue (pt s q)) \<and> out s' = out s"

lemma quiet_refl [simp]: "quiet s s"
  by (simp add: quiet_def)

lemma quiet_trans: "quiet s1 s2 \<Longrightarrow> quiet s2 s3 \<Longrightarrow> quiet s1 s3"
  by (simp add: quiet_def)

lemma quiet_bump_iff [simp]:
  "quiet s (bump c n s') = quiet s s'" "quiet (bump c n s) s' = quiet s s'"
  by (simp_all add: quiet_def)

lemma quiet_on_pt: "(\<And>q. egress_queue (f q) = egress_queue q) \<Longrightarrow> quiet s (on_pt p f s)"
  by (cases "p < length (heap (hub s))") (auto simp: quiet_def pt_on_pt pt_on_pt_outside)

lemma quiet_set_room [simp]: "quiet s (set_room rid r s') = quiet s s'"
  by (simp add: quiet_def)

lemma quiet_touch: "quiet s (on_pt p (touch now) s)"
  by (rule quiet_on_pt) (simp add: touch_def)

lemma quiet_with_inbound: "with_inbound f pc p buf s = (r, s') \<Longrightarrow> quiet s s'"
  by (auto simp: with_inbound_def map_session_def intro!: quiet_on_pt split: pc_type.splits)

lemma quiet_store_rtp: "store_rtp hdr plaintext p s = Some s' \<Longrightarrow> quiet s s'"
  by (auto simp: store_rtp_def intro!: quiet_on_pt split: if_splits Option.bind_splits)

lemma quiet_record_twcc: "record_twcc arrival plaintext p s = Some s' \<Longrightarrow> quiet s s'"
  by (auto simp: record_twcc_def intro!: quiet_on_pt split: if_splits Option.bind_splits option.splits)

text \<open>The publish RTP path up to the gate.\<close>

lemma publish_rtp_before_gate:
  assumes en: "entered p rid s" and h: "handle_publish_rtp e arrival buf p rid s = Some s'"
    and user: "p_user_id (pt s p) = sender"
  obtains (failed) err s1 where "fst (decrypt_rtp (srtp e) (inbound_srtp (publish (pt s p))) buf) = Inl err"
      "quiet s s'" "media_step s s'"
  | (arrived) plaintext hdr s3 r where
      "fst (decrypt_rtp (srtp e) (inbound_srtp (publish (pt s p))) buf) = Inr plaintext"
      "parse_rtp_header plaintext = Some hdr" "quiet s s3" "media_step s s3" "entered p rid s3"
      "counts (metrics s3) Egress_drop = counts (metrics s) Egress_drop"
      "room_of s rid = Some r" "room_of s3 rid = Some r"
      "(if r_mode r = Ptt \<and> \<not> floor_allows r sender then Some (bump Ptt_rtp_gated 1 s3)
        else Option.bind (ptt_payload hdr plaintext rid sender s3) (\<lambda>(payload, s4).
          Some (case payload of None \<Rightarrow> s4
            | Some fanout_payload \<Rightarrow> fan_out (Rtp fanout_payload) sender (participants r) s4))) = Some s'"
proof -
  obtain res s1 where c: "with_inbound (decrypt_rtp (srtp e)) Publish p buf s = (res, s1)" by fastforce
  have res: "res = fst (decrypt_rtp (srtp e) (inbound_srtp (publish (pt s p))) buf)"
    using c by (simp add: with_inbound_def session_def)
  have q1: "quiet s s1" "media_step s s1" "room_of s1 rid = room_of s rid" "metrics s1 = metrics s"
    using quiet_with_inbound [OF c] with_srtp_step(1) [OF c] c by (auto simp: with_inbound_def)
  show thesis
  proof (cases res)
    case (Inl err)
    then show thesis using failed h q1 res by (auto simp: handle_publish_rtp_def c)
  next
    case (Inr plaintext)
    obtain hdr where hd: "parse_rtp_header plaintext = Some hdr" using parse_rtp_header_total by fastforce
    note e1 = entered_step [OF en q1(2)]
    obtain s2 where s2: "store_rtp hdr plaintext p s1 = Some s2" "media_step s1 s2"
      using store_rtp_safe [OF e1] by (auto simp: safe_def)
    note e2 = entered_step [OF e1 s2(2)]
    obtain s3 where s3: "record_twcc arrival plaintext p s2 = Some s3" "media_step s2 s3"
      using record_twcc_safe [OF e2] by (auto simp: safe_def)
    have r: "room_of s3 rid = room_of s rid" and m: "counts (metrics s3) Egress_drop = counts (metrics s) Egress_drop"
      using s2(1) s3(1) q1(3,4)
      by (auto simp: store_rtp_def record_twcc_def split: if_splits Option.bind_splits option.splits)
    obtain rr where rr: "room_of s rid = Some rr" using entered_room [OF en] by blast
    have st: "media_step s s3" using q1(2) s2(2) s3(2) media_step_trans by blast
    have u: "p_user_id (pt s3 p) = sender"
      using media_stepD(3) [OF st, of p] user by (simp add: same_media_def same_id_def)
    show thesis
    proof (rule arrived [OF _ hd _ st entered_step [OF en st] m rr])
      show "fst (decrypt_rtp (srtp e) (inbound_srtp (publish (pt s p))) buf) = Inr plaintext" using res Inr by simp
      show "quiet s s3" using q1(1) quiet_store_rtp [OF s2(1)] quiet_record_twcc [OF s3(1)] quiet_trans by blast
      show "room_of s3 rid = Some rr" using r rr by simp
      then show "(if r_mode rr = Ptt \<and> \<not> floor_allows rr sender then Some (bump Ptt_rtp_gated 1 s3)
        else Option.bind (ptt_payload hdr plaintext rid sender s3) (\<lambda>(payload, s4).
          Some (case payload of None \<Rightarrow> s4
            | Some fanout_payload \<Rightarrow> fan_out (Rtp fanout_payload) sender (participants rr) s4))) = Some s'"
        using h [unfolded handle_publish_rtp_def c Inr prod.case sum.case hd Option.bind.bind_lunit s2(1) s3(1) Let_def u]
        by simp
    qed
  qed
qed

lemma handle_srtp_publish:
  assumes "find_by_addr (hub s) remote = Some (p, Publish, rid)"
  shows "handle_srtp e order now arrival buf remote s =
    (let s = on_pt p (touch now) s in
     if \<not> is_publish_ready (pt s p) then Some s
     else if is_rtcp buf then
       (case with_inbound (decrypt_rtcp (srtp e)) Publish p buf s of
          (Inl err, s) \<Rightarrow> Some (bump Decrypt_fail 1 s)
        | (Inr plaintext, s) \<Rightarrow> relay_publish_rtcp plaintext p rid s)
     else handle_publish_rtp e arrival buf p rid s)"
  by (simp add: handle_srtp_def assms is_publish_ready_def)

text \<open>
  C9: the media gate of push-to-talk. A datagram, RTP or RTCP, from the publish address of
  a participant of a push-to-talk room who does not hold the floor puts nothing in any
  egress queue and sends nothing.
\<close>

theorem ptt_media_gate:
  assumes ok: "app_ok s" and f: "find_by_addr (hub s) remote = Some (p, Publish, rid)"
    and r: "room_of s rid = Some r" "r_mode r = Ptt"
    and not_holder: "current_speaker (r_floor r) \<noteq> Some (p_user_id (pt s p))"
    and h: "handle_srtp e order now arrival buf remote s = Some s'"
  shows "(\<forall>q. egress_queue (pt s' q) = egress_queue (pt s q)) \<and> out s' = out s"
proof -
  let ?s = "on_pt p (touch now) s"
  have en: "entered p rid ?s" by (rule entered_step [OF found_entered [OF app_ok_store [OF ok] f] touch_step])
  have u: "p_user_id (pt ?s p) = p_user_id (pt s p)"
    using media_stepD(3) [OF touch_step, of s p p now] by (simp add: same_media_def same_id_def)
  have gate: "\<not> floor_allows r (p_user_id (pt s p))"
    using not_holder by (auto simp: floor_allows_def split: option.splits)
  obtain res s1 where c: "with_inbound (decrypt_rtcp (srtp e)) Publish p buf ?s = (res, s1)" by fastforce
  have c1: "quiet ?s s1" "room_of s1 rid = Some r" "p_user_id (pt s1 p) = p_user_id (pt s p)"
    using quiet_with_inbound [OF c] c r(1) u media_stepD(3) [OF with_srtp_step(2) [OF c], of p]
    by (auto simp: with_inbound_def same_media_def same_id_def)
  have "quiet ?s s'" if "handle_publish_rtp e arrival buf p rid ?s = Some s'"
    using en that u by (cases rule: publish_rtp_before_gate) (use gate r in \<open>auto intro: quiet_trans\<close>)
  then have "quiet ?s s'"
    using h c1 gate r
    by (auto simp: handle_srtp_publish [OF f] Let_def c relay_publish_rtcp_def split: if_splits sum.splits)
  then show ?thesis using quiet_trans [OF quiet_touch] unfolding quiet_def by blast
qed

section \<open>What the fan-out delivers\<close>

lemma room_prefs_distinct: "room_ok h rid r \<Longrightarrow> distinct (map snd (participants r))"
proof -
  assume ok: "room_ok h rid r"
  have d: "distinct (map fst (participants r))" using room_okD(2) [OF ok] .
  have "p_user_id (deref h q) = u" if "(u, q) \<in> set (participants r)" for u q
    using room_okD(6) [OF ok] map_of_is_SomeI [OF d that] by blast
  then have "inj_on snd (set (participants r))" unfolding inj_on_def by (metis prod.collapse)
  moreover have "distinct (participants r)" using d by (simp add: distinct_map)
  ultimately show ?thesis by (simp add: distinct_map)
qed

lemma room_prefs_bound: "room_ok h rid r \<Longrightarrow> (u, q) \<in> set (participants r) \<Longrightarrow> q < length h"
  using room_okD(2,5) map_of_is_SomeI by metis

definition receives :: "'c app \<Rightarrow> string \<Rightarrow> (string \<times> pref) list \<Rightarrow> pref \<Rightarrow> bool" where
  "receives s sender ps q \<longleftrightarrow> (\<exists>u. (u, q) \<in> set ps \<and> u \<noteq> sender) \<and> is_subscribe_ready (pt s q)"

lemma length_send_egress [simp]: "length (heap (hub (send_egress pkt p s))) = length (heap (hub s))"
  by (rule media_stepD(2) [OF send_egress_step])

lemma pt_send_egress:
  "p < length (heap (hub s)) \<Longrightarrow> pt (send_egress pkt p s) q = (if q = p then snd (try_send pkt (pt s p)) else pt s q)"
  by (simp add: send_egress_def Let_def pt_on_pt)

lemma is_subscribe_ready_try_send [simp]: "is_subscribe_ready (snd (try_send pkt p)) = is_subscribe_ready p"
  by (simp add: try_send_def is_subscribe_ready_def)

lemma fan_out_pt:
  "distinct (map snd ps) \<Longrightarrow> (\<forall>(u, p) \<in> set ps. p < length (heap (hub s))) \<Longrightarrow>
   pt (fan_out pkt sender ps s) q = (if receives s sender ps q then snd (try_send pkt (pt s q)) else pt s q)"
proof (induction pkt sender ps s rule: fan_out.induct)
  case (2 pkt sender uid p ps s)
  have notin: "(u, p) \<notin> set ps" for u using "2.prems"(1) by force
  consider "uid = sender" | "uid \<noteq> sender" "\<not> is_subscribe_ready (pt s p)"
    | "uid \<noteq> sender" "is_subscribe_ready (pt s p)" by blast
  then show ?case
  proof cases
    case 3
    have p: "p < length (heap (hub s))" using "2.prems"(2) by simp
    have IH: "pt (fan_out pkt sender ps (send_egress pkt p s)) q =
        (if receives (send_egress pkt p s) sender ps q then snd (try_send pkt (pt (send_egress pkt p s) q))
         else pt (send_egress pkt p s) q)"
      using "2.IH"(3) 3 "2.prems" by simp
    show ?thesis using 3 IH notin by (auto simp: pt_send_egress [OF p] receives_def)
  qed (use 2 notin in \<open>auto simp: receives_def\<close>)
qed (simp add: receives_def)

lemma fan_out_rooms [simp]: "room_of (fan_out pkt sender ps s) rid = room_of s rid"
  and fan_out_out [simp]: "out (fan_out pkt sender ps s) = out s"
  by (induction pkt sender ps s rule: fan_out.induct) (auto simp: send_egress_def Let_def)

text \<open>The drops are the ready receivers whose queue is full.\<close>

definition full_queues :: "'c app \<Rightarrow> string \<Rightarrow> (string \<times> pref) list \<Rightarrow> nat" where
  "full_queues s sender ps =
     length (filter (\<lambda>(u, p). u \<noteq> sender \<and> is_subscribe_ready (pt s p) \<and> EGRESS_QUEUE_SIZE \<le> length (egress_queue (pt s p))) ps)"

lemma fan_out_drops:
  "distinct (map snd ps) \<Longrightarrow> (\<forall>(u, p) \<in> set ps. p < length (heap (hub s))) \<Longrightarrow>
   counts (metrics (fan_out pkt sender ps s)) Egress_drop =
     counts (metrics s) Egress_drop + of_nat (full_queues s sender ps)"
proof (induction pkt sender ps s rule: fan_out.induct)
  case (2 pkt sender uid p ps s)
  have p: "p < length (heap (hub s))" using "2.prems"(2) by simp
  have same: "full_queues (send_egress pkt p s) sender ps = full_queues s sender ps"
  proof -
    have "(u, p) \<notin> set ps" for u using "2.prems"(1) by force
    then have "pt (send_egress pkt p s) (snd x) = pt s (snd x)" if "x \<in> set ps" for x
      using that by (cases x) (auto simp: pt_send_egress [OF p])
    then show ?thesis unfolding full_queues_def by (intro arg_cong [of _ _ length] filter_cong) auto
  qed
  have drop: "counts (metrics (send_egress pkt p s)) Egress_drop = counts (metrics s) Egress_drop +
      (if EGRESS_QUEUE_SIZE \<le> length (egress_queue (pt s p)) then 1 else 0)"
    by (auto simp: send_egress_def Let_def try_send_def)
  show ?case using 2 same drop by (auto simp: full_queues_def)
qed (simp add: full_queues_def)

text \<open>
  Who gets a packet: the other members whose subscribe session is keyed and whose queue
  has room.
\<close>

definition delivers_to :: "'c app \<Rightarrow> room \<Rightarrow> string \<Rightarrow> pref \<Rightarrow> bool" where
  "delivers_to s r sender q \<longleftrightarrow> (\<exists>uid. get_participant r uid = Some q \<and> uid \<noteq> sender) \<and>
     is_subscribe_ready (pt s q) \<and> length (egress_queue (pt s q)) < 256"

lemma fan_out_delivers:
  assumes q: "quiet s s1" and st: "media_step s s1" and ok: "store_ok s"
    and r: "room_of s rid = Some r"
  shows "egress_queue (pt (fan_out pkt u (participants r) s1) q) =
      egress_queue (pt s q) @ (if delivers_to s r u q then [pkt] else [])"
    and "counts (metrics (fan_out pkt u (participants r) s1)) Egress_drop =
      counts (metrics s1) Egress_drop + of_nat (full_queues s u (participants r))"
proof -
  have q1: "egress_queue (pt s1 q) = egress_queue (pt s q)" for q
    using q by (simp add: quiet_def)
  have sub: "is_subscribe_ready (pt s1 q) = is_subscribe_ready (pt s q)" for q
    using media_stepD(3) [OF st, of q] unfolding same_media_def is_subscribe_ready_def session_def
    by (metis pc_type.simps(4))
  have rok: "room_ok (heap (hub s)) rid r" using store_okD(3) [OF ok r] .
  have d: "distinct (map snd (participants r))" "\<forall>(u, p) \<in> set (participants r). p < length (heap (hub s1))"
    using room_prefs_distinct [OF rok] room_prefs_bound [OF rok] media_stepD(2) [OF st] by auto
  have mem: "(u, q) \<in> set (participants r) \<longleftrightarrow> get_participant r u = Some q" for u q
    using room_okD(2) [OF rok] by (simp add: get_participant_def)
  show "egress_queue (pt (fan_out pkt u (participants r) s1) q) =
      egress_queue (pt s q) @ (if delivers_to s r u q then [pkt] else [])"
    unfolding fan_out_pt [OF d] by (auto simp: try_send_def q1 EGRESS_QUEUE_SIZE_def receives_def mem sub delivers_to_def)
  show "counts (metrics (fan_out pkt u (participants r) s1)) Egress_drop =
      counts (metrics s1) Egress_drop + of_nat (full_queues s u (participants r))"
    unfolding fan_out_drops [OF d] by (simp add: full_queues_def sub q1)
qed

text \<open>What reaches the publish RTP path.\<close>

lemma enter_publish_rtp:
  assumes ok: "store_ok s" and f: "find_by_addr (hub s) remote = Some (p, Publish, rid)"
    and ready: "is_publish_ready (pt s p)" and rtp: "\<not> is_rtcp buf"
    and h: "handle_srtp e order now arrival buf remote s = Some s'"
  obtains s0 where "handle_publish_rtp e arrival buf p rid s0 = Some s'" "entered p rid s0"
    "media_step s s0" "quiet s s0" "metrics s0 = metrics s" "\<And>x. room_of s0 x = room_of s x"
    "p_user_id (pt s0 p) = p_user_id (pt s p)" "inbound_srtp (publish (pt s0 p)) = inbound_srtp (publish (pt s p))"
proof
  let ?s = "on_pt p (touch now) s"
  have p: "p < length (heap (hub s))" using found_entered [OF ok f] by (simp add: entered_def)
  then have t: "pt ?s p = touch now (pt s p)" by (simp add: pt_on_pt)
  show "handle_publish_rtp e arrival buf p rid ?s = Some s'"
    using h ready rtp by (simp add: handle_srtp_publish [OF f] t touch_def is_publish_ready_def)
  show "entered p rid ?s" by (rule entered_step [OF found_entered [OF ok f] touch_step])
  show "media_step s ?s" "quiet s ?s" by (rule touch_step quiet_touch)+
  show "metrics ?s = metrics s" "room_of ?s x = room_of s x" for x by simp_all
  show "p_user_id (pt ?s p) = p_user_id (pt s p)" "inbound_srtp (publish (pt ?s p)) = inbound_srtp (publish (pt s p))"
    by (simp_all add: t touch_def)
qed

text \<open>
  C10: the fan-out of a conference. When a keyed publisher's datagram decrypts to an RTP
  packet, every other member of the room whose subscribe session is keyed and whose egress
  queue has room gets exactly this packet at the end of the queue; all other queues are
  unchanged, the publisher's own and those of strangers included; and the drop counter
  grows by the number of ready members whose queue is full.
\<close>

theorem rtp_fan_out:
  assumes ok: "app_ok s" and f: "find_by_addr (hub s) remote = Some (p, Publish, rid)"
    and r: "room_of s rid = Some r" "r_mode r = Conference"
    and ready: "is_publish_ready (pt s p)" and rtp: "\<not> is_rtcp buf"
    and plain: "fst (decrypt_rtp (srtp e) (inbound_srtp (publish (pt s p))) buf) = Inr plaintext"
    and h: "handle_srtp e order now arrival buf remote s = Some s'"
  shows "(\<forall>q. egress_queue (pt s' q) = egress_queue (pt s q) @
        (if delivers_to s r (p_user_id (pt s p)) q then [Rtp plaintext] else [])) \<and>
    counts (metrics s') Egress_drop = counts (metrics s) Egress_drop + of_nat (full_queues s (p_user_id (pt s p)) (participants r))"
proof -
  obtain s0 where s0: "handle_publish_rtp e arrival buf p rid s0 = Some s'" "entered p rid s0"
      "media_step s s0" "quiet s s0" "metrics s0 = metrics s" "\<And>x. room_of s0 x = room_of s x"
      "p_user_id (pt s0 p) = p_user_id (pt s p)" "inbound_srtp (publish (pt s0 p)) = inbound_srtp (publish (pt s p))"
    by (rule enter_publish_rtp [OF app_ok_store [OF ok] f ready rtp h]) blast
  obtain s3 where s3: "quiet s0 s3" "media_step s0 s3"
      "counts (metrics s3) Egress_drop = counts (metrics s) Egress_drop"
      "s' = fan_out (Rtp plaintext) (p_user_id (pt s p)) (participants r) s3"
    using s0(2,1,7) plain r s0(5,6,8)
    by (cases rule: publish_rtp_before_gate) (auto simp: ptt_payload_def)
  show ?thesis
    using fan_out_delivers [OF quiet_trans [OF s0(4) s3(1)] media_step_trans [OF s0(3) s3(2)] app_ok_store [OF ok] r(1),
        of "Rtp plaintext" "p_user_id (pt s p)"] s3(3,4) by simp
qed

text \<open>The payload of the speaker: the rewritten packet, unless a keyframe is awaited.\<close>

definition speaker_rewriter :: "room \<Rightarrow> u8 \<Rightarrow> ptt_rewriter" where
  "speaker_rewriter r payload_type = (if payload_type = 111 then audio_rewriter r else video_rewriter r)"

definition awaits_keyframe :: "room \<Rightarrow> u8 \<Rightarrow> bytes \<Rightarrow> bool" where
  "awaits_keyframe r payload_type pl \<longleftrightarrow> pending_keyframe (rw_state (speaker_rewriter r payload_type)) \<and>
     \<not> (payload_type = 96 \<and> is_vp8_keyframe pl = Some True)"

lemma ptt_payload_speaker:
  assumes r: "room_of s rid = Some r" "r_mode r = Ptt" and len: "12 \<le> length pl"
    and sp: "rw_speaker (rw_state (audio_rewriter r)) = Some u" "rw_speaker (rw_state (video_rewriter r)) = Some u"
    and hp: "h_pt hdr = 111 \<or> h_pt hdr = 96"
  shows "\<exists>s'. ptt_payload hdr pl rid u s =
      Some (if awaits_keyframe r (h_pt hdr) pl then None else Some (rewritten (speaker_rewriter r (h_pt hdr)) pl), s') \<and>
    quiet s s' \<and> counts (metrics s') Egress_drop = counts (metrics s) Egress_drop"
proof -
  obtain k where k: "is_vp8_keyframe pl = Some k" using is_vp8_keyframe_total by blast
  have a: "rewrite (audio_rewriter r) pl u False =
      (if awaits_keyframe r 111 pl then Some (PendingKeyframe, pl, audio_rewriter r)
       else Some (Ok, rewritten (audio_rewriter r) pl, after_ok (audio_rewriter r) pl))"
    using rewrite_pending [OF len sp(1)] rewrite_ok [OF len sp(1)]
    by (auto simp: awaits_keyframe_def speaker_rewriter_def)
  have v: "rewrite (video_rewriter r) pl u k =
      (if awaits_keyframe r 96 pl then Some (PendingKeyframe, pl, video_rewriter r)
       else Some (Ok, rewritten (video_rewriter r) pl, after_ok (video_rewriter r) pl))"
    using rewrite_pending [OF len sp(2)] rewrite_ok [OF len sp(2)]
    by (auto simp: awaits_keyframe_def speaker_rewriter_def k)
  from hp show ?thesis
    by (elim disjE) (simp_all add: ptt_payload_def r a v k Let_def speaker_rewriter_def)
qed

text \<open>
  C11: what the listeners of a push-to-talk room get. When the holder of the floor sends an
  audio or video packet, it is dropped exactly while the first keyframe of the burst is
  awaited and this is none; otherwise every other ready member gets one packet of the same
  length at the end of its queue, with the room's virtual SSRC for the kind of media and
  with the original payload.
\<close>

theorem ptt_speaker_fan_out:
  assumes ok: "app_ok s" and f: "find_by_addr (hub s) remote = Some (p, Publish, rid)"
    and r: "room_of s rid = Some r" "r_mode r = Ptt"
    and holder: "current_speaker (r_floor r) = Some (p_user_id (pt s p))"
    and ready: "is_publish_ready (pt s p)" and rtp: "\<not> is_rtcp buf"
    and plain: "fst (decrypt_rtp (srtp e) (inbound_srtp (publish (pt s p))) buf) = Inr pl"
    and len: "12 \<le> length pl" and kind: "pl ! 1 AND 0x7F = t" "t = 111 \<or> t = 96"
    and h: "handle_srtp e order now arrival buf remote s = Some s'"
  shows "if awaits_keyframe r t pl then \<forall>q. egress_queue (pt s' q) = egress_queue (pt s q)
    else \<exists>pl'. length pl' = length pl \<and> rtp_ssrc pl' = virtual_ssrc (speaker_rewriter r t) \<and> drop 12 pl' = drop 12 pl \<and>
      (\<forall>q. egress_queue (pt s' q) = egress_queue (pt s q) @
        (if delivers_to s r (p_user_id (pt s p)) q then [Rtp pl'] else []))"
proof -
  let ?u = "p_user_id (pt s p)"
  obtain s0 where s0: "handle_publish_rtp e arrival buf p rid s0 = Some s'" "entered p rid s0"
      "media_step s s0" "quiet s s0" "metrics s0 = metrics s" "\<And>x. room_of s0 x = room_of s x"
      "p_user_id (pt s0 p) = ?u" "inbound_srtp (publish (pt s0 p)) = inbound_srtp (publish (pt s p))"
    by (rule enter_publish_rtp [OF app_ok_store [OF ok] f ready rtp h]) blast
  have sync: "floor_synced r" using app_okD(3) [OF ok r(1)] .
  then have sp: "rw_speaker (rw_state (audio_rewriter r)) = Some ?u" "rw_speaker (rw_state (video_rewriter r)) = Some ?u"
    using holder by (simp_all add: floor_synced_def)
  have pass: "floor_allows r ?u" using holder by (simp add: floor_allows_def)
  obtain hdr s3 where s3: "parse_rtp_header pl = Some hdr" "quiet s0 s3" "media_step s0 s3" "entered p rid s3" "room_of s3 rid = Some r"
      "Option.bind (ptt_payload hdr pl rid ?u s3) (\<lambda>(payload, s4).
          Some (case payload of None \<Rightarrow> s4
            | Some fanout_payload \<Rightarrow> fan_out (Rtp fanout_payload) ?u (participants r) s4)) = Some s'"
    using s0(2,1,7) plain r s0(5,6,8) pass
    by (cases rule: publish_rtp_before_gate) auto
  have pt: "h_pt hdr = t" using s3(1) len kind(1)
    by (auto simp: parse_rtp_header_def config_defs Let_def split: Option.bind_splits)
  obtain s4 where s4: "ptt_payload hdr pl rid ?u s3 =
      Some (if awaits_keyframe r t pl then None else Some (rewritten (speaker_rewriter r t) pl), s4)" "quiet s3 s4"
    using ptt_payload_speaker [OF s3(5) r(2) len sp, of hdr] kind(2) unfolding pt by blast
  have st4: "media_step s3 s4" using ptt_payload_cases [OF s3(4), of hdr pl ?u] s4(1) by auto
  have q4: "quiet s s4" and m4: "media_step s s4"
    using s0(3,4) s3(2,3) s4(2) st4 quiet_trans media_step_trans by blast+
  show ?thesis
  proof (cases "awaits_keyframe r t pl")
    case True
    then show ?thesis using s3(6) s4(1) q4 by (simp add: quiet_def)
  next
    case False
    then have s': "s' = fan_out (Rtp (rewritten (speaker_rewriter r t) pl)) ?u (participants r) s4"
      using s3(6) s4(1) by simp
    show ?thesis
      using False fan_out_delivers(1) [OF q4 m4 app_ok_store [OF ok] r(1), of "Rtp (rewritten (speaker_rewriter r t) pl)" ?u] len
      by (auto simp: s' rewritten_fields intro!: exI [of _ "rewritten (speaker_rewriter r t) pl"])
  qed
qed

text \<open>
  The holder of a floor whose rewriters have lost the speaker. No such state is reached by
  whole turns, but by overlapping floor handlers.
\<close>

lemma ptt_payload_unvoiced:
  assumes r: "room_of s rid = Some r" and sp: "rw_speaker (rw_state (audio_rewriter r)) \<noteq> Some u"
    "rw_speaker (rw_state (video_rewriter r)) \<noteq> Some u"
  shows "\<exists>s'. ptt_payload hdr pl rid u s = Some (Some pl, s') \<and> quiet s s'"
proof -
  obtain k where k: "is_vp8_keyframe pl = Some k" using is_vp8_keyframe_total by blast
  have w: "rewrite (audio_rewriter r) pl u j = Some (Skip, pl, audio_rewriter r)"
    "rewrite (video_rewriter r) pl u j = Some (Skip, pl, video_rewriter r)" for j
    using sp by (simp_all add: rewrite_skip)
  show ?thesis by (simp add: ptt_payload_def r k w Let_def)
qed

lemma unvoiced_fan_out:
  assumes ok: "store_ok s" and f: "find_by_addr (hub s) remote = Some (p, Publish, rid)"
    and r: "room_of s rid = Some r" and holder: "current_speaker (r_floor r) = Some (p_user_id (pt s p))"
    and sp: "rw_speaker (rw_state (audio_rewriter r)) = None" "rw_speaker (rw_state (video_rewriter r)) = None"
    and ready: "is_publish_ready (pt s p)" and rtp: "\<not> is_rtcp buf"
    and plain: "fst (decrypt_rtp (srtp e) (inbound_srtp (publish (pt s p))) buf) = Inr pl"
  shows "\<exists>s'. handle_srtp e order now arrival buf remote s = Some s' \<and>
    (\<forall>q. egress_queue (pt s' q) = egress_queue (pt s q) @ (if delivers_to s r (p_user_id (pt s p)) q then [Rtp pl] else []))"
proof -
  let ?u = "p_user_id (pt s p)"
  obtain s' where h: "handle_srtp e order now arrival buf remote s = Some s'"
    using handle_srtp_returns [OF ok] by (fastforce simp: safe_def)
  obtain s0 where s0: "handle_publish_rtp e arrival buf p rid s0 = Some s'" "entered p rid s0"
      "media_step s s0" "quiet s s0" "metrics s0 = metrics s" "\<And>x. room_of s0 x = room_of s x"
      "p_user_id (pt s0 p) = ?u" "inbound_srtp (publish (pt s0 p)) = inbound_srtp (publish (pt s p))"
    by (rule enter_publish_rtp [OF ok f ready rtp h]) blast
  have pass: "floor_allows r ?u" using holder by (simp add: floor_allows_def)
  obtain hdr s3 where s3: "quiet s0 s3" "media_step s0 s3" "entered p rid s3" "room_of s3 rid = Some r"
      "Option.bind (ptt_payload hdr pl rid ?u s3) (\<lambda>(payload, s4).
          Some (case payload of None \<Rightarrow> s4
            | Some fanout_payload \<Rightarrow> fan_out (Rtp fanout_payload) ?u (participants r) s4)) = Some s'"
    using s0(2,1,7) plain r s0(5,6,8) pass
    by (cases rule: publish_rtp_before_gate) auto
  obtain s4 where s4: "ptt_payload hdr pl rid ?u s3 = Some (Some pl, s4)" "quiet s3 s4"
    using ptt_payload_unvoiced [OF s3(4), of ?u hdr pl] sp by auto
  have "media_step s3 s4" using ptt_payload_cases [OF s3(3), of hdr pl ?u] s4(1) by auto
  then have q4: "quiet s s4" and m4: "media_step s s4"
    using s0(3,4) s3(1,2) s4(2) quiet_trans media_step_trans by blast+
  have "s' = fan_out (Rtp pl) ?u (participants r) s4" using s3(5) s4(1) by simp
  then show ?thesis using h fan_out_delivers(1) [OF q4 m4 ok r, of "Rtp pl" ?u] by simp
qed

section \<open>Retransmission and feedback\<close>

text \<open>The packets of a cache that a list of sequence numbers finds, in its order.\<close>

definition cached :: "rtp_cache \<Rightarrow> u16 \<Rightarrow> bytes option" where
  "cached c q = (case slots c ! (unat q mod 512) of
      Some pkt \<Rightarrow> if 12 \<le> length pkt \<and> rtp_seq pkt = q then Some pkt else None
    | None \<Rightarrow> None)"

text \<open>A retransmission (RFC 4588): the original number stands between the header and the payload.\<close>

definition retransmission :: "u32 \<Rightarrow> u16 \<Rightarrow> bytes \<Rightarrow> bytes" where
  "retransmission rtx_ssrc sq pkt =
     (let header = 12 + 4 * unat (pkt ! 0 AND 0x0F)
      in if length pkt < header then []
         else [pkt ! 0, 97] @ to_be16 sq @ take 4 (drop 4 pkt) @ to_be32 rtx_ssrc @
           take (header - 12) (drop 12 pkt) @ take 2 (drop 2 pkt) @ drop header pkt)"

fun retransmissions :: "u32 \<Rightarrow> u16 \<Rightarrow> bytes list \<Rightarrow> bytes list" where
  "retransmissions rtx_ssrc sq [] = []"
| "retransmissions rtx_ssrc sq (pkt # pkts) = retransmission rtx_ssrc sq pkt # retransmissions rtx_ssrc (sq + 1) pkts"

lemma length_retransmissions [simp]: "length (retransmissions rtx_ssrc sq pkts) = length pkts"
  by (induction pkts arbitrary: sq) simp_all

lemma cache_get_cached: "wf_cache c \<Longrightarrow> cache_get c q = Some (cached c q)"
  by (auto simp: cache_get_def cached_def wf_cache_def config_defs idx_def rd16_def rtp_seq_def split: option.splits)

lemma cachedD: "cached c q = Some pkt \<Longrightarrow> 12 \<le> length pkt"
  by (auto simp: cached_def split: option.splits if_splits)

lemma build_retransmission:
  assumes "12 \<le> length pkt"
  shows "build_rtx_packet pkt rtx_ssrc sq = Some (retransmission rtx_ssrc sq pkt)"
proof -
  from assms obtain b0 b1 b2 b3 b4 b5 b6 b7 b8 b9 b10 b11 rest
    where p: "pkt = b0 # b1 # b2 # b3 # b4 # b5 # b6 # b7 # b8 # b9 # b10 # b11 # rest"
    by (rule header12E)
  show ?thesis
  proof (cases "length pkt < 12 + unat (b0 AND 0x0F) * 4")
    case True
    then show ?thesis using assms
      by (simp add: build_rtx_packet_def retransmission_def p RTP_HEADER_MIN_SIZE_def Let_def idx_def mult.commute)
  next
    case False
    let ?n = "4 * unat (b0 AND 0x0F)"
    have len: "length (take ?n rest) = ?n" using False by (simp add: p)
    have pkt: "pkt = [b0, b1] @ to_be16 (of_be16 b2 b3) @ to_be32 (of_be32 b4 b5 b6 b7) @ to_be32 (of_be32 b8 b9 b10 b11) @
        take ?n rest @ drop ?n rest"
      by (simp add: p to_be16_of_be16 to_be32_of_be32)
    have "build_rtx_packet pkt rtx_ssrc sq = Some ([b0, RTX_PAYLOAD_TYPE] @ to_be16 sq @ to_be32 (of_be32 b4 b5 b6 b7) @
        to_be32 rtx_ssrc @ take ?n rest @ to_be16 (of_be16 b2 b3) @ drop ?n rest)"
      unfolding pkt by (rule build_rtx_eq [OF len])
    moreover have "drop (12 + ?n) pkt = drop ?n rest" using drop_drop [of ?n 12 pkt] by (simp add: p add.commute)
    ultimately show ?thesis using False
      by (simp add: retransmission_def p RTX_PAYLOAD_TYPE_def Let_def mult.commute to_be16_of_be16 to_be32_of_be32)
  qed
qed

lemma rtx_packets_spec:
  "rtx_packets rtx_ssrc p seqs s = Some (pkts, s') \<Longrightarrow> p < length (heap (hub s)) \<Longrightarrow> wf_cache (p_rtp_cache (pt s p)) \<Longrightarrow>
   pkts = retransmissions rtx_ssrc (p_rtx_seq (pt s p)) (List.map_filter (cached (p_rtp_cache (pt s p))) seqs) \<and>
   quiet s s' \<and> metrics s' = metrics s \<and> length (heap (hub s')) = length (heap (hub s)) \<and>
   p_rtx_seq (pt s' p) = p_rtx_seq (pt s p) + of_nat (length pkts)"
proof (induction seqs arbitrary: s pkts)
  case (Cons lost seqs)
  note c = cache_get_cached [OF Cons.prems(3), of lost]
  show ?case
  proof (cases "cached (p_rtp_cache (pt s p)) lost")
    case (Some original)
    let ?s = "on_pt p (\<lambda>q. snd (next_rtx_seq q)) s"
    have t: "pt ?s p = snd (next_rtx_seq (pt s p))" using Cons.prems(2) by (simp add: pt_on_pt)
    have qs: "quiet s ?s" by (rule quiet_on_pt) (simp add: next_rtx_seq_def)
    have n: "p_rtx_seq (snd (next_rtx_seq (pt s p))) = p_rtx_seq (pt s p) + 1"
      "p_rtp_cache (snd (next_rtx_seq (pt s p))) = p_rtp_cache (pt s p)" by (simp_all add: next_rtx_seq_def)
    obtain pkts' where b: "rtx_packets rtx_ssrc p seqs ?s = Some (pkts', s')"
        "pkts = retransmission rtx_ssrc (p_rtx_seq (pt s p)) original # pkts'"
      using Cons.prems(1) c Some build_retransmission [OF cachedD [OF Some]]
      by (auto simp: Let_def next_rtx_seq_def split: Option.bind_splits)
    have IH: "pkts' = retransmissions rtx_ssrc (p_rtx_seq (pt s p) + 1) (List.map_filter (cached (p_rtp_cache (pt s p))) seqs) \<and>
        quiet ?s s' \<and> metrics s' = metrics ?s \<and> length (heap (hub s')) = length (heap (hub ?s)) \<and>
        p_rtx_seq (pt s' p) = p_rtx_seq (pt s p) + 1 + of_nat (length pkts')"
      using Cons.IH [OF b(1)] Cons.prems(2,3) unfolding t n by simp
    then show ?thesis using qs
      by (auto simp: Some b(2) List.map_filter_simps algebra_simps intro: quiet_trans)
  qed (use Cons c in \<open>auto simp: List.map_filter_simps\<close>)
qed (simp add: List.map_filter_simps)

lemma fold_send_queue:
  "q < length (heap (hub s)) \<Longrightarrow>
   egress_queue (pt (fold (\<lambda>pkt. send_egress (Rtp pkt) q) pkts s) q) =
      egress_queue (pt s q) @ map Rtp (take (EGRESS_QUEUE_SIZE - length (egress_queue (pt s q))) pkts) \<and>
   (\<forall>q'. q' \<noteq> q \<longrightarrow> egress_queue (pt (fold (\<lambda>pkt. send_egress (Rtp pkt) q) pkts s) q') = egress_queue (pt s q')) \<and>
   (\<forall>c. c \<noteq> Egress_drop \<longrightarrow>
      counts (metrics (fold (\<lambda>pkt. send_egress (Rtp pkt) q) pkts s)) c = counts (metrics s) c)"
proof (induction pkts arbitrary: s)
  case (Cons pkt pkts)
  let ?s = "send_egress (Rtp pkt) q s"
  have len: "q < length (heap (hub ?s))" using Cons.prems by simp
  have eq: "egress_queue (pt ?s q) = (if length (egress_queue (pt s q)) < EGRESS_QUEUE_SIZE
      then egress_queue (pt s q) @ [Rtp pkt] else egress_queue (pt s q))"
    "q' \<noteq> q \<Longrightarrow> pt ?s q' = pt s q'" "c \<noteq> Egress_drop \<Longrightarrow> counts (metrics ?s) c = counts (metrics s) c" for q' c
    using Cons.prems by (auto simp: pt_send_egress try_send_def) (simp add: send_egress_def Let_def)
  show ?case using Cons.IH [OF len] by (auto simp: eq take_Cons')
qed simp

text \<open>Whom an SSRC stands for: the virtual SSRC of a kind, for the holder's first track of this kind.\<close>

definition floor_track :: "'c app \<Rightarrow> room \<Rightarrow> track_kind \<Rightarrow> u32 option" where
  "floor_track s r k =
     (case r_floor r of
        Idle \<Rightarrow> None
      | Taken u _ _ \<Rightarrow> (case map_of (participants r) u of
            None \<Rightarrow> None
          | Some p \<Rightarrow> (case filter (\<lambda>t. t_kind t = k) (tracks (pt s p)) of [] \<Rightarrow> None | t # _ \<Rightarrow> Some (t_ssrc t))))"

lemma find_filter: "List.find P xs = (case filter P xs of [] \<Rightarrow> None | x # _ \<Rightarrow> Some x)"
  by (induction xs) simp_all

lemma speaker_ssrc_track: "speaker_ssrc s r k = floor_track s r k"
  by (cases "r_floor r")
     (auto simp: speaker_ssrc_def floor_track_def get_participant_def first_ssrc_of_kind_def find_filter split: option.split list.split)

definition lost_numbers :: "nack_item \<Rightarrow> u16 list" where
  "lost_numbers nack = n_pid nack # map (\<lambda>i. n_pid nack + of_nat (Suc i)) (filter (bit (n_blp nack)) [0..<16])"

lemma expand_nack_lost: "expand_nack (n_pid nack) (n_blp nack) = lost_numbers nack"
  unfolding expand_nack_def lost_numbers_def and_bit_iff by (simp add: add.commute)

text \<open>In the middle of a burst the rewriter shifts every number by its offset.\<close>

lemma shifted_number:
  assumes "\<not> awaiting_first_packet (rw_state w)" and "rewrite w pkt u kf = Some (Ok, pkt', w')"
  shows "rtp_seq pkt' = rtp_seq pkt + seq_offset w"
proof -
  have len: "12 \<le> length pkt" and sp: "rw_speaker (rw_state w) = Some u" and key: "pending_keyframe (rw_state w) \<Longrightarrow> kf"
    using assms(2) by (auto simp: rewrite_def split: if_splits)
  have "pkt' = rewritten w pkt" using rewrite_ok [OF len sp key] assms(2) by simp
  then show ?thesis using len assms(1) by (simp add: rewritten_fields based_def)
qed

text \<open>
  C28: answering a NACK. A NACK entry names a packet and, by the bits of its mask, some of the
  sixteen after it. In a push-to-talk room the virtual video SSRC stands for the first video
  track of the floor holder, and each number for the number that the rewriter, in the middle of
  a burst, turns into it. When a member has the track and the track has a retransmission
  SSRC, the subscriber's queue gets, in the order of the lost numbers and as far as it has
  room, one retransmission for every lost packet in the publisher's cache: with payload
  type 97, the retransmission SSRC, the next numbers of the retransmission stream, and the
  original number before the payload. Nobody else gets anything, and the two counters
  split the lost numbers.
\<close>

theorem nack_retransmission:
  assumes ok: "app_ok s" and sub: "subscriber < length (heap (hub s))" and r: "room_of s rid = Some r"
    and virtual: "virtual \<longleftrightarrow> r_mode r = Ptt \<and> n_media_ssrc nack = virtual_ssrc (video_rewriter r)"
    and target: "target = (if virtual then (case floor_track s r Video of Some x \<Rightarrow> x | None \<Rightarrow> n_media_ssrc nack)
      else n_media_ssrc nack)"
    and pub: "List.find (\<lambda>(v, q). target \<in> t_ssrc ` set (tracks (pt s q))) (participants r) = Some (u, publisher)"
    and rtx: "List.find (\<lambda>t. t_ssrc t = target) (tracks (pt s publisher)) = Some t" "t_rtx_ssrc t = Some rtx_ssrc"
  shows "\<exists>s' seqs pkts. handle_nack_item subscriber rid nack s = Some s' \<and> length seqs = length (lost_numbers nack) \<and>
    (\<forall>i < length seqs. if virtual
      then lost_numbers nack ! i = seqs ! i + seq_offset (video_rewriter r) \<and>
        (\<forall>pkt v kf pkt' w. \<not> awaiting_first_packet (rw_state (video_rewriter r)) \<and>
          rewrite (video_rewriter r) pkt v kf = Some (Ok, pkt', w) \<longrightarrow>
          (rtp_seq pkt' = lost_numbers nack ! i \<longleftrightarrow> rtp_seq pkt = seqs ! i))
      else lost_numbers nack ! i = seqs ! i) \<and>
    pkts = retransmissions rtx_ssrc (p_rtx_seq (pt s publisher)) (List.map_filter (cached (p_rtp_cache (pt s publisher))) seqs) \<and>
    egress_queue (pt s' subscriber) =
      egress_queue (pt s subscriber) @ map Rtp (take (256 - length (egress_queue (pt s subscriber))) pkts) \<and>
    (\<forall>q. q \<noteq> subscriber \<longrightarrow> egress_queue (pt s' q) = egress_queue (pt s q)) \<and>
    counts (metrics s') Rtx_sent = counts (metrics s) Rtx_sent + of_nat (length pkts) \<and>
    counts (metrics s') Rtx_cache_miss = counts (metrics s) Rtx_cache_miss + of_nat (length seqs - length pkts)"
proof -
  define seqs where "seqs = (if virtual then map (reverse_seq (video_rewriter r)) (lost_numbers nack) else lost_numbers nack)"
  have l: "nack_lookup s r (n_media_ssrc nack) (expand_nack (n_pid nack) (n_blp nack)) = (target, seqs, if virtual then 1 else 0)"
    using virtual by (simp add: nack_lookup_def speaker_ssrc_track expand_nack_lost target seqs_def)
  have find: "find_by_track_ssrc (heap (hub s)) r target = Some publisher"
    using pub by (simp add: find_by_track_ssrc_def has_ssrc_iff pt_def)
  have "(u, publisher) \<in> set (participants r)" using pub by (auto simp: find_Some_iff) (metis nth_mem)
  then have p: "publisher < length (heap (hub s))" using room_prefs_bound app_okD(4) [OF ok r] by blast
  have wf: "wf_cache (p_rtp_cache (pt s publisher))" using app_okD(2) [OF ok p] by (simp add: wf_pt_def)
  have en: "entered subscriber rid s" using app_ok_store [OF ok] sub r by (simp add: entered_def)
  obtain s' where h: "handle_nack_item subscriber rid nack s = Some s'"
    using handle_nack_item_safe [OF en] by (fastforce simp: safe_def)
  let ?s = "bump Ptt_nack_remapped (if virtual then 1 else 0) s"
  obtain pkts s1 where x: "rtx_packets rtx_ssrc publisher seqs ?s = Some (pkts, s1)"
      "s' = fold (\<lambda>pkt. send_egress (Rtp pkt) subscriber) pkts
        (bump Rtx_sent (length pkts) (bump Rtx_cache_miss (length seqs - length pkts) s1))"
    using h find rtx by (auto simp: handle_nack_item_def r l Let_def get_tracks_def split: Option.bind_splits)
  have S: "pkts = retransmissions rtx_ssrc (p_rtx_seq (pt s publisher)) (List.map_filter (cached (p_rtp_cache (pt s publisher))) seqs)"
    "quiet s s1" "metrics s1 = metrics ?s" "length (heap (hub s1)) = length (heap (hub s))"
    using rtx_packets_spec [OF x(1)] p wf by auto
  have len: "subscriber < length (heap (hub (bump Rtx_sent (length pkts) (bump Rtx_cache_miss (length seqs - length pkts) s1))))"
    using sub S(4) by simp
  have num: "length seqs = length (lost_numbers nack)"
    "i < length seqs \<Longrightarrow> if virtual then lost_numbers nack ! i = seqs ! i + seq_offset (video_rewriter r)
      else lost_numbers nack ! i = seqs ! i" for i
    by (auto simp: seqs_def reverse_seq_def seq_offset_def)
  then have "\<forall>i < length seqs. if virtual
      then lost_numbers nack ! i = seqs ! i + seq_offset (video_rewriter r) \<and>
        (\<forall>pkt v kf pkt' w. \<not> awaiting_first_packet (rw_state (video_rewriter r)) \<and>
          rewrite (video_rewriter r) pkt v kf = Some (Ok, pkt', w) \<longrightarrow>
          (rtp_seq pkt' = lost_numbers nack ! i \<longleftrightarrow> rtp_seq pkt = seqs ! i))
      else lost_numbers nack ! i = seqs ! i"
    by (auto dest: shifted_number)
  then show ?thesis
    using h S(1,2) num(1) fold_send_queue [OF len, of pkts]
    by (intro exI [of _ s'] exI [of _ seqs] exI [of _ pkts]) (simp add: x(2) quiet_def S(3) EGRESS_QUEUE_SIZE_def)
qed

text \<open>Whom a feedback block concerns, and the blocks of a packet that concern an SSRC, in order.\<close>

definition addressee :: "'c app \<Rightarrow> room \<Rightarrow> u32 \<Rightarrow> u32" where
  "addressee s r x =
     (if r_mode r = Ptt \<and> x = virtual_ssrc (video_rewriter r) then (case floor_track s r Video of Some y \<Rightarrow> y | None \<Rightarrow> x)
      else if r_mode r = Ptt \<and> x = virtual_ssrc (audio_rewriter r) then (case floor_track s r Audio of Some y \<Rightarrow> y | None \<Rightarrow> x)
      else x)"

lemma effective_addressee: "effective_ssrc s r x = addressee s r x"
  by (auto simp: effective_ssrc_def addressee_def speaker_ssrc_track)

definition blocks_for :: "'c app \<Rightarrow> room \<Rightarrow> bytes \<Rightarrow> rtcp_block_ref list \<Rightarrow> u32 \<Rightarrow> bytes list" where
  "blocks_for s r plaintext bs ssrc =
     map (\<lambda>b. take (rb_length b) (drop (rb_offset b) plaintext))
       (filter (\<lambda>b. rb_media_ssrc b \<noteq> 0 \<and> addressee s r (rb_media_ssrc b) = ssrc) bs)"

text \<open>Receiver reports, PLIs and REMBs, and the media SSRC of a block.\<close>

definition feedback :: "bytes \<Rightarrow> bool" where
  "feedback b \<longleftrightarrow> b ! 1 = 201 \<or> b ! 1 = 206 \<and> (b ! 0 AND 0x1F = 1 \<or> b ! 0 AND 0x1F = 15)"

definition media_of :: "bytes \<Rightarrow> u32" where
  "media_of b = of_be32 (b ! 8) (b ! 9) (b ! 10) (b ! 11)"

definition group_for :: "'c app \<Rightarrow> room \<Rightarrow> bytes list \<Rightarrow> u32 \<Rightarrow> bytes list" where
  "group_for s r blocks ssrc = filter (\<lambda>b. feedback b \<and> media_of b \<noteq> 0 \<and> addressee s r (media_of b) = ssrc) blocks"

lemma relay_feedback: "relay_b b = feedback b"
  by (auto simp: relay_b_def nack_b_def is_nack_block_def is_relay_block_def feedback_def config_defs)

lemma relay_refs_for:
  assumes "\<forall>b \<in> set bs. 12 \<le> length b"
  shows "blocks_for s r (pre @ concat bs) (relay_refs (length pre) bs) ssrc = group_for s r bs ssrc"
  using assms
proof (induction bs arbitrary: pre)
  case (Cons b bs)
  have b: "concat (b # bs) ! i = b ! i" if "i < 12" for i using Cons.prems that by (simp add: nth_append)
  have "blocks_for s r (pre @ b @ concat bs) (relay_refs (length pre + length b) bs) ssrc = group_for s r bs ssrc"
    using Cons.IH [of "pre @ b"] Cons.prems by simp
  then show ?case using Cons.prems b [of 8] b [of 9] b [of 10] b [of 11]
    by (auto simp: blocks_for_def group_for_def relay_feedback media_of_def)
qed (simp add: blocks_for_def group_for_def)

lemma group_blocks_spec:
  assumes "group_blocks s r plaintext bs m = Some m'" and "distinct (map fst m)"
  shows "distinct (map fst m') \<and> map_of m' ssrc =
    (if map_of m ssrc = None \<and> blocks_for s r plaintext bs ssrc = [] then None
     else Some ((case map_of m ssrc of Some l \<Rightarrow> l | None \<Rightarrow> []) @ blocks_for s r plaintext bs ssrc))"
  using assms
proof (induction s r plaintext bs m rule: group_blocks.induct)
  case (2 s r plaintext b bs m)
  show ?case
  proof (cases "rb_media_ssrc b = 0")
    case True
    then show ?thesis using "2.IH"(1) "2.prems" by (simp add: blocks_for_def del: map_of_eq_Some_iff map_of_eq_None_iff)
  next
    case False
    let ?k = "addressee s r (rb_media_ssrc b)"
    obtain block where b: "slice plaintext (rb_offset b) (rb_offset b + rb_length b) = Some block"
        "group_blocks s r plaintext bs (AList.update ?k ((case map_of m ?k of Some l \<Rightarrow> l | None \<Rightarrow> []) @ [block]) m) = Some m'"
      using "2.prems"(1) False by (auto simp: Let_def effective_addressee split: Option.bind_splits)
    have blk: "block = take (rb_length b) (drop (rb_offset b) plaintext)"
      using b(1) by (simp add: slice_eq_Some_iff)
    have d: "distinct (map fst (AList.update ?k ((case map_of m ?k of Some l \<Rightarrow> l | None \<Rightarrow> []) @ [block]) m))"
      using "2.prems"(2) by (rule distinct_update)
    note IH = "2.IH"(2) [OF False refl b(1), unfolded effective_addressee, OF b(2) d]
    show ?thesis using IH False
      by (cases "?k = ssrc") (auto simp: blocks_for_def blk split: option.splits)
  qed
qed (auto simp: blocks_for_def split: option.splits)

text \<open>
  C29: the grouping of feedback. The blocks that a subscriber's RTCP sends to publishers are
  grouped without loss: every SSRC occurs once, its group holds exactly the blocks with a
  non-zero media SSRC that stands for it (itself, or in a push-to-talk room the holder's
  first track of the kind for a virtual SSRC), in the order of the packet. When the packet is a
  compound of blocks of at least twelve bytes with correct lengths, the splitter finds the
  blocks, and a group is exactly the receiver reports, PLIs and REMBs for its SSRC; a REMB as
  this server itself builds it has media SSRC zero and so is in no group.
\<close>

theorem feedback_grouping:
  assumes "group_blocks s r plaintext bs [] = Some m"
  shows "distinct (map fst m) \<and>
    map_of m ssrc = (if blocks_for s r plaintext bs ssrc = [] then None else Some (blocks_for s r plaintext bs ssrc)) \<and>
    (\<forall>blocks. plaintext = concat blocks \<and> (\<forall>b \<in> set blocks. wf_block b \<and> 12 \<le> length b) \<and>
        map_option relay_blocks (split_compound_rtcp plaintext) = Some bs \<longrightarrow>
      map_of m ssrc = (if group_for s r blocks ssrc = [] then None else Some (group_for s r blocks ssrc)) \<and>
      feedback (build_remb rate x) \<and> build_remb rate x \<notin> set (group_for s r blocks ssrc))"
proof -
  have G: "distinct (map fst m) \<and>
    map_of m ssrc = (if blocks_for s r plaintext bs ssrc = [] then None else Some (blocks_for s r plaintext bs ssrc))"
    using group_blocks_spec [OF assms, of ssrc] by simp
  have B: "blocks_for s r plaintext bs ssrc = group_for s r blocks ssrc"
    if "plaintext = concat blocks" "\<forall>b \<in> set blocks. wf_block b \<and> 12 \<le> length b"
      "map_option relay_blocks (split_compound_rtcp plaintext) = Some bs" for blocks
    using that relay_refs_for [of blocks s r "[]" ssrc] split_loop_blocks [of blocks "[]"] by (auto simp: split_compound_rtcp_def)
  have "feedback (build_remb rate x)" "media_of (build_remb rate x) = 0"
    by (simp_all add: feedback_def media_of_def build_remb_def of_be32_def split: prod.split)
  then have "feedback (build_remb rate x) \<and> build_remb rate x \<notin> set (group_for s r blocks ssrc)" for blocks
    by (simp add: group_for_def)
  then show ?thesis using G B by metis
qed

text \<open>A room with two connected members, for the witnesses; the SRTP package copies.\<close>

definition demo_env :: "nat env" where
  "demo_env = \<lparr>srtp = \<lparr>ctx_new = (\<lambda>k s. Some 0), ctx_decrypt_rtp = (\<lambda>c b. (Inr b, c)),
       ctx_decrypt_rtcp = (\<lambda>c b. (Inr b, c)), ctx_encrypt_rtp = (\<lambda>c b. (Inr b, c)),
       ctx_encrypt_rtcp = (\<lambda>c b. (Inr b, c))\<rparr>,
     hmac_sha1 = (\<lambda>k b. replicate 20 0), crc32 = (\<lambda>b. 0), send_ok = (\<lambda>n a b. True),
     packet_string = (\<lambda>p. Some (if op p < 100 then ''response'' else ''event'')), json_string = (\<lambda>j. ''json'')\<rparr>"

definition demo_member :: "string \<Rightarrow> nat \<Rightarrow> nat participant" where
  "demo_member u n = (participant_new u ''r'' (u @ ''p'') ''pw'' (u @ ''s'') ''pw'' n 5)
     \<lparr>publish := \<lparr>ms_ufrag = u @ ''p'', ms_ice_pwd = ''pw'', ms_address = Some (V4 1 (of_nat n)),
                   inbound_srtp = Some 0, outbound_srtp = Some 0\<rparr>,
      subscribe := \<lparr>ms_ufrag = u @ ''s'', ms_ice_pwd = ''pw'', ms_address = Some (V4 2 (of_nat n)),
                   inbound_srtp = Some 0, outbound_srtp = Some 0\<rparr>,
      tracks := [\<lparr>t_ssrc = of_nat (100 + n), t_kind = Video, t_track_id = ''v'', t_rtx_ssrc = Some (of_nat (200 + n)), t_muted = False\<rparr>]\<rparr>"

definition demo_room :: "room_mode \<Rightarrow> floor_state \<Rightarrow> room" where
  "demo_room m f = (room_new 7 8 ''r'' ''room'' None m 1)
     \<lparr>r_floor := f,
      audio_rewriter := (case current_speaker f of None \<Rightarrow> new_audio 7 | Some u \<Rightarrow> switch_speaker (new_audio 7) u),
      video_rewriter := (case current_speaker f of None \<Rightarrow> new_video 8 | Some u \<Rightarrow> switch_speaker (new_video 8) u),
      participants := [(''a'', 0), (''b'', 1)],
      by_addr := [V4 1 0 \<mapsto> (0, Publish), V4 2 1 \<mapsto> (1, Subscribe)]\<rparr>"

definition demo_app :: "room_mode \<Rightarrow> floor_state \<Rightarrow> nat app" where
  "demo_app m f = \<lparr>hub = \<lparr>heap = [demo_member ''a'' 0, demo_member ''b'' 1], rooms = [(''r'', demo_room m f)],
       ufrag_index = Map.empty, addr_index = [V4 1 0 \<mapsto> ''r'', V4 2 1 \<mapsto> ''r'']\<rparr>,
     metrics = metrics_new, channels = [], out = []\<rparr>"

lemmas demo_app_defs = demo_app_def demo_room_def demo_member_def room_of_def pt_def deref_def

lemma demo_app_ok [simp]: "m = Ptt \<or> f = Idle \<Longrightarrow> app_ok (demo_app m f)"
proof -
  assume m: "m = Ptt \<or> f = Idle"
  have w: "wf_pt (demo_member u n)" for u n
    by (simp add: demo_member_def wf_pt_def participant_new_def wf_tracks_def)
  have h: "heap (hub (demo_app m f)) = [demo_member ''a'' 0, demo_member ''b'' 1]"
    "rooms (hub (demo_app m f)) = [(''r'', demo_room m f)]" by (simp_all add: demo_app_def)
  have "room_ok [demo_member ''a'' 0, demo_member ''b'' 1] ''r'' (demo_room m f)"
    by (auto simp: room_ok_def demo_room_def room_new_def demo_member_def participant_new_def deref_def session_def
        config_defs split: if_splits)
  then have "hub_ok (hub (demo_app m f))" by (simp add: hub_ok_def h)
  moreover have "\<forall>p < length (heap (hub (demo_app m f))). wf_pt (pt (demo_app m f) p)"
    by (auto simp: h pt_def deref_def w less_Suc_eq)
  moreover have "floor_synced (demo_room m f)"
    using m by (cases f) (auto simp: floor_synced_def demo_room_def room_new_def new_audio_def new_video_def
        rewriter_new_def switch_speaker_def)
  ultimately show ?thesis by (simp add: app_ok_def room_of_def h)
qed

theorem media_handler_safe_witness:
  "\<exists>s'. handle_srtp demo_env (\<lambda>m. m) 9 1 [0x80, 200] (V4 1 0) (demo_app Conference Idle) = Some s' \<and> app_ok s'"
  using media_handler_safe [of "demo_app Conference Idle"] by fastforce

definition demo_rtp :: bytes where
  "demo_rtp = [0x80, 111, 0, 1, 0, 0, 0, 2, 0, 0, 0, 100, 42]"

lemma demo_find: "find_by_addr (hub (demo_app m f)) (V4 1 0) = Some (0, Publish, ''r'')"
  by (simp add: find_by_addr_def get_by_addr_def demo_app_defs)

lemma demo_room_of: "room_of (demo_app m f) ''r'' = Some (demo_room m f)"
  by (simp add: demo_app_defs)

lemma demo_sends:
  "is_publish_ready (pt (demo_app m f) 0)" "\<not> is_rtcp demo_rtp"
  "fst (decrypt_rtp (srtp demo_env) (inbound_srtp (publish (pt (demo_app m f) 0))) demo_rtp) = Inr demo_rtp"
  by (simp_all add: demo_app_defs room_new_def is_publish_ready_def is_media_ready_def is_ready_def is_rtcp_def
      demo_rtp_def decrypt_rtp_def demo_env_def map_err_def)

lemma demo_delivers:
  "delivers_to (demo_app m f) (demo_room m f) (p_user_id (pt (demo_app m f) 0)) 1"
  "egress_queue (pt (demo_app m f) 1) = []"
  by (auto simp: delivers_to_def demo_app_defs participant_new_def is_subscribe_ready_def is_media_ready_def is_ready_def
      get_participant_def)

theorem ptt_media_gate_witness:
  "\<exists>s'. handle_srtp demo_env (\<lambda>m. m) 9 1 demo_rtp (V4 1 0) (demo_app Ptt (Taken ''b'' 1 1)) = Some s' \<and>
     egress_queue (pt s' 1) = []"
proof -
  let ?s = "demo_app Ptt (Taken ''b'' 1 1)"
  obtain s' where h: "handle_srtp demo_env (\<lambda>m. m) 9 1 demo_rtp (V4 1 0) ?s = Some s'"
    using handle_srtp_safe [OF demo_app_ok] by (fastforce simp: safe_def)
  have "current_speaker (r_floor (demo_room Ptt (Taken ''b'' 1 1))) \<noteq> Some (p_user_id (pt ?s 0))"
    by (simp add: demo_app_defs participant_new_def)
  then have "egress_queue (pt s' 1) = egress_queue (pt ?s 1)"
    using ptt_media_gate [OF demo_app_ok demo_find demo_room_of _ _ h] by (simp add: demo_room_def room_new_def)
  then show ?thesis using h by (simp add: demo_app_defs participant_new_def)
qed

theorem rtp_fan_out_witness:
  "\<exists>s'. handle_srtp demo_env (\<lambda>m. m) 9 1 demo_rtp (V4 1 0) (demo_app Conference Idle) = Some s' \<and>
     egress_queue (pt s' 1) = [Rtp demo_rtp]"
proof -
  let ?s = "demo_app Conference Idle" and ?r = "demo_room Conference Idle"
  obtain s' where h: "handle_srtp demo_env (\<lambda>m. m) 9 1 demo_rtp (V4 1 0) ?s = Some s'"
    using handle_srtp_safe [OF demo_app_ok] by (fastforce simp: safe_def)
  have "r_mode ?r = Conference" by (simp add: demo_room_def room_new_def)
  note T = rtp_fan_out [OF demo_app_ok demo_find demo_room_of this demo_sends h]
  have "delivers_to ?s ?r (p_user_id (pt ?s 0)) 1" "egress_queue (pt ?s 1) = []" by (rule demo_delivers)+
  then show ?thesis using T h by fastforce
qed

theorem ptt_speaker_fan_out_witness:
  "\<exists>s' pl. handle_srtp demo_env (\<lambda>m. m) 9 1 demo_rtp (V4 1 0) (demo_app Ptt (Taken ''a'' 1 1)) = Some s' \<and>
     egress_queue (pt s' 1) = [Rtp pl] \<and> rtp_ssrc pl = 7"
proof -
  let ?s = "demo_app Ptt (Taken ''a'' 1 1)" and ?r = "demo_room Ptt (Taken ''a'' 1 1)"
  obtain s' where h: "handle_srtp demo_env (\<lambda>m. m) 9 1 demo_rtp (V4 1 0) ?s = Some s'"
    using handle_srtp_safe [OF demo_app_ok] by (fastforce simp: safe_def)
  have m: "r_mode ?r = Ptt" by (simp add: demo_room_def room_new_def)
  have c: "current_speaker (r_floor ?r) = Some (p_user_id (pt ?s 0))" by (simp add: demo_app_defs participant_new_def)
  have l: "12 \<le> length demo_rtp" "demo_rtp ! 1 AND 0x7F = 111" "(111 :: u8) = 111 \<or> (111 :: u8) = 96"
    by (simp_all add: demo_rtp_def)
  note T = ptt_speaker_fan_out [OF demo_app_ok demo_find demo_room_of m c demo_sends l h]
  have "\<not> awaits_keyframe ?r 111 demo_rtp" "virtual_ssrc (speaker_rewriter ?r 111) = 7"
    by (simp_all add: awaits_keyframe_def speaker_rewriter_def demo_room_def room_new_def new_audio_def
        rewriter_new_def switch_speaker_def)
  moreover have "delivers_to ?s ?r (p_user_id (pt ?s 0)) 1" "egress_queue (pt ?s 1) = []" by (rule demo_delivers)+
  ultimately show ?thesis using T h by fastforce
qed

definition demo_video :: bytes where
  "demo_video = [0x80, 96, 0, 1, 0, 0, 0, 2, 0, 0, 0, 100, 0x10, 0]"

text \<open>A listener of the speaker's burst: video packet 1 went out under the number 9.\<close>

definition demo_nack_room :: room where
  "demo_nack_room = (demo_room Ptt (Taken ''a'' 1 1))
     \<lparr>video_rewriter := (video_rewriter (demo_room Ptt (Taken ''a'' 1 1)))
        \<lparr>rw_state := (rw_state (video_rewriter (demo_room Ptt (Taken ''a'' 1 1))))
           \<lparr>pending_keyframe := False, awaiting_first_packet := False, virtual_base_seq := 9, origin_base_seq := 1\<rparr>\<rparr>\<rparr>"

definition demo_nack_app :: "nat app" where
  "demo_nack_app = set_room ''r'' demo_nack_room
     (on_pt 0 (\<lambda>q. q\<lparr>p_rtp_cache := \<lparr>slots = (replicate 512 None)[1 := Some demo_video]\<rparr>\<rparr>) (demo_app Ptt (Taken ''a'' 1 1)))"

lemma demo_nack_app_ok [simp]: "app_ok demo_nack_app"
proof -
  let ?s = "on_pt 0 (\<lambda>q. q\<lparr>p_rtp_cache := \<lparr>slots = (replicate 512 None)[1 := Some demo_video]\<rparr>\<rparr>) (demo_app Ptt (Taken ''a'' 1 1))"
  have s: "app_ok ?s"
    by (rule app_ok_on_pt)
       (auto simp: same_id_def session_def wf_pt_def wf_cache_def RTP_CACHE_SIZE_def wf_tracks_def split: pc_type.splits)
  have r: "room_of ?s ''r'' = Some (demo_room Ptt (Taken ''a'' 1 1))" by (simp add: demo_room_of)
  have "room_ok (heap (hub ?s)) ''r'' demo_nack_room" "floor_synced demo_nack_room"
    using app_okD(3,4) [OF s r] by (simp_all add: demo_nack_room_def floor_synced_def)
  then show ?thesis unfolding demo_nack_app_def by (rule app_ok_set_room [OF s])
qed

theorem nack_retransmission_witness:
  "\<exists>s'. handle_nack_item 1 ''r'' \<lparr>n_media_ssrc = 8, n_pid = 9, n_blp = 0\<rparr> demo_nack_app = Some s' \<and>
     egress_queue (pt s' 1) = [Rtp (retransmission 200 (p_rtx_seq (pt demo_nack_app 0)) demo_video)]"
proof -
  let ?n = "\<lparr>n_media_ssrc = 8, n_pid = 9, n_blp = 0\<rparr>" and ?s = demo_nack_app and ?r = demo_nack_room
  have r: "room_of ?s ''r'' = Some ?r" by (simp add: demo_nack_app_def demo_room_of)
  have sub: "1 < length (heap (hub ?s))" by (simp add: demo_nack_app_def demo_app_def)
  have p: "pt ?s 0 = (demo_member ''a'' 0)\<lparr>p_rtp_cache := \<lparr>slots = (replicate 512 None)[1 := Some demo_video]\<rparr>\<rparr>"
    "pt ?s 1 = demo_member ''b'' 1" by (simp_all add: demo_nack_app_def demo_app_def pt_def deref_def modify_def)
  let ?t = "\<lparr>t_ssrc = 100, t_kind = Video, t_track_id = ''v'', t_rtx_ssrc = Some 200, t_muted = False\<rparr>"
  have tr: "tracks (pt ?s 0) = [?t]" by (simp add: p demo_member_def)
  have v: "True \<longleftrightarrow> r_mode ?r = Ptt \<and> n_media_ssrc ?n = virtual_ssrc (video_rewriter ?r)"
    by (simp add: demo_nack_room_def demo_room_def room_new_def new_video_def rewriter_new_def switch_speaker_def)
  have ft: "100 = (if True then (case floor_track ?s ?r Video of Some x \<Rightarrow> x | None \<Rightarrow> n_media_ssrc ?n) else n_media_ssrc ?n)"
    using tr by (simp add: floor_track_def demo_nack_room_def demo_room_def)
  have f: "List.find (\<lambda>(v, q). 100 \<in> t_ssrc ` set (tracks (pt ?s q))) (participants ?r) = Some (''a'', 0)"
    using tr by (simp add: demo_nack_room_def demo_room_def)
  have x: "List.find (\<lambda>t. t_ssrc t = 100) (tracks (pt ?s 0)) = Some ?t" "t_rtx_ssrc ?t = Some 200" by (simp_all add: tr)
  have off: "seq_offset (video_rewriter ?r) = 8" by (simp add: seq_offset_def demo_nack_room_def)
  have lost: "lost_numbers ?n = [9]" by (simp add: lost_numbers_def)
  obtain s' seqs where P: "handle_nack_item 1 ''r'' ?n ?s = Some s'" "length seqs = 1" "(9 :: u16) = seqs ! 0 + 8"
    "egress_queue (pt s' 1) = egress_queue (pt ?s 1) @ map Rtp (take (256 - length (egress_queue (pt ?s 1)))
      (retransmissions 200 (p_rtx_seq (pt ?s 0)) (List.map_filter (cached (p_rtp_cache (pt ?s 0))) seqs)))"
    using nack_retransmission [OF demo_nack_app_ok sub r v ft f x] unfolding lost off by auto
  have "seqs ! 0 = 9 - 8" using P(3) by (metis add_diff_cancel_right')
  then have "seqs = [1]" using P(2) by (cases seqs) simp_all
  moreover have "cached (p_rtp_cache (pt ?s 0)) 1 = Some demo_video"
    by (simp add: p cached_def demo_video_def rtp_seq_def of_be16_def)
  moreover have "egress_queue (pt ?s 1) = []" unfolding p by (simp add: demo_member_def participant_new_def)
  ultimately show ?thesis using P(1,4) by (simp add: List.map_filter_simps)
qed

text \<open>A PLI for the virtual video SSRC of the room goes to the speaker's video track.\<close>

theorem feedback_grouping_witness:
  "\<exists>bs m. map_option relay_blocks (split_compound_rtcp (concat [build_remb 500000 1, build_pli 8])) = Some bs \<and>
     group_blocks demo_nack_app demo_nack_room (concat [build_remb 500000 1, build_pli 8]) bs [] = Some m \<and>
     map_of m 100 = Some [build_pli 8]"
proof -
  let ?bl = "[build_remb 500000 1, build_pli 8]"
  have w: "\<forall>b \<in> set ?bl. wf_block b \<and> 12 \<le> length b"
    by (auto simp: wf_block_def build_remb_def build_pli_def of_be16_def to_be32_def split: prod.split)
  have sp: "split_compound_rtcp (concat ?bl) = Some \<lparr>nack_blocks = filter nack_b ?bl, relay_blocks = relay_refs 0 ?bl\<rparr>"
    using split_loop_blocks [of ?bl "[]"] w by (auto simp: split_compound_rtcp_def)
  have "group_blocks demo_nack_app demo_nack_room (concat ?bl) (relay_refs 0 ?bl) [] \<noteq> None"
    by (rule group_blocks_total) (auto simp: split: if_splits)
  then obtain m where m: "group_blocks demo_nack_app demo_nack_room (concat ?bl) (relay_refs 0 ?bl) [] = Some m" by blast
  have tr: "tracks (pt demo_nack_app 0) = [\<lparr>t_ssrc = 100, t_kind = Video, t_track_id = ''v'', t_rtx_ssrc = Some 200, t_muted = False\<rparr>]"
    by (simp add: demo_nack_app_def demo_app_def pt_def deref_def modify_def demo_member_def)
  have a: "addressee demo_nack_app demo_nack_room 8 = 100"
    using tr by (simp add: addressee_def floor_track_def demo_nack_room_def demo_room_def room_new_def new_video_def
        rewriter_new_def switch_speaker_def)
  have "feedback (build_pli 8)" "media_of (build_pli 8) = 8"
    by (simp_all add: feedback_def media_of_def build_pli_def to_be32_def of_be32_def)
  moreover have "media_of (build_remb 500000 1) = 0"
    by (simp add: media_of_def build_remb_def of_be32_def split: prod.split)
  ultimately have "group_for demo_nack_app demo_nack_room ?bl 100 = [build_pli 8]" using a by (simp add: group_for_def)
  then have "map_of m 100 = Some [build_pli 8]"
    using feedback_grouping [OF m, of 100] w sp by fastforce
  then show ?thesis using sp m by (intro exI [of _ "relay_refs 0 ?bl"] exI [of _ m]) simp
qed

end
