(* ===== verification/Egress.thy ===== *)
theory Egress
  imports Ingress
begin

text \<open>
  What the server sends on its own account (\<open>src/transport/udp/egress.rs\<close>): the egress task
  of a subscriber, the periodic bandwidth feedback to the publishers, and the keyframe
  requests. One turn of the loop of an egress task is one step.
\<close>

section \<open>Feedback to publishers\<close>

text \<open>Encryption with the outbound context of the publish session, and the datagram.\<close>

definition send_to_publisher :: "'c env \<Rightarrow> pref \<Rightarrow> sockaddr \<Rightarrow> bytes \<Rightarrow> 'c app \<Rightarrow> bool \<times> 'c app" where
  "send_to_publisher e p addr plain s =
     (case with_outbound (encrypt_rtcp (srtp e)) Publish p plain s of
        (Inl err, s) \<Rightarrow> (False, s)
      | (Inr encrypted, s) \<Rightarrow> send_to e addr encrypted s)"

text \<open>The two lookups every kind of feedback begins with.\<close>

definition feedback_target :: "'c app \<Rightarrow> pref \<Rightarrow> (sockaddr \<times> u32) option" where
  "feedback_target s p =
     (if \<not> is_publish_ready (pt s p) then None
      else do { addr \<leftarrow> ms_address (publish (pt s p));
                ssrc \<leftarrow> first_ssrc_of_kind Video (pt s p);
                Some (addr, ssrc) })"

definition send_twcc_to :: "'c env \<Rightarrow> pref \<Rightarrow> 'c app \<Rightarrow> 'c app option" where
  "send_twcc_to e p s =
     (case feedback_target s p of
        None \<Rightarrow> Some s
      | Some (addr, ssrc) \<Rightarrow> do {
          (feedback, rec) \<leftarrow> build_twcc_feedback (p_twcc_recorder (pt s p)) ssrc;
          let s = on_pt p (\<lambda>q. q\<lparr>p_twcc_recorder := rec\<rparr>) s;
          Some (case feedback of
              None \<Rightarrow> s
            | Some plain \<Rightarrow>
                (case send_to_publisher e p addr plain s of
                   (sent, s) \<Rightarrow> if sent then bump Twcc_sent 1 s else s)) })"

fun send_twcc_to_all :: "'c env \<Rightarrow> pref list \<Rightarrow> 'c app \<Rightarrow> 'c app option" where
  "send_twcc_to_all e [] s = Some s"
| "send_twcc_to_all e (p # ps) s = do { s \<leftarrow> send_twcc_to e p s; send_twcc_to_all e ps s }"

definition everybody :: "'c app \<Rightarrow> pref list" where
  "everybody s = concat (map (\<lambda>(rid, r). map snd (participants r)) (rooms (hub s)))"

definition send_twcc_to_publishers :: "'c env \<Rightarrow> 'c app \<Rightarrow> 'c app option" where
  "send_twcc_to_publishers e s = send_twcc_to_all e (everybody s) s"

definition send_remb_to :: "'c env \<Rightarrow> u64 \<Rightarrow> pref \<Rightarrow> 'c app \<Rightarrow> 'c app" where
  "send_remb_to e remb_bitrate p s =
     (case feedback_target s p of
        None \<Rightarrow> s
      | Some (addr, ssrc) \<Rightarrow>
          (case send_to_publisher e p addr (build_remb remb_bitrate ssrc) s of
             (sent, s) \<Rightarrow> if sent then bump Remb_sent 1 s else s))"

definition send_remb_to_publishers :: "'c env \<Rightarrow> u64 \<Rightarrow> 'c app \<Rightarrow> 'c app" where
  "send_remb_to_publishers e remb_bitrate s = fold (send_remb_to e remb_bitrate) (everybody s) s"

definition send_pli_to :: "'c env \<Rightarrow> string \<Rightarrow> pref \<Rightarrow> 'c app \<Rightarrow> 'c app" where
  "send_pli_to e exclude_user p s =
     (if p_user_id (pt s p) = exclude_user then s
      else (case feedback_target s p of
              None \<Rightarrow> s
            | Some (addr, ssrc) \<Rightarrow> snd (send_to_publisher e p addr (build_pli ssrc) s)))"

definition send_pli_to_publishers :: "'c env \<Rightarrow> room \<Rightarrow> string \<Rightarrow> 'c app \<Rightarrow> 'c app" where
  "send_pli_to_publishers e r exclude_user s =
     fold (send_pli_to e exclude_user) (map snd (participants r)) s"

section \<open>The egress task\<close>

definition encrypt_egress :: "'c env \<Rightarrow> egress_packet \<Rightarrow> pref \<Rightarrow> 'c app \<Rightarrow> (srtp_error + bytes) \<times> 'c app" where
  "encrypt_egress e pkt p s =
     (case pkt of
        Rtp plaintext \<Rightarrow> with_outbound (encrypt_rtp (srtp e)) Subscribe p plaintext s
      | Rtcp plaintext \<Rightarrow> with_outbound (encrypt_rtcp (srtp e)) Subscribe p plaintext s)"

text \<open>One turn: the receiver gives the oldest packet; with an empty queue it waits.\<close>

definition egress_step :: "'c env \<Rightarrow> pref \<Rightarrow> 'c app \<Rightarrow> 'c app" where
  "egress_step e p s =
     (case egress_queue (pt s p) of
        [] \<Rightarrow> s
      | pkt # rest \<Rightarrow>
          (let s = on_pt p (\<lambda>q. q\<lparr>egress_queue := tl (egress_queue q)\<rparr>) s
           in case ms_address (subscribe (pt s p)) of
                None \<Rightarrow> s
              | Some addr \<Rightarrow>
                  (case encrypt_egress e pkt p s of
                     (Inl err, s) \<Rightarrow> s
                   | (Inr encrypted, s) \<Rightarrow> snd (send_to e addr encrypted s))))"

fun egress_turns :: "'c env \<Rightarrow> pref \<Rightarrow> nat \<Rightarrow> 'c app \<Rightarrow> 'c app" where
  "egress_turns e p 0 s = s"
| "egress_turns e p (Suc n) s = egress_turns e p n (egress_step e p s)"

section \<open>They are media steps\<close>

lemma send_to_publisher_step: "media_step s (snd (send_to_publisher e p addr plain s))"
proof -
  obtain r s1 where w: "with_outbound (encrypt_rtcp (srtp e)) Publish p plain s = (r, s1)" by fastforce
  show ?thesis
    using with_srtp_step(3) [OF w] media_step_trans [OF with_srtp_step(3) [OF w] send_to_step]
    by (auto simp: send_to_publisher_def w split: sum.splits)
qed

lemma send_to_publisher_step': "send_to_publisher e p addr plain s = (b, s') \<Longrightarrow> media_step s s'"
  using send_to_publisher_step [of s e p addr plain] by simp

lemma send_remb_to_step: "media_step s (send_remb_to e bitrate p s)"
  by (auto simp: send_remb_to_def dest: send_to_publisher_step' split: option.splits prod.splits)

lemma send_remb_step: "media_step s (send_remb_to_publishers e bitrate s)"
  unfolding send_remb_to_publishers_def by (rule media_step_fold) (rule send_remb_to_step)

lemma send_pli_to_step: "media_step s (send_pli_to e u p s)"
  by (auto simp: send_pli_to_def intro: send_to_publisher_step split: option.splits)

lemma send_pli_step: "media_step s (send_pli_to_publishers e r u s)"
  unfolding send_pli_to_publishers_def by (rule media_step_fold) (rule send_pli_to_step)

lemma build_twcc_wf:
  assumes "wf_recorder r"
  shows "\<exists>fb rec. build_twcc_feedback r ssrc = Some (fb, rec) \<and> wf_recorder rec"
  using assms by (cases rule: build_cases [where ssrc = ssrc]) (use assms in \<open>auto simp: advance_base_def wf_recorder_def\<close>)

lemma send_twcc_to_safe:
  assumes "app_ok s" and "p < length (heap (hub s))"
  shows "safe s (send_twcc_to e p s)"
proof (cases "feedback_target s p")
  case (Some t)
  obtain addr ssrc where t: "t = (addr, ssrc)" by fastforce
  have wf: "wf_recorder (p_twcc_recorder (pt s p))" using app_okD(2) [OF assms] by (simp add: wf_pt_def)
  obtain fb rec where b: "build_twcc_feedback (p_twcc_recorder (pt s p)) ssrc = Some (fb, rec)" "wf_recorder rec"
    using build_twcc_wf [OF wf] by blast
  let ?s = "on_pt p (\<lambda>q. q\<lparr>p_twcc_recorder := rec\<rparr>) s"
  have st: "media_step s ?s"
    by (rule media_step_on_pt) (use b in \<open>auto simp: same_media_def same_id_def session_def wf_pt_def wf_tracks_def split: pc_type.splits\<close>)
  have "media_step ?s (case send_to_publisher e p addr plain ?s of (sent, s) \<Rightarrow> if sent then bump Twcc_sent 1 s else s)" for plain
    by (auto dest: send_to_publisher_step' split: prod.splits)
  then show ?thesis using st media_step_trans [OF st]
    by (auto simp: send_twcc_to_def Some t b(1) Let_def intro!: safe_Some split: option.splits)
qed (simp add: send_twcc_to_def safe_Some)

lemma send_twcc_to_all_safe:
  "app_ok s \<Longrightarrow> \<forall>p \<in> set ps. p < length (heap (hub s)) \<Longrightarrow> safe s (send_twcc_to_all e ps s)"
proof (induction ps arbitrary: s)
  case (Cons p ps)
  show ?case unfolding send_twcc_to_all.simps
  proof (rule safe_bind)
    show "safe s (send_twcc_to e p s)" using Cons.prems by (intro send_twcc_to_safe) auto
    show "safe s' (send_twcc_to_all e ps s')" if "media_step s s'" for s'
      using Cons.prems media_stepD(1,2) [OF that] by (intro Cons.IH) auto
  qed
qed (simp add: safe_Some)

lemma everybody_bound: "app_ok s \<Longrightarrow> p \<in> set (everybody s) \<Longrightarrow> p < length (heap (hub s))"
proof -
  assume ok: "app_ok s" and "p \<in> set (everybody s)"
  then obtain rid r u where m: "(rid, r) \<in> set (rooms (hub s))" "(u, p) \<in> set (participants r)"
    by (auto simp: everybody_def)
  then have "room_of s rid = Some r"
    using hub_okD(1) [OF app_okD(1) [OF ok]] by (simp add: room_of_def)
  then show ?thesis using room_prefs_bound [OF app_okD(4) [OF ok] m(2)] by blast
qed

lemma send_twcc_safe: "app_ok s \<Longrightarrow> safe s (send_twcc_to_publishers e s)"
  unfolding send_twcc_to_publishers_def by (rule send_twcc_to_all_safe) (auto intro: everybody_bound)

lemma encrypt_egress_step: "encrypt_egress e pkt p s = (r, s') \<Longrightarrow> media_step s s'"
  by (auto simp: encrypt_egress_def dest: with_srtp_step(3) split: egress_packet.splits)

lemma egress_step_media: "media_step s (egress_step e p s)"
proof (cases "egress_queue (pt s p)")
  case (Cons pkt rest)
  let ?s = "on_pt p (\<lambda>q. q\<lparr>egress_queue := tl (egress_queue q)\<rparr>) s"
  have st: "media_step s ?s"
    by (rule media_step_on_pt) (auto simp: same_media_def same_id_def session_def wf_pt_def wf_tracks_def split: pc_type.splits)
  obtain r s1 where x: "encrypt_egress e pkt p ?s = (r, s1)" by fastforce
  have "media_step ?s (snd (send_to e addr enc s1))" for addr enc
    using media_step_trans [OF encrypt_egress_step [OF x] send_to_step] .
  then show ?thesis
    using st media_step_trans [OF st] encrypt_egress_step [OF x]
    by (auto simp: egress_step_def Cons Let_def x split: option.splits sum.splits)
qed (simp add: egress_step_def)

section \<open>Order of delivery\<close>

text \<open>
  The datagrams of a list of packets: each is encrypted in turn with the context the one
  before left behind, and those whose encryption fails are skipped.
\<close>

fun datagrams :: "'c srtp_ops \<Rightarrow> 'c srtp_context \<Rightarrow> egress_packet list \<Rightarrow> bytes list" where
  "datagrams ops ctx [] = []"
| "datagrams ops ctx (pkt # pkts) =
     (let (r, ctx') = (case pkt of Rtp b \<Rightarrow> encrypt_rtp ops ctx b | Rtcp b \<Rightarrow> encrypt_rtcp ops ctx b)
      in (case r of Inl _ \<Rightarrow> [] | Inr enc \<Rightarrow> [enc]) @ datagrams ops ctx' pkts)"

lemma egress_step_Cons:
  fixes e :: "'c env" and s :: "'c app"
  assumes p: "p < length (heap (hub s))" and q: "egress_queue (pt s p) = pkt # rest"
    and a: "ms_address (subscribe (pt s p)) = Some addr"
  defines "x \<equiv> (case pkt of Rtp b \<Rightarrow> encrypt_rtp (srtp e) (outbound_srtp (subscribe (pt s p))) b
                  | Rtcp b \<Rightarrow> encrypt_rtcp (srtp e) (outbound_srtp (subscribe (pt s p))) b)"
  shows "egress_queue (pt (egress_step e p s) p) = rest \<and>
    ms_address (subscribe (pt (egress_step e p s) p)) = Some addr \<and>
    outbound_srtp (subscribe (pt (egress_step e p s) p)) = snd x \<and>
    out (egress_step e p s) = out s @ (case fst x of Inl _ \<Rightarrow> [] | Inr enc \<Rightarrow> [UdpSend addr enc])"
proof -
  let ?s = "on_pt p (\<lambda>q. q\<lparr>egress_queue := tl (egress_queue q)\<rparr>) s"
  have t: "pt ?s p = (pt s p)\<lparr>egress_queue := rest\<rparr>" using p q by (simp add: pt_on_pt)
  have p': "p < length (heap (hub ?s))" using p by simp
  define s1 where "s1 = snd (encrypt_egress e pkt p ?s)"
  have enc: "encrypt_egress e pkt p ?s = (fst x, s1)"
    by (cases pkt) (simp_all add: s1_def encrypt_egress_def with_outbound_def x_def t session_def)
  have s1: "pt s1 p = (pt s p)\<lparr>egress_queue := rest, subscribe := (subscribe (pt s p))\<lparr>outbound_srtp := snd x\<rparr>\<rparr>"
    "out s1 = out s"
    unfolding s1_def
    by (cases pkt; simp add: encrypt_egress_def with_outbound_def pt_on_pt [OF p'] t map_session_def x_def)+
  have "pt (snd (send_to e addr b s1)) p = pt s1 p" "out (snd (send_to e addr b s1)) = out s1 @ [UdpSend addr b]" for b
    by (simp_all add: send_to_def)
  then show ?thesis
    using a by (cases "fst x") (simp_all add: egress_step_def q t enc s1 Let_def)
qed

text \<open>
  C30: the egress task delivers in order. The task of a subscriber whose address is known
  empties its queue in as many turns as there are packets, and sends to the subscriber
  exactly the encryptions of the packets in the order in which they were queued, under one
  context that goes from packet to packet; a packet that cannot be encrypted is skipped and
  holds up nobody.
\<close>

theorem egress_in_order:
  fixes e :: "'c env" and s :: "'c app"
  assumes "p < length (heap (hub s))" and "ms_address (subscribe (pt s p)) = Some addr"
  shows "egress_queue (pt (egress_turns e p (length (egress_queue (pt s p))) s) p) = [] \<and>
    out (egress_turns e p (length (egress_queue (pt s p))) s) = out s @ map (UdpSend addr)
      (datagrams (srtp e) (outbound_srtp (subscribe (pt s p))) (egress_queue (pt s p)))"
  using assms
proof (induction "egress_queue (pt s p)" arbitrary: s)
  case (Cons pkt rest)
  note E = egress_step_Cons [OF Cons.prems(1) Cons.hyps(2) [symmetric] Cons.prems(2), of e]
  have len: "p < length (heap (hub (egress_step e p s)))"
    using Cons.prems(1) media_stepD(2) [OF egress_step_media [of s e p]] by simp
  have IH: "egress_queue (pt (egress_turns e p (length rest) (egress_step e p s)) p) = [] \<and>
      out (egress_turns e p (length rest) (egress_step e p s)) = out (egress_step e p s) @ map (UdpSend addr)
        (datagrams (srtp e) (outbound_srtp (subscribe (pt (egress_step e p s) p))) rest)"
    using Cons.hyps(1) [of "egress_step e p s"] E len by simp
  show ?case unfolding Cons.hyps(2) [symmetric] using IH E
    by (cases pkt) (auto split: prod.splits sum.splits)
qed simp

definition demo_queue_app :: "nat app" where
  "demo_queue_app = on_pt 1 (\<lambda>q. q\<lparr>egress_queue := [Rtp [1], Rtcp [2]]\<rparr>) (demo_app Conference Idle)"

theorem egress_in_order_witness:
  "out (egress_turns demo_env 1 (length (egress_queue (pt demo_queue_app 1))) demo_queue_app) =
     [UdpSend (V4 2 1) [1], UdpSend (V4 2 1) [2]]"
proof -
  have p: "pt demo_queue_app 1 = (demo_member ''b'' 1)\<lparr>egress_queue := [Rtp [1], Rtcp [2]]\<rparr>"
    by (simp add: demo_queue_app_def demo_app_def pt_def deref_def modify_def)
  have len: "1 < length (heap (hub demo_queue_app))" by (simp add: demo_queue_app_def demo_app_def)
  have a: "ms_address (subscribe (pt demo_queue_app 1)) = Some (V4 2 1)"
    unfolding p by (simp add: demo_member_def)
  have "out demo_queue_app = []" by (simp add: demo_queue_app_def demo_app_def)
  moreover have "datagrams (srtp demo_env) (outbound_srtp (subscribe (pt demo_queue_app 1))) (egress_queue (pt demo_queue_app 1)) = [[1], [2]]"
    unfolding p by (simp add: demo_member_def demo_env_def encrypt_rtp_def encrypt_rtcp_def map_err_def)
  ultimately show ?thesis using egress_in_order [OF len a, of demo_env] by simp
qed

section \<open>Keyframe requests\<close>

text \<open>The datagram that a keyframe request to a member becomes, if it becomes one.\<close>

definition pli_datagram :: "'c env \<Rightarrow> 'c app \<Rightarrow> string \<Rightarrow> pref \<Rightarrow> effect option" where
  "pli_datagram e s exclude_user p =
     (if p_user_id (pt s p) = exclude_user then None
      else (case feedback_target s p of
              None \<Rightarrow> None
            | Some (addr, ssrc) \<Rightarrow>
                (case fst (encrypt_rtcp (srtp e) (outbound_srtp (publish (pt s p))) (build_pli ssrc)) of
                   Inl _ \<Rightarrow> None | Inr enc \<Rightarrow> Some (UdpSend addr enc))))"

lemma send_pli_to_out:
  "out (send_pli_to e u p s) = out s @ (case pli_datagram e s u p of None \<Rightarrow> [] | Some x \<Rightarrow> [x])"
  "q \<noteq> p \<Longrightarrow> pt (send_pli_to e u p s) q = pt s q"
proof -
  have w: "with_outbound (encrypt_rtcp (srtp e)) Publish p b s =
      (fst (encrypt_rtcp (srtp e) (outbound_srtp (publish (pt s p))) b),
       on_pt p (map_session Publish (\<lambda>ms. ms\<lparr>outbound_srtp := snd (encrypt_rtcp (srtp e) (outbound_srtp ms) b)\<rparr>)) s)" for b
    by (simp add: with_outbound_def session_def)
  show "out (send_pli_to e u p s) = out s @ (case pli_datagram e s u p of None \<Rightarrow> [] | Some x \<Rightarrow> [x])"
    by (auto simp: send_pli_to_def pli_datagram_def send_to_publisher_def w send_to_def split: option.splits sum.splits)
  have "q \<noteq> p \<Longrightarrow> pt (on_pt p f s) q = pt s q" for f
    by (cases "p < length (heap (hub s))") (simp_all add: pt_on_pt pt_on_pt_outside)
  then show "q \<noteq> p \<Longrightarrow> pt (send_pli_to e u p s) q = pt s q"
    by (auto simp: send_pli_to_def send_to_publisher_def w send_to_def split: option.splits sum.splits)
qed

lemma send_pli_fold:
  "distinct ps \<Longrightarrow> out (fold (send_pli_to e u) ps s) = out s @ List.map_filter (pli_datagram e s u) ps"
proof (induction ps arbitrary: s)
  case (Cons p ps)
  have "List.map_filter (pli_datagram e (send_pli_to e u p s) u) ps = List.map_filter (pli_datagram e s u) ps"
  proof -
    have "pli_datagram e (send_pli_to e u p s) u q = pli_datagram e s u q" if "q \<in> set ps" for q
    proof -
      have q: "q \<noteq> p" using that Cons.prems by auto
      show ?thesis unfolding pli_datagram_def feedback_target_def send_pli_to_out(2) [OF q] ..
    qed
    then show ?thesis by (induction ps) (auto simp: List.map_filter_simps split: option.splits)
  qed
  then show ?case using Cons by (simp add: send_pli_to_out List.map_filter_simps split: option.splits)
qed (simp add: List.map_filter_simps)

text \<open>
  Keyframe requests. When a subscriber becomes ready, every other member of the room
  whose publish session is keyed and latched and who has a video track is sent exactly one
  picture loss indication for its first video track, encrypted under its own publish
  context; nobody else is sent anything, and the requests leave in the order of the room.
\<close>

theorem keyframe_requests:
  assumes "app_ok s" and "room_of s rid = Some r"
  shows "out (send_pli_to_publishers e r u s) = out s @ List.map_filter (pli_datagram e s u) (map snd (participants r))"
  unfolding send_pli_to_publishers_def
  by (rule send_pli_fold) (rule room_prefs_distinct [OF app_okD(4) [OF assms]])

theorem keyframe_requests_witness:
  "out (send_pli_to_publishers demo_env (demo_room Conference Idle) ''b'' (demo_app Conference Idle)) =
     [UdpSend (V4 1 0) (build_pli 100)]"
proof -
  have p: "pt (demo_app Conference Idle) 0 = demo_member ''a'' 0" "pt (demo_app Conference Idle) 1 = demo_member ''b'' 1"
    by (simp_all add: demo_app_def pt_def deref_def)
  have "pli_datagram demo_env (demo_app Conference Idle) ''b'' 0 = Some (UdpSend (V4 1 0) (build_pli 100))"
    by (simp add: pli_datagram_def p feedback_target_def demo_member_def participant_new_def is_publish_ready_def
        is_media_ready_def is_ready_def first_ssrc_of_kind_def demo_env_def encrypt_rtcp_def map_err_def)
  moreover have "pli_datagram demo_env (demo_app Conference Idle) ''b'' 1 = None"
    by (simp add: pli_datagram_def p [unfolded One_nat_def] demo_member_def participant_new_def)
  moreover have "participants (demo_room Conference Idle) = [(''a'', 0), (''b'', 1)]" "out (demo_app Conference Idle) = []"
    by (simp_all add: demo_room_def demo_app_def)
  ultimately show ?thesis
    using keyframe_requests [OF demo_app_ok demo_room_of, of Conference Idle demo_env "''b''"]
    by (simp add: List.map_filter_simps)
qed

end
