(* ===== verification/Effects.thy ===== *)
theory Effects
  imports Egress "HOL-Library.Sublist"
begin

text \<open>
  The invariant that every part of the server keeps, over its state and over the log of
  what it did, and the relation that its steps share. The state may grow (new participants,
  rooms, channels); what was logged stays.
\<close>

section \<open>The log\<close>

definition egress_spawns :: "'c app \<Rightarrow> pref list" where
  "egress_spawns s = List.map_filter (\<lambda>x. case x of SpawnEgress p \<Rightarrow> Some p | _ \<Rightarrow> None) (out s)"

definition dtls_spawns :: "'c app \<Rightarrow> nat list" where
  "dtls_spawns s = List.map_filter (\<lambda>x. case x of SpawnDtls a p pc c \<Rightarrow> Some c | _ \<Rightarrow> None) (out s)"

text \<open>The participants that the tasks of the log refer to exist.\<close>

fun effect_ok :: "nat \<Rightarrow> effect \<Rightarrow> bool" where
  "effect_ok n (SpawnEgress p) = (p < n)"
| "effect_ok n (SpawnDtls a p pc c) = (p < n)"
| "effect_ok n (SpawnPli p ssrc addr) = (p < n)"
| "effect_ok n _ = True"

text \<open>
  The egress tasks are those of the participants whose receiver is taken, one each; the
  DTLS tasks own the channels, one each, in the order of their creation.
\<close>

definition log_ok :: "'c app \<Rightarrow> bool" where
  "log_ok s \<longleftrightarrow> distinct (egress_spawns s) \<and>
     set (egress_spawns s) = {p. p < length (heap (hub s)) \<and> egress_rx_taken (pt s p)} \<and>
     dtls_spawns s = [0..<length (channels s)] \<and>
     (\<forall>x \<in> set (out s). effect_ok (length (heap (hub s))) x)"

definition state_ok :: "'c app \<Rightarrow> bool" where
  "state_ok s \<longleftrightarrow> app_ok s \<and> log_ok s"

definition app_new :: "'c app" where
  "app_new = \<lparr>hub = hub_new, metrics = metrics_new, channels = [], out = []\<rparr>"

lemma app_ok_new: "app_ok app_new"
  by (simp add: app_ok_def app_new_def room_of_def) (simp add: hub_new_def)

lemma state_ok_new [simp]: "state_ok app_new"
  using app_ok_new
  by (simp add: state_ok_def log_ok_def egress_spawns_def dtls_spawns_def)
     (simp add: app_new_def hub_new_def List.map_filter_simps)

section \<open>Steps\<close>

text \<open>
  Channels stay open until their task ends, new ones are open, and none holds more than its
  bound.
\<close>

definition chans_bounded :: "'c app \<Rightarrow> bool" where
  "chans_bounded s \<longleftrightarrow> (\<forall>ch \<in> set (channels s). length (chan_queue ch) \<le> DTLS_CHANNEL_SIZE)"

definition chans_kept :: "'c app \<Rightarrow> 'c app \<Rightarrow> bool" where
  "chans_kept s s' \<longleftrightarrow> (\<exists>k. map chan_open (channels s') = map chan_open (channels s) @ replicate k True) \<and>
     (chans_bounded s \<longrightarrow> chans_bounded s')"

lemma chans_kept_same [simp]: "channels s' = channels s \<Longrightarrow> chans_kept s s'"
  by (auto simp: chans_kept_def chans_bounded_def intro: exI [of _ 0])

lemma chans_kept_trans: "chans_kept s1 s2 \<Longrightarrow> chans_kept s2 s3 \<Longrightarrow> chans_kept s1 s3"
  by (auto simp: chans_kept_def replicate_add [symmetric])

lemma chans_keptD:
  assumes "chans_kept s s'"
  shows "c < length (channels s) \<Longrightarrow> c < length (channels s') \<and> chan_open (channels s' ! c) = chan_open (channels s ! c)"
    "length (channels s) \<le> c \<Longrightarrow> c < length (channels s') \<Longrightarrow> chan_open (channels s' ! c)"
    "chans_bounded s \<Longrightarrow> chans_bounded s'"
proof -
  show "chans_bounded s \<Longrightarrow> chans_bounded s'" using assms by (simp add: chans_kept_def)
  obtain k where k: "map chan_open (channels s') = map chan_open (channels s) @ replicate k True"
    using assms by (auto simp: chans_kept_def)
  then have len: "length (channels s') = length (channels s) + k" by (metis length_append length_map length_replicate)
  have n: "chan_open (channels s' ! c) = (map chan_open (channels s) @ replicate k True) ! c" if "c < length (channels s')" for c
    using that k by (metis nth_map)
  show "c < length (channels s) \<Longrightarrow> c < length (channels s') \<and> chan_open (channels s' ! c) = chan_open (channels s ! c)"
    using n [of c] len by (simp add: nth_append)
  show "length (channels s) \<le> c \<Longrightarrow> c < length (channels s') \<Longrightarrow> chan_open (channels s' ! c)"
    using n [of c] len by (simp add: nth_append)
qed

definition good_step :: "'c app \<Rightarrow> 'c app \<Rightarrow> bool" where
  "good_step s s' \<longleftrightarrow> (state_ok s \<longrightarrow> state_ok s') \<and>
     length (heap (hub s)) \<le> length (heap (hub s')) \<and> chans_kept s s' \<and>
     prefix (out s) (out s')"

named_theorems good

lemma good_refl [good, simp]: "good_step s s"
  by (simp add: good_step_def)

lemma good_trans: "good_step s s' \<Longrightarrow> good_step s' s'' \<Longrightarrow> good_step s s''"
  by (auto simp: good_step_def intro: order_trans prefix_order.trans chans_kept_trans)

lemma good_stepD:
  assumes "good_step s s'"
  shows "state_ok s \<Longrightarrow> state_ok s'" "p < length (heap (hub s)) \<Longrightarrow> p < length (heap (hub s'))"
    "c < length (channels s) \<Longrightarrow> c < length (channels s')" "prefix (out s) (out s')" "chans_kept s s'"
  using assms chans_keptD(1) [of s s' c] by (auto simp: good_step_def)

lemma state_okD:
  assumes "state_ok s"
  shows "app_ok s" "log_ok s"
  using assms by (simp_all add: state_ok_def)

text \<open>
  The log after a step that starts no egress and no DTLS task, takes no receiver and makes
  no channel.
\<close>

fun plain :: "effect \<Rightarrow> bool" where
  "plain (SpawnEgress p) = False"
| "plain (SpawnDtls a p pc c) = False"
| "plain _ = True"

lemma plain_spawns:
  "\<forall>x \<in> set es. plain x \<Longrightarrow>
     List.map_filter (\<lambda>x. case x of SpawnEgress p \<Rightarrow> Some p | _ \<Rightarrow> None) es = [] \<and>
     List.map_filter (\<lambda>x. case x of SpawnDtls a p pc c \<Rightarrow> Some c | _ \<Rightarrow> None) es = []"
  by (induction es) (auto simp: List.map_filter_simps split: effect.splits)

lemma map_filter_append [simp]: "List.map_filter f (xs @ ys) = List.map_filter f xs @ List.map_filter f ys"
  by (simp add: List.map_filter_def)

lemma effect_ok_mono: "effect_ok n x \<Longrightarrow> n \<le> m \<Longrightarrow> effect_ok m x"
  by (cases x) auto

lemma log_ok_plain:
  assumes log: "log_ok s" and ch: "length (channels s') = length (channels s)"
    and len: "length (heap (hub s)) \<le> length (heap (hub s'))"
    and old: "\<And>p. p < length (heap (hub s)) \<Longrightarrow> egress_rx_taken (pt s' p) = egress_rx_taken (pt s p)"
    and new: "\<And>p. length (heap (hub s)) \<le> p \<Longrightarrow> p < length (heap (hub s')) \<Longrightarrow> \<not> egress_rx_taken (pt s' p)"
    and out: "out s' = out s @ es" and es: "\<forall>x \<in> set es. plain x \<and> effect_ok (length (heap (hub s'))) x"
  shows "log_ok s'"
proof -
  have sp: "egress_spawns s' = egress_spawns s" "dtls_spawns s' = dtls_spawns s"
    using plain_spawns [of es] es by (simp_all add: egress_spawns_def dtls_spawns_def out)
  have "{p. p < length (heap (hub s')) \<and> egress_rx_taken (pt s' p)} = {p. p < length (heap (hub s)) \<and> egress_rx_taken (pt s p)}"
    using len old new by (auto simp: not_le [symmetric])
  moreover have "\<forall>x \<in> set (out s'). effect_ok (length (heap (hub s'))) x"
    using log es len by (auto simp: log_ok_def out intro: effect_ok_mono)
  ultimately show ?thesis using log by (simp add: log_ok_def sp ch)
qed

lemma udp_only_plain: "udp_only es \<Longrightarrow> \<forall>x \<in> set es. plain x \<and> effect_ok n x"
  by (fastforce simp: udp_only_def)

lemma good_media: "media_step s s' \<Longrightarrow> good_step s s'"
proof -
  assume m: "media_step s s'"
  then obtain es where es: "out s' = out s @ es" "udp_only es" by (auto simp: media_step_def)
  have t: "egress_rx_taken (pt s' p) = egress_rx_taken (pt s p)" for p
    using media_stepD(3) [OF m, of p] by (simp add: same_media_def)
  have "log_ok s \<Longrightarrow> log_ok s'"
    by (rule log_ok_plain [where es = es])
       (use media_stepD(2,4) [OF m] t es udp_only_plain in auto)
  then show ?thesis using m media_stepD(1,2,4) [OF m] es
    by (auto simp: good_step_def state_ok_def)
qed

lemma good_emit [good]:
  assumes "plain x" and "effect_ok (length (heap (hub s))) x"
  shows "good_step s (emit x s)"
proof -
  have "log_ok s \<Longrightarrow> log_ok (emit x s)"
    by (rule log_ok_plain [where es = "[x]"]) (use assms in auto)
  then show ?thesis by (simp add: good_step_def state_ok_def)
qed

lemma log_ok_metrics [simp]: "log_ok (s\<lparr>metrics := m\<rparr>) = log_ok s"
  by (simp add: log_ok_def egress_spawns_def dtls_spawns_def pt_def)

lemma log_ok_bump [simp]: "log_ok (bump c n s) = log_ok s"
  by (simp add: log_ok_def egress_spawns_def dtls_spawns_def)

lemma good_bump [good, simp]: "good_step s (bump c n s)"
  by (simp add: good_step_def state_ok_def)

lemma good_metrics [good]: "good_step s (s\<lparr>metrics := m\<rparr>)"
  by (simp add: good_step_def state_ok_def)

text \<open>An update of a participant that keeps its identity and its receiver.\<close>

lemma good_on_pt:
  assumes "\<And>q. same_id q (f q)" and "wf_pt (pt s p) \<Longrightarrow> wf_pt (f (pt s p))"
    and "\<And>q. egress_rx_taken (f q) = egress_rx_taken q"
  shows "good_step s (on_pt p f s)"
proof -
  have t: "egress_rx_taken (pt (on_pt p f s) q) = egress_rx_taken (pt s q)" for q
    using assms(3) by (cases "p < length (heap (hub s))") (auto simp: pt_on_pt pt_on_pt_outside)
  have "log_ok s \<Longrightarrow> log_ok (on_pt p f s)"
    by (rule log_ok_plain [where es = "[]"]) (use t in auto)
  then show ?thesis using app_ok_on_pt [of s f p, OF _ assms(1,2)] by (auto simp: good_step_def state_ok_def)
qed

text \<open>An update of a room.\<close>

lemma good_set_room:
  assumes "app_ok s \<Longrightarrow> room_ok (heap (hub s)) rid r" and "app_ok s \<Longrightarrow> floor_synced r"
  shows "good_step s (set_room rid r s)"
proof -
  have "log_ok s \<Longrightarrow> log_ok (set_room rid r s)"
    by (rule log_ok_plain [where es = "[]"]) auto
  then show ?thesis using app_ok_set_room [of s rid r] assms by (auto simp: good_step_def state_ok_def)
qed

text \<open>A sequence of steps over a list.\<close>

lemma good_fold: "(\<And>x s. x \<in> set xs \<Longrightarrow> good_step s (f x s)) \<Longrightarrow> good_step s (fold f xs s)"
proof (induction xs arbitrary: s)
  case (Cons x xs)
  have "good_step s (f x s)" using Cons.prems by simp
  moreover have "good_step (f x s) (fold f xs (f x s))" using Cons by simp
  ultimately show ?case by (auto intro: good_trans)
qed simp

text \<open>A change of the hub that keeps the participants.\<close>

lemma good_hub:
  assumes "app_ok s \<Longrightarrow> hub_ok hb" and "heap hb = heap (hub s)"
    and "app_ok s \<Longrightarrow> \<forall>rid r. map_of (rooms hb) rid = Some r \<longrightarrow> floor_synced r"
  shows "good_step s (s\<lparr>hub := hb\<rparr>)"
proof -
  have "log_ok s \<Longrightarrow> log_ok (s\<lparr>hub := hb\<rparr>)"
    by (rule log_ok_plain [where es = "[]"]) (auto simp: assms(2) pt_def)
  moreover have "app_ok s \<Longrightarrow> app_ok (s\<lparr>hub := hb\<rparr>)"
    using assms app_okD(2) [of s] by (auto simp: app_ok_def room_of_def pt_def)
  ultimately show ?thesis by (auto simp: good_step_def state_ok_def assms(2))
qed

text \<open>A new participant.\<close>

lemma good_alloc:
  assumes "on_hub (alloc_participant p) s = (q, s')" and "wf_pt p" and "\<not> egress_rx_taken p"
  shows "good_step s s'" "q = length (heap (hub s))" "pt s' q = p" "hub s' = (hub s)\<lparr>heap := heap (hub s) @ [p]\<rparr>"
    "room_of s' rid = room_of s rid"
proof -
  have s': "s' = s\<lparr>hub := (hub s)\<lparr>heap := heap (hub s) @ [p]\<rparr>\<rparr>" and q: "q = length (heap (hub s))"
    using assms(1) by (auto simp: on_hub_def alloc_participant_def)
  show "q = length (heap (hub s))" "pt s' q = p" "hub s' = (hub s)\<lparr>heap := heap (hub s) @ [p]\<rparr>"
    "room_of s' rid = room_of s rid" by (simp_all add: q s' pt_def deref_def room_of_def)
  have old: "pt s' x = (if x = length (heap (hub s)) then p else pt s x)" if "x < Suc (length (heap (hub s)))" for x
    using that by (auto simp: s' pt_def deref_def nth_append)
  have "log_ok s \<Longrightarrow> log_ok s'"
    by (rule log_ok_plain [where es = "[]"]) (use old assms(3) in \<open>auto simp: s'\<close>)
  moreover have "app_ok s'" if ok: "app_ok s"
  proof -
    have "hub_ok (hub s')" using hub_ok_sim [OF app_okD(1) [OF ok], of "heap (hub s) @ [p]"] by (simp add: s')
    moreover have "\<forall>x < length (heap (hub s')). wf_pt (pt s' x)"
      using old app_okD(2) [OF ok] assms(2) by (auto simp: s' less_Suc_eq)
    ultimately show ?thesis using app_okD(3) [OF ok] by (auto simp: app_ok_def s' room_of_def)
  qed
  ultimately show "good_step s s'" by (auto simp: good_step_def state_ok_def s')
qed

text \<open>A step whose net effect is an update of one room and some plain effects.\<close>

lemma good_room_update:
  assumes "hub s' = put_room rid r (hub s)" and "channels s' = channels s" and "out s' = out s @ es"
    and "\<forall>x \<in> set es. plain x \<and> effect_ok (length (heap (hub s))) x"
    and "app_ok s \<Longrightarrow> room_ok (heap (hub s)) rid r \<and> floor_synced r"
  shows "good_step s s'"
proof -
  have h: "heap (hub s') = heap (hub s)" and p: "pt s' p = pt s p" for p
    by (simp_all add: assms(1) pt_def)
  have "log_ok s \<Longrightarrow> log_ok s'"
    by (rule log_ok_plain [where es = es]) (use assms in \<open>auto simp: h p\<close>)
  moreover have "app_ok s'" if ok: "app_ok s"
  proof -
    have "app_ok (set_room rid r s)" using app_ok_set_room [OF ok] assms(5) [OF ok] by blast
    then show ?thesis by (simp add: app_ok_def assms(1) pt_def room_of_def)
  qed
  ultimately show ?thesis by (auto simp: good_step_def state_ok_def h assms(2,3))
qed

end
