(* ===== verification/Settings.thy ===== *)
theory Settings
  imports Config
begin

text \<open>
  Reading the environment (\<open>src/config.rs\<close>, \<open>env_or\<close> of \<open>src/lib.rs\<close>) and the number
  formats of the messages. The environment variables are a function from names; strings
  are their UTF-8 bytes.
\<close>

section \<open>Numbers as text\<close>

definition digit_char :: "nat \<Rightarrow> char" where
  "digit_char n = char_of (if n < 10 then 48 + n else 55 + n)"

fun show_nat :: "nat \<Rightarrow> string" where
  "show_nat n = (if n < 10 then [digit_char n] else show_nat (n div 10) @ [digit_char (n mod 10)])"

declare show_nat.simps [simp del]

text \<open>\<open>{:03}\<close> of a number below a thousand, and \<open>0x{:08X}\<close>.\<close>

definition show_3digits :: "nat \<Rightarrow> string" where
  "show_3digits n = [digit_char (n div 100), digit_char (n div 10 mod 10), digit_char (n mod 10)]"

definition show_hex32 :: "u32 \<Rightarrow> string" where
  "show_hex32 w = ''0x'' @ map (\<lambda>i. digit_char (unat (drop_bit (28 - 4 * i) w AND 0xF))) [0..<8]"

text \<open>\<open>str::parse\<close> for \<open>u64\<close> and \<open>u16\<close>: an optional plus sign, digits, no overflow.\<close>

fun parse_digits :: "nat \<Rightarrow> string \<Rightarrow> nat option" where
  "parse_digits acc [] = Some acc"
| "parse_digits acc (c # cs) =
     (if 48 \<le> (of_char c :: nat) \<and> (of_char c :: nat) \<le> 57
      then parse_digits (acc * 10 + (of_char c - 48)) cs else None)"

definition parse_nat :: "nat \<Rightarrow> string \<Rightarrow> nat option" where
  "parse_nat bound s =
     (let ds = (case s of c # cs \<Rightarrow> if c = CHR ''+'' then cs else s | [] \<Rightarrow> [])
      in if ds = [] then None
         else Option.bind (parse_digits 0 ds) (\<lambda>n. if n < bound then Some n else None))"

section \<open>The environment\<close>

type_synonym env_vars = "string \<Rightarrow> string option"

definition env_or :: "(string \<Rightarrow> 'a option) \<Rightarrow> env_vars \<Rightarrow> string \<Rightarrow> 'a \<Rightarrow> 'a" where
  "env_or parse vars key fallback =
     (case Option.bind (vars key) parse of Some x \<Rightarrow> x | None \<Rightarrow> fallback)"

definition WS_PORT :: nat where [config_defs]: "WS_PORT = 1974"
definition UDP_PORT :: nat where [config_defs]: "UDP_PORT = 19740"
definition UDP_WORKER_COUNT :: nat where [config_defs]: "UDP_WORKER_COUNT = 0"
definition REMB_BITRATE_BPS :: nat where [config_defs]: "REMB_BITRATE_BPS = 500000"
definition HEARTBEAT_INTERVAL_MS :: nat where [config_defs]: "HEARTBEAT_INTERVAL_MS = 30000"
definition HEARTBEAT_TIMEOUT_MS :: nat where [config_defs]: "HEARTBEAT_TIMEOUT_MS = 90000"
definition TWCC_FEEDBACK_INTERVAL_MS :: nat where [config_defs]: "TWCC_FEEDBACK_INTERVAL_MS = 100"
definition REMB_INTERVAL_MS :: nat where [config_defs]: "REMB_INTERVAL_MS = 1000"

definition resolve_remb_bitrate :: "env_vars \<Rightarrow> nat" where
  "resolve_remb_bitrate vars =
     (case Option.bind (vars ''REMB_BITRATE_BPS'') (parse_nat (2 ^ 64)) of Some n \<Rightarrow> n | None \<Rightarrow> REMB_BITRATE_BPS)"

definition lower_char :: "char \<Rightarrow> char" where
  "lower_char c = (if 65 \<le> (of_char c :: nat) \<and> (of_char c :: nat) \<le> 90 then char_of ((of_char c :: nat) + 32) else c)"

text \<open>No character outside ASCII has one of the letters of \<open>remb\<close> as its lower case.\<close>

definition resolve_bwe_mode :: "env_vars \<Rightarrow> bwe_mode" where
  "resolve_bwe_mode vars =
     (if map lower_char (case vars ''BWE_MODE'' of Some v \<Rightarrow> v | None \<Rightarrow> []) = ''remb'' then Remb else Twcc)"

definition show_bwe_mode :: "bwe_mode \<Rightarrow> string" where
  "show_bwe_mode m = (case m of Twcc \<Rightarrow> ''twcc'' | Remb \<Rightarrow> ''remb'')"

text \<open>The period of the feedback timer of the first worker.\<close>

definition bwe_interval :: "bwe_mode \<Rightarrow> nat" where
  "bwe_interval m = (case m of Twcc \<Rightarrow> TWCC_FEEDBACK_INTERVAL_MS | Remb \<Rightarrow> REMB_INTERVAL_MS)"

section \<open>Numbers read back\<close>

lemma of_char_digit: "n < 10 \<Longrightarrow> of_char (digit_char n) = (48 + n :: nat)"
  by (simp add: digit_char_def)

lemma parse_digits_append: "parse_digits acc (xs @ ys) = Option.bind (parse_digits acc xs) (\<lambda>a. parse_digits a ys)"
  by (induction acc xs rule: parse_digits.induct) auto

lemma show_nat_digits: "show_nat n \<noteq> [] \<and> hd (show_nat n) \<noteq> CHR ''+''"
proof (induction n rule: show_nat.induct)
  case (1 n)
  have "digit_char m \<noteq> CHR ''+''" if "m < 10" for m
    using of_char_digit [OF that] by auto
  then show ?case using 1 by (subst (1 2) show_nat.simps) auto
qed

lemma parse_show_digits: "parse_digits 0 (show_nat n) = Some n"
proof (induction n rule: show_nat.induct)
  case (1 n)
  have "parse_digits a [digit_char m] = Some (a * 10 + m)" if "m < 10" for a m
    using of_char_digit [OF that] that by simp
  then show ?case using 1 by (subst show_nat.simps) (auto simp: parse_digits_append)
qed

text \<open>
  The settings round trip. A number that is written in decimal reads back, with or
  without a plus sign, exactly when it is below the bound of its type; so a bit rate
  written in decimal is the bit rate the server announces, and one that does not fit 64
  bits falls back to the default of half a megabit.
\<close>

theorem settings_roundtrip:
  "parse_nat bound (show_nat n) = (if n < bound then Some n else None) \<and>
   parse_nat bound (CHR ''+'' # show_nat n) = (if n < bound then Some n else None) \<and>
   resolve_remb_bitrate (vars(''REMB_BITRATE_BPS'' \<mapsto> show_nat n)) = (if n < 2 ^ 64 then n else 500000)"
proof -
  obtain c cs where s: "show_nat n = c # cs" "c \<noteq> CHR ''+''"
    using show_nat_digits [of n] by (cases "show_nat n") auto
  have "parse_nat b (show_nat n) = (if n < b then Some n else None)" for b
    using parse_show_digits [of n] s by (simp add: parse_nat_def Let_def)
  moreover have "parse_nat b (CHR ''+'' # show_nat n) = (if n < b then Some n else None)" for b
    using parse_show_digits [of n] s by (simp add: parse_nat_def Let_def)
  ultimately show ?thesis by (simp add: resolve_remb_bitrate_def REMB_BITRATE_BPS_def)
qed

end
