(* ===== verification/Messages.thy ===== *)
theory Messages
  imports Effects Settings
begin

text \<open>
  The vocabulary of the signaling protocol (\<open>src/signaling/opcode.rs\<close>,
  \<open>src/signaling/message.rs\<close>) and what the handlers of \<open>src/signaling/handler.rs\<close> and the
  timer tasks share: broadcasts, the JSON of tracks and rooms, and the fixed media policy.
  The order of the fields of an object is that of the source text; the printer of
  \<open>serde_json\<close> is a parameter. The decoders that \<open>serde\<close> derives are a record of functions.
\<close>

section \<open>Opcodes\<close>

named_theorems opcode_defs

definition HELLO :: u16 where [opcode_defs]: "HELLO = 0"
definition HEARTBEAT :: u16 where [opcode_defs]: "HEARTBEAT = 1"
definition IDENTIFY :: u16 where [opcode_defs]: "IDENTIFY = 3"
definition ROOM_LIST :: u16 where [opcode_defs]: "ROOM_LIST = 9"
definition ROOM_CREATE :: u16 where [opcode_defs]: "ROOM_CREATE = 10"
definition ROOM_JOIN :: u16 where [opcode_defs]: "ROOM_JOIN = 11"
definition ROOM_LEAVE :: u16 where [opcode_defs]: "ROOM_LEAVE = 12"
definition PUBLISH_TRACKS :: u16 where [opcode_defs]: "PUBLISH_TRACKS = 15"
definition MUTE_UPDATE :: u16 where [opcode_defs]: "MUTE_UPDATE = 17"
definition MESSAGE :: u16 where [opcode_defs]: "MESSAGE = 20"
definition TELEMETRY :: u16 where [opcode_defs]: "TELEMETRY = 30"
definition FLOOR_REQUEST :: u16 where [opcode_defs]: "FLOOR_REQUEST = 40"
definition FLOOR_RELEASE :: u16 where [opcode_defs]: "FLOOR_RELEASE = 41"
definition FLOOR_PING :: u16 where [opcode_defs]: "FLOOR_PING = 42"
definition ROOM_EVENT :: u16 where [opcode_defs]: "ROOM_EVENT = 100"
definition TRACKS_UPDATE :: u16 where [opcode_defs]: "TRACKS_UPDATE = 101"
definition TRACK_STATE :: u16 where [opcode_defs]: "TRACK_STATE = 102"
definition MESSAGE_EVENT :: u16 where [opcode_defs]: "MESSAGE_EVENT = 103"
definition FLOOR_TAKEN :: u16 where [opcode_defs]: "FLOOR_TAKEN = 141"
definition FLOOR_IDLE :: u16 where [opcode_defs]: "FLOOR_IDLE = 142"
definition FLOOR_REVOKE :: u16 where [opcode_defs]: "FLOOR_REVOKE = 143"

section \<open>Requests\<close>

record identify_request =
  id_token :: string
  id_user :: "string option"

datatype room_mode_field = ConferenceField | PttField

definition to_config :: "room_mode_field \<Rightarrow> room_mode" where
  "to_config f = (case f of ConferenceField \<Rightarrow> Conference | PttField \<Rightarrow> Ptt)"

record room_create_request =
  cr_name :: string
  cr_capacity :: "nat option"
  cr_mode :: "room_mode_field option"

record room_request =
  rq_room_id :: string

record publish_track_item =
  pti_kind :: string
  pti_ssrc :: u32

record mute_update_request =
  mu_ssrc :: u32
  mu_muted :: bool

record message_request =
  mr_room_id :: string
  mr_content :: string

record decoders =
  dec_packet :: "string \<Rightarrow> packet option"
  dec_identify :: "json \<Rightarrow> identify_request option"
  dec_create :: "json \<Rightarrow> room_create_request option"
  dec_join :: "json \<Rightarrow> room_request option"
  dec_leave :: "json \<Rightarrow> room_request option"
  dec_publish :: "json \<Rightarrow> publish_track_item list option"
  dec_mute :: "json \<Rightarrow> mute_update_request option"
  dec_message :: "json \<Rightarrow> message_request option"
  dec_floor_request :: "json \<Rightarrow> room_request option"
  dec_floor_release :: "json \<Rightarrow> room_request option"
  dec_floor_ping :: "json \<Rightarrow> room_request option"

section \<open>JSON of the model's data\<close>

definition jword :: "'a::len word \<Rightarrow> json" where
  "jword w = JNum (uint w)"

definition track_fields :: "track \<Rightarrow> (string \<times> json) list" where
  "track_fields t =
     [(''kind'', JStr (show_track_kind (t_kind t))), (''ssrc'', jword (t_ssrc t)), (''track_id'', JStr (t_track_id t))]"

definition rtx_field :: "u32 option \<Rightarrow> (string \<times> json) list" where
  "rtx_field r = (case r of Some rs \<Rightarrow> [(''rtx_ssrc'', jword rs)] | None \<Rightarrow> [])"

definition track_json :: "string \<Rightarrow> track \<Rightarrow> json" where
  "track_json uid t = JObj ((''user_id'', JStr uid) # track_fields t @ rtx_field (t_rtx_ssrc t))"

definition tracks_update :: "string \<Rightarrow> json list \<Rightarrow> packet" where
  "tracks_update action ts = packet_new TRACKS_UPDATE 0 (JObj [(''action'', JStr action), (''tracks'', JArr ts)])"

definition room_event :: "string \<Rightarrow> string \<Rightarrow> string \<Rightarrow> packet" where
  "room_event event rid uid =
     packet_new ROOM_EVENT 0 (JObj [(''type'', JStr event), (''room_id'', JStr rid), (''user_id'', JStr uid)])"

section \<open>Broadcasts\<close>

definition ws_send :: "pref \<Rightarrow> string \<Rightarrow> 'c app \<Rightarrow> 'c app" where
  "ws_send p text s = emit (WsSend (ws_tx (pt s p)) text) s"

definition broadcast_to_others :: "'c env \<Rightarrow> room \<Rightarrow> string \<Rightarrow> packet \<Rightarrow> 'c app \<Rightarrow> 'c app" where
  "broadcast_to_others e r exclude x s =
     (case packet_string e x of
        None \<Rightarrow> s
      | Some j \<Rightarrow> fold (\<lambda>(uid, p) s. if uid \<noteq> exclude then ws_send p j s else s) (participants r) s)"

definition broadcast_to_room :: "'c env \<Rightarrow> room \<Rightarrow> packet \<Rightarrow> 'c app \<Rightarrow> 'c app" where
  "broadcast_to_room e r x s =
     (case packet_string e x of
        None \<Rightarrow> s
      | Some j \<Rightarrow> fold (\<lambda>(uid, p) s. ws_send p j s) (participants r) s)"

section \<open>The snapshot for administrators\<close>

definition snapshot_track :: "track \<Rightarrow> json" where
  "snapshot_track t = JObj (track_fields t @ [(''muted'', JBool (t_muted t))] @ rtx_field (t_rtx_ssrc t))"

definition snapshot_participant :: "'c participant \<Rightarrow> json" where
  "snapshot_participant p =
     JObj [(''user_id'', JStr (p_user_id p)), (''pub_ready'', JBool (is_publish_ready p)),
           (''sub_ready'', JBool (is_subscribe_ready p)), (''tracks'', JArr (map snapshot_track (get_tracks p)))]"

definition snapshot_room :: "'c app \<Rightarrow> room \<Rightarrow> json" where
  "snapshot_room s r =
     JObj ([(''room_id'', JStr (r_id r)), (''name'', JStr (r_name r)), (''capacity'', JNum (int (r_capacity r))),
            (''mode'', JStr (show_room_mode (r_mode r))),
            (''participants'', JArr (map (\<lambda>p. snapshot_participant (pt s p)) (all_participants r)))]
       @ (if r_mode r = Ptt
          then [(''ptt'', JObj
                 [(''floor_speaker'', case current_speaker (r_floor r) of Some u \<Rightarrow> JStr u | None \<Rightarrow> JNull),
                  (''audio_virtual_ssrc'', JStr (show_hex32 (virtual_ssrc (audio_rewriter r)))),
                  (''video_virtual_ssrc'', JStr (show_hex32 (virtual_ssrc (video_rewriter r))))])]
          else []))"

definition build_rooms_snapshot :: "'c app \<Rightarrow> json" where
  "build_rooms_snapshot s =
     JObj [(''type'', JStr ''snapshot''), (''rooms'', JArr (map (\<lambda>(rid, r). snapshot_room s r) (rooms (hub s))))]"

definition push_admin_snapshot :: "'c env \<Rightarrow> 'c app \<Rightarrow> 'c app" where
  "push_admin_snapshot e s = emit (AdminSend (json_string e (build_rooms_snapshot s))) s"

section \<open>The media policy\<close>

definition server_codec_policy :: json where
  "server_codec_policy = JArr
     [JObj [(''kind'', JStr ''audio''), (''name'', JStr ''opus''), (''pt'', JNum 111), (''clockrate'', JNum 48000),
            (''channels'', JNum 2), (''rtcp_fb'', JArr [JStr ''nack'']), (''fmtp'', JStr ''minptime=10;useinbandfec=1'')],
      JObj [(''kind'', JStr ''video''), (''name'', JStr ''VP8''), (''pt'', JNum 96), (''clockrate'', JNum 90000),
            (''rtx_pt'', JNum 97),
            (''rtcp_fb'', JArr [JStr ''nack'', JStr ''nack pli'', JStr ''ccm fir'', JStr ''goog-remb''])]]"

definition server_extmap_policy :: "bwe_mode \<Rightarrow> json" where
  "server_extmap_policy m = JArr
     ([JObj [(''id'', JNum 1), (''uri'', JStr ''urn:ietf:params:rtp-hdrext:sdes:mid'')],
       JObj [(''id'', JNum 4), (''uri'', JStr ''urn:ietf:params:rtp-hdrext:ssrc-audio-level'')],
       JObj [(''id'', JNum 5), (''uri'', JStr ''http://www.webrtc.org/experiments/rtp-hdrext/abs-send-time'')]]
      @ (if m = Twcc
         then [JObj [(''id'', JNum 6),
                (''uri'', JStr ''http://www.ietf.org/id/draft-holmer-rmcat-transport-wide-cc-extensions-01'')]]
         else []))"

section \<open>What a broadcast does\<close>

lemma ws_send_good: "good_step s (ws_send p t s)"
  unfolding ws_send_def by (rule good_emit) simp_all

text \<open>Steps that only queue events: everything but the log stays.\<close>

definition says :: "effect list \<Rightarrow> 'c app \<Rightarrow> 'c app" where
  "says es s = s\<lparr>out := out s @ es\<rparr>"

lemma says_simps [simp]:
  "hub (says es s) = hub s" "metrics (says es s) = metrics s" "channels (says es s) = channels s"
  "out (says es s) = out s @ es" "pt (says es s) p = pt s p" "room_of (says es s) rid = room_of s rid"
  "says [] s = s" "says fs (says es s) = says (es @ fs) s"
  by (simp_all add: says_def pt_def room_of_def)

lemma emit_says: "emit x s = says [x] s"
  by (simp add: emit_def says_def)

definition to_members :: "'c app \<Rightarrow> string \<Rightarrow> (string \<times> pref) list \<Rightarrow> effect list" where
  "to_members s j ps = map (\<lambda>(uid, p). WsSend (ws_tx (pt s p)) j) ps"

lemma to_members_says [simp]: "to_members (says es s) j ps = to_members s j ps"
  by (simp add: to_members_def)

text \<open>The copies of an event for a list of members; none when it cannot be printed.\<close>

definition event_for :: "'c env \<Rightarrow> 'c app \<Rightarrow> packet \<Rightarrow> (string \<times> pref) list \<Rightarrow> effect list" where
  "event_for e s x ps = (case packet_string e x of None \<Rightarrow> [] | Some j \<Rightarrow> to_members s j ps)"

definition others :: "string \<Rightarrow> room \<Rightarrow> (string \<times> pref) list" where
  "others u r = filter (\<lambda>(uid, p). uid \<noteq> u) (participants r)"

lemma event_for_says [simp]: "event_for e (says es s) x ps = event_for e s x ps"
  by (simp add: event_for_def split: option.split)

lemma event_for_plain: "y \<in> set (event_for e s x ps) \<Longrightarrow> plain y \<and> effect_ok n y"
  by (auto simp: event_for_def to_members_def split: option.splits)

lemma broadcast_others_says: "broadcast_to_others e r u x s = says (event_for e s x (others u r)) s"
proof -
  have "fold (\<lambda>(uid, p) s. if uid \<noteq> u then ws_send p j s else s) ps s =
      says (to_members s j (filter (\<lambda>(uid, p). uid \<noteq> u) ps)) s" for j ps
  proof (induction ps arbitrary: s)
    case (Cons x ps)
    show ?case using Cons [of "ws_send (snd x) j s"] Cons [of s]
      by (cases x) (simp add: ws_send_def emit_says to_members_def)
  qed (simp add: to_members_def)
  then show ?thesis by (simp add: broadcast_to_others_def event_for_def others_def split: option.split)
qed

lemma broadcast_room_says: "broadcast_to_room e r x s = says (event_for e s x (participants r)) s"
proof -
  have "fold (\<lambda>(uid, p) s. ws_send p j s) ps s = says (to_members s j ps) s" for j ps
  proof (induction ps arbitrary: s)
    case (Cons x ps)
    show ?case using Cons [of "ws_send (snd x) j s"]
      by (cases x) (simp add: ws_send_def emit_says to_members_def)
  qed (simp add: to_members_def)
  then show ?thesis by (simp add: broadcast_to_room_def event_for_def split: option.split)
qed

lemma good_says: "\<forall>x \<in> set es. plain x \<and> effect_ok (length (heap (hub s))) x \<Longrightarrow> good_step s (says es s)"
proof (induction es arbitrary: s)
  case (Cons x es)
  have "good_step s (emit x s)" using Cons.prems by (intro good_emit) auto
  moreover have "good_step (emit x s) (says es (emit x s))" using Cons by simp
  ultimately show ?case using good_trans by (fastforce simp: emit_says)
qed simp

lemma broadcast_good [good]:
  "good_step s (broadcast_to_others e r u x s)" "good_step s (broadcast_to_room e r x s)"
  "good_step s (push_admin_snapshot e s)"
  unfolding broadcast_others_says broadcast_room_says push_admin_snapshot_def emit_says
  by (rule good_says; auto dest: event_for_plain)+

end
