(* ===== verification/Ice.thy ===== *)
theory Ice
  imports Stun
begin

text \<open>
  The ICE-lite agent (\<open>src/transport/ice.rs\<close>): credentials, the handler of a STUN
  binding request, and what its answer says to the client that decodes it.
\<close>

section \<open>Credentials\<close>

record ice_credentials =
  ufrag :: string
  pwd :: string

text \<open>The bytes come from the system's random source.\<close>

definition random_ice_string :: "bytes \<Rightarrow> string" where
  "random_ice_string rnd =
     map (\<lambda>b. let r = b mod 36
              in char_of (unat (if r < 10 then of_char (CHR ''0'') + r
                                else of_char (CHR ''a'') + r - 10))) rnd"

definition ice_credentials_new :: "bytes \<Rightarrow> bytes \<Rightarrow> ice_credentials" where
  "ice_credentials_new rnd_ufrag rnd_pwd =
     \<lparr>ufrag = random_ice_string rnd_ufrag, pwd = random_ice_string rnd_pwd\<rparr>"

section \<open>Binding requests\<close>

datatype ice_result =
    SendResponse (ir_data: bytes) (ir_remote: sockaddr) (ir_use_candidate: bool)
  | Ignore

definition starts_with :: "string \<Rightarrow> string \<Rightarrow> bool" where
  "starts_with s p \<longleftrightarrow> take (length p) s = p"

definition handle_stun_packet ::
  "(bytes \<Rightarrow> bytes \<Rightarrow> bytes) \<Rightarrow> (bytes \<Rightarrow> u32) \<Rightarrow> bytes \<Rightarrow> sockaddr \<Rightarrow> ice_credentials \<Rightarrow> ice_result option" where
  "handle_stun_packet hmac_sha1 crc32 buf remote local_creds = do {
     parsed \<leftarrow> stun_parse buf;
     case parsed of None \<Rightarrow> Some Ignore
     | Some msg \<Rightarrow>
       if msg_type msg \<noteq> BINDING_REQUEST then Some Ignore
       else case username msg of None \<Rightarrow> Some Ignore
       | Some user \<Rightarrow>
         if \<not> starts_with user (ufrag local_creds @ '':'') then Some Ignore
         else do {
           let key = ice_integrity_key (pwd local_creds);
           ok \<leftarrow> verify_message_integrity hmac_sha1 msg key;
           if \<not> ok then Some Ignore
           else do {
             response \<leftarrow> build_binding_response hmac_sha1 crc32 (transaction_id msg) remote key;
             Some (SendResponse response remote (has_use_candidate msg)) } } }"

section \<open>The binding response\<close>

text \<open>The attributes of a response.\<close>

definition response_attrs ::
  "(bytes \<Rightarrow> bytes \<Rightarrow> bytes) \<Rightarrow> (bytes \<Rightarrow> u32) \<Rightarrow> bytes \<Rightarrow> sockaddr \<Rightarrow> bytes \<Rightarrow> stun_attribute list" where
  "response_attrs hmac_sha1 crc32 tid remote key =
     (let xma = \<lparr>attr_type = ATTR_XOR_MAPPED_ADDRESS, attr_value = encode_xor_mapped_address remote tid\<rparr>;
          sw = \<lparr>attr_type = ATTR_SOFTWARE, attr_value = bytes_of ''light-livechat''\<rparr>;
          mi = \<lparr>attr_type = ATTR_MESSAGE_INTEGRITY,
                attr_value = hmac_sha1 (signed_part BINDING_RESPONSE tid [xma, sw]) key\<rparr>;
          before_fp = encode_attrs [xma, sw, mi];
          fp = \<lparr>attr_type = ATTR_FINGERPRINT,
                attr_value = to_be32 (crc32 (stun_header BINDING_RESPONSE (length before_fp + 8) tid @ before_fp)
                  XOR 0x5354554E)\<rparr>
      in [xma, sw, mi, fp])"

lemma build_binding_response_eq:
  assumes "length tid = 12" and "\<And>d k. length (hmac_sha1 d k) = 20"
  shows "build_binding_response hmac_sha1 crc32 tid remote key =
    Some (stun_packet BINDING_RESPONSE tid (response_attrs hmac_sha1 crc32 tid remote key))"
proof -
  have h: "to_be16 BINDING_RESPONSE @ to_be16 0 @ to_be32 MAGIC_COOKIE @ tid = stun_header BINDING_RESPONSE 0 tid"
    by (simp add: stun_header_def)
  have len: "length (stun_header t n tid @ as) - HEADER_SIZE = length as" for t n and as :: bytes
    using assms(1) by (simp add: HEADER_SIZE_def)
  have fp: "length (encode_attr \<lparr>attr_type = t, attr_value = to_be32 w\<rparr>) = 8" for t w
    by (simp add: length_encode_attr align4_eq)
  show ?thesis
    unfolding build_binding_response_def h
    by (simp only: Let_def write_attr_append append_assoc len write_length Option.bind.simps)
       (simp add: response_attrs_def signed_part_def stun_packet_def Let_def fp add.assoc)
qed

lemma length_map2_xor [simp]: "length xs = length ys \<Longrightarrow> length (map2 (XOR) xs ys) = length xs"
  by simp

lemma length_xma: "length tid = 12 \<Longrightarrow> length (encode_xor_mapped_address addr tid) \<le> 20"
  by (cases addr) (simp_all add: encode_xor_mapped_address_def)

lemma response_sane:
  assumes "length tid = 12" and "\<And>d k. length (hmac_sha1 d k) = 20"
  shows "sane_attrs (response_attrs hmac_sha1 crc32 tid remote key)"
proof -
  have "align4 (length (encode_xor_mapped_address remote tid)) < 24"
    using align4_less [of "length (encode_xor_mapped_address remote tid)"] length_xma [OF assms(1), of remote]
    by linarith
  moreover have "align4 20 = 20" "align4 (length ''light-livechat'') = 16" "align4 4 = 4" by (simp_all add: align4_eq)
  ultimately show ?thesis
    by (simp add: sane_attrs_def response_attrs_def Let_def length_encode_attr assms(2))
qed

text \<open>
  The reader of the address attribute: family, port and address bytes, with the mask
  taken off again.
\<close>

definition decode_xor_mapped_address :: "bytes \<Rightarrow> bytes \<Rightarrow> (u8 \<times> u16 \<times> bytes) option" where
  "decode_xor_mapped_address v tid = do {
     family \<leftarrow> idx v 1;
     xport \<leftarrow> rd16 v 2;
     Some (family, xport XOR 0x2112, map2 (XOR) (drop 4 v) (to_be32 MAGIC_COOKIE @ tid)) }"

fun addr_view :: "sockaddr \<Rightarrow> u8 \<times> u16 \<times> bytes" where
  "addr_view (V4 ip port) = (ADDR_FAMILY_IPV4, port, to_be32 ip)"
| "addr_view (V6 ip port _ _) = (ADDR_FAMILY_IPV6, port, to_be128 ip)"

lemma map2_xor_twice: "length xs \<le> length ys \<Longrightarrow> map2 (XOR) (map2 (XOR) xs ys) (ys :: bytes) = xs"
proof (induction xs arbitrary: ys)
  case (Cons x xs)
  then show ?case by (cases ys) (auto simp: xor.assoc)
qed simp

lemma map2_xor_prefix:
  "length xs = length ys \<Longrightarrow> map2 (XOR) (map2 (XOR) xs ys) (ys @ zs) = (xs :: bytes)"
  using map2_xor_twice [of xs ys] zip_append [of "map2 (XOR) xs ys" ys "[]" zs] by simp

lemma decode_encode_xma:
  assumes "length tid = 12"
  shows "decode_xor_mapped_address (encode_xor_mapped_address addr tid) tid = Some (addr_view addr)"
proof -
  have cookie: "ucast (drop_bit 16 MAGIC_COOKIE) = (0x2112 :: u16)" by (simp add: MAGIC_COOKIE_def)
  have r: "rd16 ([0, f] @ to_be16 p @ rest) 2 = Some p" for f p rest
    by (rule be16.get_at) simp
  show ?thesis
  proof (cases addr)
    case (V4 ip port)
    let ?x = "map2 (XOR) (to_be32 ip) (to_be32 MAGIC_COOKIE)"
    have "map2 (XOR) ?x (to_be32 MAGIC_COOKIE @ tid) = to_be32 ip"
      by (rule map2_xor_prefix) simp
    then show ?thesis
      unfolding V4 encode_xor_mapped_address_def decode_xor_mapped_address_def sockaddr.case append_assoc r cookie
      by (simp add: xor.assoc idx_def)
  next
    case (V6 ip port fl sc)
    let ?x = "map2 (XOR) (to_be128 ip) (to_be32 MAGIC_COOKIE @ tid)"
    have "map2 (XOR) ?x (to_be32 MAGIC_COOKIE @ tid) = to_be128 ip"
      by (rule map2_xor_twice) (simp add: assms)
    then show ?thesis
      unfolding V6 encode_xor_mapped_address_def decode_xor_mapped_address_def sockaddr.case append_assoc r cookie
      by (simp add: xor.assoc idx_def)
  qed
qed

text \<open>
  C40: the binding response a client receives. For a transaction identifier of twelve
  bytes and an HMAC of twenty, the response to any address is built without a panic; a
  client parses it to a binding success with the same transaction identifier, accepts its
  MESSAGE-INTEGRITY under the key, reads its own address and port from the masked
  address attribute, and finds the fingerprint over everything before it. The
  demultiplexer of the server would classify it as STUN.
\<close>

theorem binding_response_accepted:
  assumes "length tid = 12" and "\<forall>d k. length (hmac_sha1 d k) = 20"
  shows "\<exists>buf msg xma fp.
    build_binding_response hmac_sha1 crc32 tid remote key = Some buf \<and>
    stun_parse buf = Some (Some msg) \<and> msg_type msg = BINDING_RESPONSE \<and> transaction_id msg = tid \<and>
    verify_message_integrity hmac_sha1 msg key = Some True \<and>
    get_attr msg ATTR_XOR_MAPPED_ADDRESS = Some xma \<and>
    decode_xor_mapped_address (attr_value xma) tid = Some (addr_view remote) \<and>
    get_attr msg ATTR_FINGERPRINT = Some fp \<and>
    attr_value fp = to_be32 (crc32 (take (length buf - 8) buf) XOR 0x5354554E) \<and>
    classify buf = Stun_Packet"
proof -
  let ?as = "response_attrs hmac_sha1 crc32 tid remote key"
  let ?buf = "stun_packet BINDING_RESPONSE tid ?as"
  have h: "\<And>d k. length (hmac_sha1 d k) = 20" using assms(2) by simp
  have t: "BINDING_RESPONSE < 0x4000" by (simp add: BINDING_RESPONSE_def)
  note sane = response_sane [of tid hmac_sha1 crc32 remote key, OF assms(1) h]
  define msg where "msg = \<lparr>msg_type = BINDING_RESPONSE, msg_length = of_nat (length (encode_attrs ?as)),
      transaction_id = tid, attributes = ?as, raw = ?buf\<rparr>"
  have parse: "stun_parse ?buf = Some (Some msg)"
    using stun_parse_packet [OF t assms(1) sane, of "[]"] by (simp add: msg_def)
  define xma where "xma = \<lparr>attr_type = ATTR_XOR_MAPPED_ADDRESS, attr_value = encode_xor_mapped_address remote tid\<rparr>"
  define sw where "sw = \<lparr>attr_type = ATTR_SOFTWARE, attr_value = bytes_of ''light-livechat''\<rparr>"
  define mi where "mi = \<lparr>attr_type = ATTR_MESSAGE_INTEGRITY,
      attr_value = hmac_sha1 (signed_part BINDING_RESPONSE tid [xma, sw]) key\<rparr>"
  define before where "before = encode_attrs [xma, sw, mi]"
  define fp where "fp = \<lparr>attr_type = ATTR_FINGERPRINT, attr_value =
      to_be32 (crc32 (stun_header BINDING_RESPONSE (length before + 8) tid @ before) XOR 0x5354554E)\<rparr>"
  have as: "?as = [xma, sw] @ mi # [fp]"
    by (simp add: response_attrs_def Let_def xma_def sw_def mi_def fp_def before_def)
  have verify: "verify_message_integrity hmac_sha1 msg key =
      Some (hmac_sha1 (signed_part BINDING_RESPONSE tid [xma, sw]) key = attr_value mi)"
    using parse sane unfolding as
    by (intro verify_spec [OF _ t assms(1)])
       (simp_all add: mi_def xma_def sw_def config_defs)
  have fplen: "length (encode_attr fp) = 8" by (simp add: fp_def length_encode_attr align4_eq)
  then have "take (length ?buf - 8) ?buf = stun_header BINDING_RESPONSE (length before + 8) tid @ before"
    by (simp add: stun_packet_def as before_def add.assoc)
  moreover have "classify ?buf = Stun_Packet"
    by (simp add: classify_def stun_packet_def stun_header_def to_be16_def config_defs)
  ultimately show ?thesis
    using build_binding_response_eq [of tid hmac_sha1 crc32 remote key, OF assms(1) h] parse verify decode_encode_xma [OF assms(1), of remote]
    by (intro exI [of _ ?buf] exI [of _ msg] exI [of _ xma] exI [of _ fp])
       (simp_all add: msg_def get_attr_def as mi_def xma_def sw_def fp_def config_defs)
qed

theorem binding_response_accepted_witness:
  "\<exists>buf msg. build_binding_response (\<lambda>d k. replicate 20 0) (\<lambda>d. 7) (replicate 12 1) (V4 0x0A000001 5000) [1] = Some buf \<and>
     stun_parse buf = Some (Some msg) \<and> transaction_id msg = replicate 12 1"
  using binding_response_accepted [of "replicate 12 1" "\<lambda>d k. replicate 20 0" "\<lambda>d. 7" "V4 0x0A000001 5000" "[1]"]
  by auto

definition claims_ufrag :: "stun_attribute list \<Rightarrow> string \<Rightarrow> bool" where
  "claims_ufrag as u \<longleftrightarrow>
     (\<exists>a. List.find (\<lambda>a. attr_type a = ATTR_USERNAME) as = Some a \<and> valid_utf8 (attr_value a) \<and>
          starts_with (str_of (attr_value a)) (u @ '':''))"

text \<open>
  Who gets an ICE answer. A STUN message with a MESSAGE-INTEGRITY attribute is answered
  exactly when it is a binding request, its USERNAME is UTF-8 and begins with the
  server's fragment and a colon, and the integrity value is the HMAC of the message under
  the server's password. The answer is the binding response for the sender's address;
  every other message is ignored, and nothing panics.
\<close>

theorem ice_lite_answers:
  assumes "t < 0x4000" and "length tid = 12" and "\<forall>d k. length (hmac_sha1 d k) = 20"
    and "sane_attrs (as @ mi # rest)" and "attr_type mi = ATTR_MESSAGE_INTEGRITY"
    and "\<forall>a \<in> set as. attr_type a \<noteq> ATTR_MESSAGE_INTEGRITY"
  shows "handle_stun_packet hmac_sha1 crc32 (stun_packet t tid (as @ mi # rest)) remote creds =
    Some (if t = BINDING_REQUEST \<and> claims_ufrag (as @ mi # rest) (ufrag creds) \<and>
             hmac_sha1 (signed_part t tid as) (bytes_of (pwd creds)) = attr_value mi
          then SendResponse
            (stun_packet BINDING_RESPONSE tid (response_attrs hmac_sha1 crc32 tid remote (bytes_of (pwd creds))))
            remote (List.find (\<lambda>a. attr_type a = ATTR_USE_CANDIDATE) (as @ mi # rest) \<noteq> None)
          else Ignore)"
proof -
  let ?as = "as @ mi # rest"
  have h: "\<And>d k. length (hmac_sha1 d k) = 20" using assms(3) by simp
  obtain msg where m: "msg = \<lparr>msg_type = t, msg_length = of_nat (length (encode_attrs ?as)),
      transaction_id = tid, attributes = ?as, raw = stun_packet t tid ?as\<rparr>" by simp
  have p: "stun_parse (stun_packet t tid ?as) = Some (Some msg)"
    using stun_parse_packet [OF assms(1,2,4), of "[]"] by (simp add: m)
  have v: "verify_message_integrity hmac_sha1 msg (bytes_of (pwd creds)) =
      Some (hmac_sha1 (signed_part t tid as) (bytes_of (pwd creds)) = attr_value mi)"
    by (rule verify_spec [OF p assms(1,2,4-6)])
  have f: "msg_type msg = t" "transaction_id msg = tid" "attributes msg = ?as" by (simp_all add: m)
  have u: "claims_ufrag ?as x \<longleftrightarrow> (\<exists>user. username msg = Some user \<and> starts_with user (x @ '':''))" for x
    by (auto simp: claims_ufrag_def username_def get_attr_def f split: Option.bind_splits)
  show ?thesis
    unfolding handle_stun_packet_def p ice_integrity_key_def u Let_def
    by (cases "username msg")
       (simp_all add: v f get_attr_def has_use_candidate_def
        build_binding_response_eq [of tid hmac_sha1 crc32 remote _, OF assms(2) h])
qed

theorem ice_lite_answers_witness:
  "\<exists>as mi. handle_stun_packet (\<lambda>d k. replicate 20 (hd k)) (\<lambda>d. 0)
      (stun_packet BINDING_REQUEST (replicate 12 1) (as @ mi # [])) (V4 1 2) \<lparr>ufrag = ''ab'', pwd = ''A''\<rparr> \<noteq> Some Ignore"
proof -
  let ?u = "\<lparr>attr_type = ATTR_USERNAME, attr_value = [97, 98, 58, 99]\<rparr>"
  let ?mi = "\<lparr>attr_type = ATTR_MESSAGE_INTEGRITY, attr_value = replicate 20 65\<rparr>"
  have c: "claims_ufrag [?u, ?mi] ''ab''"
  proof -
    have "str_of [97, 98, 58, 99] = ''ab:c''" by code_simp
    then show ?thesis by (simp add: claims_ufrag_def starts_with_def between_def config_defs)
  qed
  have "sane_attrs ([?u] @ ?mi # [])"
    by (simp add: sane_attrs_def length_encode_attr align4_eq)
  then show ?thesis
    using ice_lite_answers [of BINDING_REQUEST "replicate 12 1" "\<lambda>d k. replicate 20 (hd k)" "[?u]" ?mi "[]" "\<lambda>d. 0" "V4 1 2"
        "\<lparr>ufrag = ''ab'', pwd = ''A''\<rparr>"] c
    by (intro exI [of _ "[?u]"] exI [of _ ?mi]) (simp add: config_defs bytes_of_def)
qed

text \<open>
  Generated credentials. Every random byte gives one lower-case letter or digit, so a
  fragment has the length asked for and never contains the colon that separates the two
  fragments of a STUN user name.
\<close>

theorem random_ice_string_alphabet:
  "length (random_ice_string rnd) = length rnd \<and>
   set (random_ice_string rnd) \<subseteq> set ''0123456789abcdefghijklmnopqrstuvwxyz'' \<and>
   CHR '':'' \<notin> set (random_ice_string rnd)"
proof -
  have c: "(let r = b mod 36 in char_of (unat (if r < 10 then of_char (CHR ''0'') + r
      else of_char (CHR ''a'') + r - 10))) \<in> set ''0123456789abcdefghijklmnopqrstuvwxyz''" (is "?c b \<in> _")
    for b :: u8
  proof -
    define n where "n = unat (b mod 36)"
    have n: "n < 36" unfolding n_def by (simp add: unat_mod)
    have r: "b mod 36 = of_nat n" by (simp add: n_def)
    have "list_all (\<lambda>n. (char_of (48 + n) :: char) \<in> set ''0123456789abcdefghijklmnopqrstuvwxyz'') [0..<(10 :: nat)]"
      "list_all (\<lambda>n. (char_of (87 + n) :: char) \<in> set ''0123456789abcdefghijklmnopqrstuvwxyz'') [10..<(36 :: nat)]"
      by code_simp+
    then have "(char_of (if n < 10 then 48 + n else 87 + n) :: char) \<in> set ''0123456789abcdefghijklmnopqrstuvwxyz''"
      unfolding list_all_iff using n by (simp only: set_upt atLeastLessThan_iff not_less split: if_splits) simp
    moreover have e: "unat (if (of_nat n :: u8) < 10 then 48 + of_nat n else 97 + of_nat n - 10 :: u8) =
        (if n < 10 then 48 + n else 87 + n)"
    proof -
      have "97 + of_nat n - 10 = (of_nat (87 + n) :: u8)" "48 + of_nat n = (of_nat (48 + n) :: u8)" by simp_all
      moreover have "unat (of_nat k :: u8) = k" if "k < 256" for k
        using that by (simp add: unat_of_nat take_bit_nat_eq_self)
      ultimately show ?thesis using n by (simp add: word_less_nat_alt del: of_nat_add)
    qed
    moreover have z: "of_char (CHR ''0'') = (48 :: u8)" "of_char (CHR ''a'') = (97 :: u8)" by simp_all
    ultimately show ?thesis unfolding r Let_def z by (simp only:)
  qed
  then have "set (random_ice_string rnd) \<subseteq> set ''0123456789abcdefghijklmnopqrstuvwxyz''"
    unfolding random_ice_string_def by auto
  moreover have "CHR '':'' \<notin> set ''0123456789abcdefghijklmnopqrstuvwxyz''" by simp
  ultimately show ?thesis by (auto simp: random_ice_string_def)
qed

end
