(* ===== verification/Signaling.thy ===== *)
theory Signaling
  imports Messages Ice
begin

text \<open>
  The signaling handlers (\<open>src/signaling/handler.rs\<close>): one connection has a session; a text
  frame is decoded to a packet and dispatched to a handler, whose answer is written back.
  A handler is one step; it returns \<open>None\<close> where the source would panic (the unwrap of the
  user identifier). Random numbers, the clock and the identifiers it draws are the record
  \<open>fresh\<close>; the fields of the shared state that never change are the record \<open>server\<close>.
\<close>

section \<open>Session and surroundings\<close>

record ws_session =
  su_user :: "string option"
  su_room :: "string option"
  su_pub_ufrag :: "string option"
  su_sub_ufrag :: "string option"
  su_server_pid :: u64
  su_ack_miss :: u64
  su_tx :: nat

definition session_new :: "nat \<Rightarrow> ws_session" where
  "session_new tx = \<lparr>su_user = None, su_room = None, su_pub_ufrag = None, su_sub_ufrag = None,
     su_server_pid = 1, su_ack_miss = 0, su_tx = tx\<rparr>"

definition next_pid :: "ws_session \<Rightarrow> u64 \<times> ws_session" where
  "next_pid ss = (su_server_pid ss, ss\<lparr>su_server_pid := su_server_pid ss + 1\<rparr>)"

definition is_authenticated :: "ws_session \<Rightarrow> bool" where
  "is_authenticated ss \<longleftrightarrow> su_user ss \<noteq> None"

record fresh =
  f_now :: u64
  f_uuid :: string
  f_rand :: "u8 \<times> u8"
  f_pub_ice :: "bytes \<times> bytes"
  f_sub_ice :: "bytes \<times> bytes"
  f_vssrc :: "u32 \<times> u32"

record server =
  sv_public_ip :: string
  sv_udp_port :: nat
  sv_fingerprint :: string
  sv_bwe_mode :: bwe_mode
  sv_vars :: env_vars

definition rand_u16 :: "u8 \<times> u8 \<Rightarrow> u16" where
  "rand_u16 b = of_be16 (snd b) (fst b)"

text \<open>\<open>id.trim().is_empty()\<close> on the UTF-8 bytes of the identifier.\<close>

fun blank :: "bytes \<Rightarrow> bool" where
  "blank [] = True"
| "blank (a # bs) =
     (if between 0x09 0x0D a \<or> a = 0x20 then blank bs
      else (case bs of
          b # c # rest \<Rightarrow>
            if a = 0xC2 \<and> (b = 0x85 \<or> b = 0xA0) then blank (c # rest)
            else (a = 0xE1 \<and> b = 0x9A \<and> c = 0x80 \<or>
                  a = 0xE2 \<and> b = 0x80 \<and> (between 0x80 0x8A c \<or> c = 0xA8 \<or> c = 0xA9 \<or> c = 0xAF) \<or>
                  a = 0xE2 \<and> b = 0x81 \<and> c = 0x9F \<or> a = 0xE3 \<and> b = 0x80 \<and> c = 0x80) \<and> blank rest
        | [b] \<Rightarrow> a = 0xC2 \<and> (b = 0x85 \<or> b = 0xA0)
        | [] \<Rightarrow> False))"

section \<open>Rooms\<close>

definition handle_identify :: "decoders \<Rightarrow> fresh \<Rightarrow> packet \<Rightarrow> ws_session \<Rightarrow> packet \<times> ws_session" where
  "handle_identify dec fr x ss =
     (case dec_identify dec (d x) of
        None \<Rightarrow> (packet_err IDENTIFY (pid x) 3002 ''invalid payload'', ss)
      | Some req \<Rightarrow>
          (let fallback = ''U'' @ show_3digits (unat (rand_u16 (f_rand fr) mod 1000));
               uid = (case id_user req of
                   Some u \<Rightarrow> if blank (bytes_of u) then fallback else u
                 | None \<Rightarrow> fallback)
           in (packet_ok IDENTIFY (pid x) (JObj [(''user_id'', JStr uid)]), ss\<lparr>su_user := Some uid\<rparr>)))"

definition room_list_item :: "room \<Rightarrow> json" where
  "room_list_item r =
     JObj [(''room_id'', JStr (r_id r)), (''name'', JStr (r_name r)), (''capacity'', JNum (int (r_capacity r))),
           (''mode'', JStr (show_room_mode (r_mode r))), (''participants'', JNum (int (participant_count r)))]"

definition handle_room_list :: "packet \<Rightarrow> 'c app \<Rightarrow> packet" where
  "handle_room_list x s =
     packet_ok ROOM_LIST (pid x) (JObj [(''rooms'', JArr (map (\<lambda>(rid, r). room_list_item r) (rooms (hub s))))])"

definition handle_room_create :: "decoders \<Rightarrow> fresh \<Rightarrow> packet \<Rightarrow> 'c app \<Rightarrow> packet \<times> 'c app" where
  "handle_room_create dec fr x s =
     (case dec_create dec (d x) of
        None \<Rightarrow> (packet_err ROOM_CREATE (pid x) 3002 ''invalid payload'', s)
      | Some req \<Rightarrow>
          (let mode = to_config (case cr_mode req of Some m \<Rightarrow> m | None \<Rightarrow> ConferenceField);
               (r, s) = on_hub (hub_create (f_uuid fr) (fst (f_vssrc fr)) (snd (f_vssrc fr)) (cr_name req)
                          (cr_capacity req) mode (f_now fr)) s
           in (packet_ok ROOM_CREATE (pid x) (JObj
                 [(''room_id'', JStr (r_id r)), (''name'', JStr (r_name r)),
                  (''capacity'', JNum (int (r_capacity r))), (''mode'', JStr (show_room_mode (r_mode r)))]), s)))"

definition existing_tracks :: "'c app \<Rightarrow> room \<Rightarrow> string \<Rightarrow> json list" where
  "existing_tracks s r uid =
     concat (map (\<lambda>p. map (track_json (p_user_id (pt s p))) (get_tracks (pt s p))) (other_participants r uid))"

definition join_response :: "server \<Rightarrow> string \<Rightarrow> room \<Rightarrow> ice_credentials \<Rightarrow> ice_credentials \<Rightarrow> json list \<Rightarrow> json" where
  "join_response sv rid r pub_ice sub_ice existing = JObj
     ([(''room_id'', JStr rid), (''mode'', JStr (show_room_mode (r_mode r))),
       (''participants'', JArr (map JStr (member_ids r))),
       (''server_config'', JObj
         [(''ice'', JObj [(''publish_ufrag'', JStr (ufrag pub_ice)), (''publish_pwd'', JStr (pwd pub_ice)),
                          (''subscribe_ufrag'', JStr (ufrag sub_ice)), (''subscribe_pwd'', JStr (pwd sub_ice)),
                          (''ip'', JStr (sv_public_ip sv)), (''port'', JNum (int (sv_udp_port sv)))]),
          (''dtls'', JObj [(''fingerprint'', JStr (sv_fingerprint sv)), (''setup'', JStr ''passive'')]),
          (''codecs'', server_codec_policy), (''extmap'', server_extmap_policy (sv_bwe_mode sv)),
          (''max_bitrate_bps'', JNum (int (resolve_remb_bitrate (sv_vars sv))))]),
       (''tracks'', JArr existing)]
      @ (if r_mode r = Ptt
         then [(''ptt_virtual_ssrc'', JObj [(''audio'', jword (virtual_ssrc (audio_rewriter r))),
                                            (''video'', jword (virtual_ssrc (video_rewriter r)))])]
         else []))"

text \<open>The room that the handler keeps is shared, so it sees the participant it added.\<close>

definition handle_room_join ::
  "'c env \<Rightarrow> server \<Rightarrow> decoders \<Rightarrow> fresh \<Rightarrow> packet \<Rightarrow> ws_session \<Rightarrow> 'c app \<Rightarrow> (packet \<times> ws_session \<times> 'c app) option" where
  "handle_room_join e sv dec fr x ss s =
     (case dec_join dec (d x) of
        None \<Rightarrow> Some (packet_err ROOM_JOIN (pid x) 3002 ''invalid payload'', ss, s)
      | Some req \<Rightarrow> do {
          uid \<leftarrow> su_user ss;
          case hub_get (hub s) (rq_room_id req) of
            Inl _ \<Rightarrow> Some (packet_err ROOM_JOIN (pid x) 2001 ''room not found'', ss, s)
          | Inr _ \<Rightarrow> do {
              let rid = rq_room_id req;
              let pub_ice = ice_credentials_new (fst (f_pub_ice fr)) (snd (f_pub_ice fr));
              let sub_ice = ice_credentials_new (fst (f_sub_ice fr)) (snd (f_sub_ice fr));
              let (p, s) = on_hub (alloc_participant (participant_new uid rid (ufrag pub_ice) (pwd pub_ice)
                             (ufrag sub_ice) (pwd sub_ice) (su_tx ss) (f_now fr))) s;
              case on_hub (add_participant rid p) s of
                (Inl err, s) \<Rightarrow> Some (packet_err ROOM_JOIN (pid x) (error_code err) (error_message err), ss, s)
              | (Inr _, s) \<Rightarrow> do {
                  let ss = ss\<lparr>su_room := Some rid, su_pub_ufrag := Some (ufrag pub_ice), su_sub_ufrag := Some (ufrag sub_ice)\<rparr>;
                  r \<leftarrow> room_of s rid;
                  let existing = existing_tracks s r uid;
                  let s = broadcast_to_others e r uid (room_event ''participant_joined'' rid uid) s;
                  let s = push_admin_snapshot e s;
                  Some (packet_ok ROOM_JOIN (pid x) (join_response sv rid r pub_ice sub_ice existing), ss, s) } } })"

section \<open>Tracks\<close>

definition parse_kind :: "string \<Rightarrow> track_kind option" where
  "parse_kind k = (if k = ''audio'' then Some Audio else if k = ''video'' then Some Video else None)"

text \<open>The loop over the announced tracks: the counter of the names and the JSON of the events.\<close>

fun publish_items :: "string \<Rightarrow> pref \<Rightarrow> nat \<Rightarrow> publish_track_item list \<Rightarrow> 'c app \<Rightarrow> json list \<times> 'c app" where
  "publish_items uid p n [] s = ([], s)"
| "publish_items uid p n (t # ts) s =
     (case parse_kind (pti_kind t) of
        None \<Rightarrow> publish_items uid p n ts s
      | Some kind \<Rightarrow>
          (let track_id = uid @ ''_'' @ show_nat n;
               s = on_pt p (add_track (pti_ssrc t) kind track_id) s;
               rtx = Option.bind (List.find (\<lambda>tr. t_ssrc tr = pti_ssrc t) (get_tracks (pt s p))) t_rtx_ssrc;
               j = JObj ([(''user_id'', JStr uid), (''kind'', JStr (pti_kind t)), (''ssrc'', jword (pti_ssrc t)),
                          (''track_id'', JStr track_id)] @ rtx_field rtx)
           in apfst ((#) j) (publish_items uid p (n + 1) ts s)))"

text \<open>The part that two handlers begin with: the room and the participant of the session.\<close>

definition own_seat :: "ws_session \<Rightarrow> string \<Rightarrow> 'c app \<Rightarrow> (u16 \<times> string) + (string \<times> room \<times> pref)" where
  "own_seat ss uid s =
     (case su_room ss of
        None \<Rightarrow> Inl (2004, ''not in room'')
      | Some rid \<Rightarrow>
          (case hub_get (hub s) rid of
             Inl _ \<Rightarrow> Inl (2001, ''room not found'')
           | Inr r \<Rightarrow>
               (case get_participant r uid of
                  None \<Rightarrow> Inl (2004, ''not in room'')
                | Some p \<Rightarrow> Inr (rid, r, p))))"

definition handle_publish_tracks ::
  "'c env \<Rightarrow> decoders \<Rightarrow> packet \<Rightarrow> ws_session \<Rightarrow> 'c app \<Rightarrow> (packet \<times> 'c app) option" where
  "handle_publish_tracks e dec x ss s =
     (case dec_publish dec (d x) of
        None \<Rightarrow> Some (packet_err PUBLISH_TRACKS (pid x) 3002 ''invalid payload'', s)
      | Some req \<Rightarrow> do {
          uid \<leftarrow> su_user ss;
          case own_seat ss uid s of
            Inl (code, msg) \<Rightarrow> Some (packet_err PUBLISH_TRACKS (pid x) code msg, s)
          | Inr (rid, r, p) \<Rightarrow>
              (let (new_tracks, s) = publish_items uid p (length (get_tracks (pt s p))) req s;
                   s = (if new_tracks \<noteq> [] then broadcast_to_others e r uid (tracks_update ''add'' new_tracks) s else s)
               in Some (packet_ok PUBLISH_TRACKS (pid x) (JObj [(''registered'', JNum (int (length new_tracks)))]), s)) })"

definition track_state :: "string \<Rightarrow> u32 \<Rightarrow> track_kind \<Rightarrow> bool \<Rightarrow> packet" where
  "track_state uid ssrc kind muted = packet_new TRACK_STATE 0 (JObj
     [(''user_id'', JStr uid), (''ssrc'', jword ssrc), (''kind'', JStr (show_track_kind kind)), (''muted'', JBool muted)])"

text \<open>A keyframe request for one track of one participant, when its publish session is up.\<close>

definition request_keyframe :: "'c env \<Rightarrow> pref \<Rightarrow> u32 \<Rightarrow> 'c app \<Rightarrow> 'c app" where
  "request_keyframe e p ssrc s =
     (if \<not> is_publish_ready (pt s p) then s
      else (case ms_address (publish (pt s p)) of
              None \<Rightarrow> s
            | Some addr \<Rightarrow> snd (send_to_publisher e p addr (build_pli ssrc) s)))"

definition handle_mute_update ::
  "'c env \<Rightarrow> decoders \<Rightarrow> packet \<Rightarrow> ws_session \<Rightarrow> 'c app \<Rightarrow> (packet \<times> 'c app) option" where
  "handle_mute_update e dec x ss s =
     (case dec_mute dec (d x) of
        None \<Rightarrow> Some (packet_err MUTE_UPDATE (pid x) 3002 ''invalid payload'', s)
      | Some req \<Rightarrow> do {
          uid \<leftarrow> su_user ss;
          case own_seat ss uid s of
            Inl (code, msg) \<Rightarrow> Some (packet_err MUTE_UPDATE (pid x) code msg, s)
          | Inr (rid, r, p) \<Rightarrow>
              (case set_track_muted (mu_ssrc req) (mu_muted req) (pt s p) of
                 (None, _) \<Rightarrow> Some (packet_err MUTE_UPDATE (pid x) 2005 ''track not found'', s)
               | (Some kind, _) \<Rightarrow>
                   (let s = on_pt p (\<lambda>q. snd (set_track_muted (mu_ssrc req) (mu_muted req) q)) s;
                        s = broadcast_to_others e r uid (track_state uid (mu_ssrc req) kind (mu_muted req)) s;
                        s = (if \<not> mu_muted req \<and> kind = Video then request_keyframe e p (mu_ssrc req) s else s)
                    in Some (packet_ok MUTE_UPDATE (pid x)
                         (JObj [(''ssrc'', jword (mu_ssrc req)), (''muted'', JBool (mu_muted req))]), s))) })"

section \<open>Floor control\<close>

definition floor_taken :: "string \<Rightarrow> string \<Rightarrow> packet" where
  "floor_taken rid speaker = packet_new FLOOR_TAKEN 0 (JObj [(''room_id'', JStr rid), (''speaker'', JStr speaker)])"

definition floor_idle :: "string \<Rightarrow> string \<Rightarrow> string option \<Rightarrow> packet" where
  "floor_idle rid prev cause = packet_new FLOOR_IDLE 0 (JObj
     ([(''room_id'', JStr rid), (''prev_speaker'', JStr prev)]
      @ (case cause of Some c \<Rightarrow> [(''cause'', JStr c)] | None \<Rightarrow> [])))"

definition floor_revoke :: "string \<Rightarrow> string \<Rightarrow> packet" where
  "floor_revoke rid cause = packet_new FLOOR_REVOKE 0 (JObj [(''room_id'', JStr rid), (''cause'', JStr cause)])"

text \<open>The direct notice to a revoked speaker; an unprintable packet becomes the empty text.\<close>

definition send_revoke :: "'c env \<Rightarrow> room \<Rightarrow> string \<Rightarrow> string \<Rightarrow> 'c app \<Rightarrow> 'c app" where
  "send_revoke e r prev cause s =
     (case get_participant r prev of
        None \<Rightarrow> s
      | Some p \<Rightarrow> ws_send p (case packet_string e (floor_revoke (r_id r) cause) of Some j \<Rightarrow> j | None \<Rightarrow> []) s)"

definition apply_floor_action ::
  "'c env \<Rightarrow> u16 \<Rightarrow> u64 \<Rightarrow> floor_action \<Rightarrow> room \<Rightarrow> string \<Rightarrow> 'c app \<Rightarrow> packet \<times> 'c app" where
  "apply_floor_action e code n action r uid s =
     (case action of
        Granted speaker \<Rightarrow>
          (packet_ok code n (JObj [(''granted'', JBool True), (''speaker'', JStr speaker)]),
           broadcast_to_others e r uid (floor_taken (r_id r) speaker) s)
      | Denied reason speaker \<Rightarrow> (packet_err code n 2010 (reason @ '' (speaker='' @ speaker @ '')''), s)
      | Released prev \<Rightarrow> (packet_ok code n (JObj []), broadcast_to_room e r (floor_idle (r_id r) prev None) s)
      | Revoked prev cause \<Rightarrow>
          (packet_ok code n (JObj []),
           broadcast_to_room e r (floor_idle (r_id r) prev (Some cause)) (send_revoke e r prev cause s))
      | _ \<Rightarrow> (packet_ok code n (JObj []), s))"

definition set_floor :: "string \<Rightarrow> floor_state \<Rightarrow> 'c app \<Rightarrow> 'c app" where
  "set_floor rid f s = (case room_of s rid of None \<Rightarrow> s | Some r \<Rightarrow> set_room rid (r\<lparr>r_floor := f\<rparr>) s)"

definition on_rewriters :: "string \<Rightarrow> (ptt_rewriter \<Rightarrow> ptt_rewriter) \<Rightarrow> 'c app \<Rightarrow> 'c app" where
  "on_rewriters rid f s =
     (case room_of s rid of
        None \<Rightarrow> s
      | Some r \<Rightarrow> set_room rid (r\<lparr>audio_rewriter := f (audio_rewriter r), video_rewriter := f (video_rewriter r)\<rparr>) s)"

text \<open>The task that repeats the keyframe request is spawned when there is something to ask.\<close>

definition spawn_floor_pli :: "room \<Rightarrow> string \<Rightarrow> 'c app \<Rightarrow> 'c app" where
  "spawn_floor_pli r speaker s =
     (case get_participant r speaker of
        None \<Rightarrow> s
      | Some p \<Rightarrow>
          if \<not> is_publish_ready (pt s p) then s
          else (case (first_ssrc_of_kind Video (pt s p), ms_address (publish (pt s p))) of
              (Some ssrc, Some addr) \<Rightarrow> emit (SpawnPli p ssrc addr) s
            | _ \<Rightarrow> s))"

definition PLI_DELAYS :: "nat list" where
  "PLI_DELAYS = [0, 500, 1500]"

text \<open>One attempt of that task, and whether it goes on.\<close>

definition pli_attempt :: "'c env \<Rightarrow> pref \<Rightarrow> u32 \<Rightarrow> sockaddr \<Rightarrow> 'c app \<Rightarrow> bool \<times> 'c app" where
  "pli_attempt e p ssrc addr s =
     (case with_outbound (encrypt_rtcp (srtp e)) Publish p (build_pli ssrc) s of
        (Inl err, s) \<Rightarrow> (True, s)
      | (Inr enc, s) \<Rightarrow> send_to e addr enc s)"

fun pli_attempts :: "'c env \<Rightarrow> pref \<Rightarrow> u32 \<Rightarrow> sockaddr \<Rightarrow> nat list \<Rightarrow> 'c app \<Rightarrow> 'c app" where
  "pli_attempts e p ssrc addr [] s = s"
| "pli_attempts e p ssrc addr (delay # ds) s =
     (case pli_attempt e p ssrc addr s of
        (True, s) \<Rightarrow> pli_attempts e p ssrc addr ds s
      | (False, s) \<Rightarrow> s)"

definition handle_floor_request ::
  "'c env \<Rightarrow> decoders \<Rightarrow> fresh \<Rightarrow> packet \<Rightarrow> ws_session \<Rightarrow> 'c app \<Rightarrow> (packet \<times> 'c app) option" where
  "handle_floor_request e dec fr x ss s =
     (case dec_floor_request dec (d x) of
        None \<Rightarrow> Some (packet_err FLOOR_REQUEST (pid x) 3002 ''invalid payload'', s)
      | Some req \<Rightarrow> do {
          uid \<leftarrow> su_user ss;
          case hub_get (hub s) (rq_room_id req) of
            Inl _ \<Rightarrow> Some (packet_err FLOOR_REQUEST (pid x) 2001 ''room not found'', s)
          | Inr r \<Rightarrow>
              if r_mode r \<noteq> Ptt then Some (packet_err FLOOR_REQUEST (pid x) 2020 ''not a PTT room'', s)
              else (let (action, f) = floor_request (r_floor r) uid (f_now fr);
                        s = set_floor (rq_room_id req) f s;
                        (response, s) = apply_floor_action e FLOOR_REQUEST (pid x) action r uid s;
                        s = (case action of
                            Granted speaker \<Rightarrow>
                              (let s = bump Ptt_floor_granted 1 s;
                                   s = bump Ptt_speaker_switches 1 s;
                                   s = on_rewriters (rq_room_id req) (\<lambda>w. switch_speaker w speaker) s
                               in spawn_floor_pli r speaker s)
                          | _ \<Rightarrow> s)
                    in Some (response, s)) })"

definition handle_floor_release ::
  "'c env \<Rightarrow> decoders \<Rightarrow> packet \<Rightarrow> ws_session \<Rightarrow> 'c app \<Rightarrow> (packet \<times> 'c app) option" where
  "handle_floor_release e dec x ss s =
     (case dec_floor_release dec (d x) of
        None \<Rightarrow> Some (packet_err FLOOR_RELEASE (pid x) 3002 ''invalid payload'', s)
      | Some req \<Rightarrow> do {
          uid \<leftarrow> su_user ss;
          case hub_get (hub s) (rq_room_id req) of
            Inl _ \<Rightarrow> Some (packet_err FLOOR_RELEASE (pid x) 2001 ''room not found'', s)
          | Inr r \<Rightarrow>
              if r_mode r \<noteq> Ptt then Some (packet_err FLOOR_RELEASE (pid x) 2020 ''not a PTT room'', s)
              else (let (action, f) = floor_release (r_floor r) uid;
                        s = set_floor (rq_room_id req) f s;
                        s = (case action of
                            Released _ \<Rightarrow> on_rewriters (rq_room_id req) clear_speaker (bump Ptt_floor_released 1 s)
                          | _ \<Rightarrow> s)
                    in Some (apply_floor_action e FLOOR_RELEASE (pid x) action r uid s)) })"

definition handle_floor_ping ::
  "decoders \<Rightarrow> fresh \<Rightarrow> packet \<Rightarrow> ws_session \<Rightarrow> 'c app \<Rightarrow> (packet \<times> 'c app) option" where
  "handle_floor_ping dec fr x ss s =
     (case dec_floor_ping dec (d x) of
        None \<Rightarrow> Some (packet_err FLOOR_PING (pid x) 3002 ''invalid payload'', s)
      | Some req \<Rightarrow> do {
          uid \<leftarrow> su_user ss;
          case hub_get (hub s) (rq_room_id req) of
            Inl _ \<Rightarrow> Some (packet_err FLOOR_PING (pid x) 2001 ''room not found'', s)
          | Inr r \<Rightarrow>
              (let (action, f) = floor_ping (r_floor r) uid (f_now fr);
                   s = set_floor (rq_room_id req) f s
               in Some (case action of
                   PingOk \<Rightarrow> (packet_ok FLOOR_PING (pid x) (JObj []), s)
                 | _ \<Rightarrow> (packet_err FLOOR_PING (pid x) 2021 ''not current speaker'', s))) })"

section \<open>Leaving\<close>

text \<open>The two events of a departure: the tracks, if there were any, and the participant.\<close>

definition notify_left_room :: "'c env \<Rightarrow> room \<Rightarrow> string \<Rightarrow> string \<Rightarrow> track list \<Rightarrow> 'c app \<Rightarrow> 'c app" where
  "notify_left_room e r rid uid ts s =
     (let s = (if ts \<noteq> [] then broadcast_to_room e r (tracks_update ''remove'' (map (track_json uid) ts)) s else s)
      in broadcast_to_room e r (room_event ''participant_left'' rid uid) s)"

definition notify_left_others :: "'c env \<Rightarrow> room \<Rightarrow> string \<Rightarrow> string \<Rightarrow> track list \<Rightarrow> 'c app \<Rightarrow> 'c app" where
  "notify_left_others e r rid uid ts s =
     (let s = (if ts \<noteq> [] then broadcast_to_others e r uid (tracks_update ''remove'' (map (track_json uid) ts)) s else s)
      in broadcast_to_others e r uid (room_event ''participant_left'' rid uid) s)"

text \<open>The release of the floor when its holder goes.\<close>

definition leave_floor :: "'c env \<Rightarrow> string \<Rightarrow> string \<Rightarrow> 'c app \<Rightarrow> 'c app" where
  "leave_floor e rid uid s =
     (case hub_get (hub s) rid of
        Inl _ \<Rightarrow> s
      | Inr r \<Rightarrow>
          if r_mode r \<noteq> Ptt then s
          else (case on_participant_leave (r_floor r) uid of
              (None, f) \<Rightarrow> set_floor rid f s
            | (Some action, f) \<Rightarrow>
                on_rewriters rid clear_speaker (snd (apply_floor_action e FLOOR_RELEASE 0 action r uid (set_floor rid f s)))))"

definition handle_room_leave ::
  "'c env \<Rightarrow> decoders \<Rightarrow> packet \<Rightarrow> ws_session \<Rightarrow> 'c app \<Rightarrow> (packet \<times> ws_session \<times> 'c app) option" where
  "handle_room_leave e dec x ss s =
     (case dec_leave dec (d x) of
        None \<Rightarrow> Some (packet_err ROOM_LEAVE (pid x) 3002 ''invalid payload'', ss, s)
      | Some req \<Rightarrow> do {
          uid \<leftarrow> su_user ss;
          let rid = rq_room_id req;
          let s = leave_floor e rid uid s;
          case on_hub (remove_participant rid uid) s of
            (Inl err, s) \<Rightarrow> Some (packet_err ROOM_LEAVE (pid x) (error_code err) (error_message err), ss, s)
          | (Inr p, s) \<Rightarrow>
              (let s = (case hub_get (hub s) rid of
                       Inl _ \<Rightarrow> s
                     | Inr r \<Rightarrow> notify_left_room e r rid uid (get_tracks (pt s p)) s);
                   ss = ss\<lparr>su_room := None, su_pub_ufrag := None, su_sub_ufrag := None\<rparr>
               in Some (packet_ok ROOM_LEAVE (pid x) (JObj []), ss, push_admin_snapshot e s)) })"

definition cleanup :: "'c env \<Rightarrow> ws_session \<Rightarrow> 'c app \<Rightarrow> 'c app" where
  "cleanup e ss s =
     (case (su_room ss, su_user ss) of
        (Some rid, Some uid) \<Rightarrow>
          (let s = leave_floor e rid uid s;
               s = (case hub_get (hub s) rid of
                   Inl _ \<Rightarrow> s
                 | Inr r \<Rightarrow>
                     notify_left_others e r rid uid
                       (case get_participant r uid of Some p \<Rightarrow> get_tracks (pt s p) | None \<Rightarrow> []) s);
               s = snd (on_hub (remove_participant rid uid) s)
           in push_admin_snapshot e s)
      | _ \<Rightarrow> s)"

section \<open>Messages and telemetry\<close>

definition handle_message ::
  "'c env \<Rightarrow> decoders \<Rightarrow> fresh \<Rightarrow> packet \<Rightarrow> ws_session \<Rightarrow> 'c app \<Rightarrow> (packet \<times> 'c app) option" where
  "handle_message e dec fr x ss s =
     (case dec_message dec (d x) of
        None \<Rightarrow> Some (packet_err MESSAGE (pid x) 3002 ''invalid payload'', s)
      | Some req \<Rightarrow> do {
          uid \<leftarrow> su_user ss;
          let s = (case hub_get (hub s) (mr_room_id req) of
              Inl _ \<Rightarrow> s
            | Inr r \<Rightarrow> broadcast_to_others e r uid (packet_new MESSAGE_EVENT 0 (JObj
                [(''room_id'', JStr (mr_room_id req)), (''user_id'', JStr uid), (''content'', JStr (mr_content req))])) s);
          Some (packet_ok MESSAGE (pid x) (JObj [(''msg_id'', JStr (f_uuid fr))]), s) })"

definition handle_telemetry :: "'c env \<Rightarrow> packet \<Rightarrow> ws_session \<Rightarrow> 'c app \<Rightarrow> 'c app" where
  "handle_telemetry e x ss s =
     (case (su_user ss, su_room ss) of
        (Some uid, Some rid) \<Rightarrow>
          emit (AdminSend (json_string e (JObj [(''type'', JStr ''client_telemetry''), (''user_id'', JStr uid),
            (''room_id'', JStr rid), (''data'', d x)]))) s
      | _ \<Rightarrow> s)"

section \<open>Dispatch\<close>

definition heartbeat_touch :: "fresh \<Rightarrow> ws_session \<Rightarrow> 'c app \<Rightarrow> 'c app" where
  "heartbeat_touch fr ss s =
     (case (su_room ss, su_user ss) of
        (Some rid, Some uid) \<Rightarrow>
          (case hub_get (hub s) rid of
             Inl _ \<Rightarrow> s
           | Inr r \<Rightarrow> (case get_participant r uid of Some p \<Rightarrow> on_pt p (touch (f_now fr)) s | None \<Rightarrow> s))
      | _ \<Rightarrow> s)"

definition keep_session :: "ws_session \<Rightarrow> (packet \<times> 'c app) option \<Rightarrow> (packet option \<times> ws_session \<times> 'c app) option" where
  "keep_session ss = map_option (\<lambda>(resp, s). (Some resp, ss, s))"

definition dispatch ::
  "'c env \<Rightarrow> server \<Rightarrow> decoders \<Rightarrow> fresh \<Rightarrow> packet \<Rightarrow> ws_session \<Rightarrow> 'c app \<Rightarrow> (packet option \<times> ws_session \<times> 'c app) option" where
  "dispatch e sv dec fr x ss s =
     (if is_response x then Some (None, ss\<lparr>su_ack_miss := 0\<rparr>, s)
      else if op x \<noteq> HEARTBEAT \<and> op x \<noteq> IDENTIFY \<and> \<not> is_authenticated ss
        then Some (Some (packet_err (op x) (pid x) 1001 ''not authenticated''), ss, s)
      else if op x = HEARTBEAT then Some (Some (packet_ok HEARTBEAT (pid x) (JObj [])), ss, heartbeat_touch fr ss s)
      else if op x = IDENTIFY then (case handle_identify dec fr x ss of (resp, ss) \<Rightarrow> Some (Some resp, ss, s))
      else if op x = ROOM_LIST then Some (Some (handle_room_list x s), ss, s)
      else if op x = ROOM_CREATE then (case handle_room_create dec fr x s of (resp, s) \<Rightarrow> Some (Some resp, ss, s))
      else if op x = ROOM_JOIN then map_option (apfst Some) (handle_room_join e sv dec fr x ss s)
      else if op x = ROOM_LEAVE then map_option (apfst Some) (handle_room_leave e dec x ss s)
      else if op x = PUBLISH_TRACKS then keep_session ss (handle_publish_tracks e dec x ss s)
      else if op x = MUTE_UPDATE then keep_session ss (handle_mute_update e dec x ss s)
      else if op x = MESSAGE then keep_session ss (handle_message e dec fr x ss s)
      else if op x = TELEMETRY then Some (None, ss, handle_telemetry e x ss s)
      else if op x = FLOOR_REQUEST then keep_session ss (handle_floor_request e dec fr x ss s)
      else if op x = FLOOR_RELEASE then keep_session ss (handle_floor_release e dec x ss s)
      else if op x = FLOOR_PING then keep_session ss (handle_floor_ping dec fr x ss s)
      else Some (Some (packet_err (op x) (pid x) 3001 ''invalid opcode''), ss, s))"

section \<open>The connection\<close>

record connection =
  cn_session :: ws_session
  cn_last_activity :: nat

text \<open>
  What the loop of a connection receives, besides the events that it forwards. The clock
  of the connection (\<open>Instant\<close>) counts nanoseconds.
\<close>

datatype ws_event = WsText string | WsOther | WsClosed | WsTick

definition send_packet :: "'c env \<Rightarrow> bool \<Rightarrow> nat \<Rightarrow> packet \<Rightarrow> 'c app \<Rightarrow> bool \<times> 'c app" where
  "send_packet e socket_ok tx x s =
     (case packet_string e x of None \<Rightarrow> (False, s) | Some j \<Rightarrow> (socket_ok, emit (WsReply tx j) s))"

definition hello :: "u64 \<Rightarrow> packet" where
  "hello n = packet_new HELLO n (JObj [(''heartbeat_interval'', JNum (int HEARTBEAT_INTERVAL_MS))])"

definition connection_open :: "'c env \<Rightarrow> bool \<Rightarrow> nat \<Rightarrow> nat \<Rightarrow> 'c app \<Rightarrow> connection option \<times> 'c app" where
  "connection_open e socket_ok tx instant s =
     (let (n, ss) = next_pid (session_new tx)
      in case send_packet e socket_ok tx (hello n) s of
           (False, s) \<Rightarrow> (None, s)
         | (True, s) \<Rightarrow> (Some \<lparr>cn_session = ss, cn_last_activity = instant\<rparr>, s))"

text \<open>
  One turn of the loop: the connection that goes on, or none after the loop was left and
  the cleanup ran.
\<close>

definition connection_turn ::
  "'c env \<Rightarrow> server \<Rightarrow> decoders \<Rightarrow> fresh \<Rightarrow> bool \<Rightarrow> nat \<Rightarrow> ws_event \<Rightarrow> connection \<Rightarrow> 'c app \<Rightarrow>
   (connection option \<times> 'c app) option" where
  "connection_turn e sv dec fr socket_ok instant ev cn s =
     (case ev of
        WsText text \<Rightarrow>
          (case dec_packet dec text of
             None \<Rightarrow> Some (Some (cn\<lparr>cn_last_activity := instant\<rparr>), s)
           | Some x \<Rightarrow> do {
               (resp, ss, s) \<leftarrow> dispatch e sv dec fr x (cn_session cn) s;
               let cn = \<lparr>cn_session = ss, cn_last_activity = instant\<rparr>;
               Some (case resp of
                   None \<Rightarrow> (Some cn, s)
                 | Some resp \<Rightarrow>
                     (case send_packet e socket_ok (su_tx ss) resp s of
                        (True, s) \<Rightarrow> (Some cn, s)
                      | (False, s) \<Rightarrow> (None, cleanup e ss s))) })
      | WsOther \<Rightarrow> Some (Some (cn\<lparr>cn_last_activity := instant\<rparr>), s)
      | WsClosed \<Rightarrow> Some (None, cleanup e (cn_session cn) s)
      | WsTick \<Rightarrow>
          (if instant - cn_last_activity cn > HEARTBEAT_TIMEOUT_MS * 1000000
           then Some (None, cleanup e (cn_session cn) s)
           else Some (Some cn, s)))"

section \<open>Every handler keeps the state\<close>

lemma handle_room_create_good: "good_step s (snd (handle_room_create dec fr x s))"
proof (cases "dec_create dec (d x)")
  case (Some req)
  let ?mode = "to_config (case cr_mode req of Some m \<Rightarrow> m | None \<Rightarrow> ConferenceField)"
  obtain r hb where c: "hub_create (f_uuid fr) (fst (f_vssrc fr)) (snd (f_vssrc fr)) (cr_name req) (cr_capacity req) ?mode (f_now fr) (hub s) = (r, hb)"
    by fastforce
  have hb: "hb = put_room (f_uuid fr) r (hub s)" "floor_synced r"
    using c by (auto simp: hub_create_def Let_def room_new_def floor_synced_def new_audio_def new_video_def rewriter_new_def floor_new_def)
  have "good_step s (s\<lparr>hub := hb\<rparr>)"
  proof (rule good_hub)
    show "hub_ok hb" if "app_ok s" using hub_create_ok [OF app_okD(1) [OF that]] c by (metis snd_conv)
    show "heap hb = heap (hub s)" by (simp add: hb)
    show "app_ok s \<Longrightarrow> \<forall>rid r. map_of (rooms hb) rid = Some r \<longrightarrow> floor_synced r"
      using hb app_okD(3) [of s] by (auto simp: room_of_def)
  qed
  then show ?thesis by (simp add: handle_room_create_def Some on_hub_def c)
qed (simp add: handle_room_create_def)

text \<open>The floor and the rewriters stay as they are when members come and go.\<close>

lemma add_participant_floors:
  "map_of (rooms (snd (add_participant rid p hb))) k = Some r' \<Longrightarrow>
     \<exists>r. map_of (rooms hb) k = Some r \<and> (floor_synced r \<longrightarrow> floor_synced r')"
proof (cases "map_of (rooms hb) rid")
  case (Some r)
  moreover have "floor_synced (snd (room_add_participant (heap hb) p r)) = floor_synced r"
    by (simp add: room_add_participant_def floor_synced_def)
  moreover assume "map_of (rooms (snd (add_participant rid p hb))) k = Some r'"
  ultimately show ?thesis
    by (cases "room_add_participant (heap hb) p r")
       (auto simp: add_participant_def hub_get_def split: sum.splits if_splits)
qed (auto simp: add_participant_def hub_get_def)

lemma remove_participant_floors:
  "map_of (rooms (snd (remove_participant rid uid hb))) k = Some r' \<Longrightarrow>
     \<exists>r. map_of (rooms hb) k = Some r \<and> (floor_synced r \<longrightarrow> floor_synced r')"
proof (cases "map_of (rooms hb) rid")
  case (Some r)
  moreover have "floor_synced (snd (room_remove_participant (heap hb) uid r)) = floor_synced r"
    by (simp add: room_remove_participant_def floor_synced_def split: option.splits)
  moreover assume "map_of (rooms (snd (remove_participant rid uid hb))) k = Some r'"
  ultimately show ?thesis
    by (cases "room_remove_participant (heap hb) uid r")
       (auto simp: remove_participant_def hub_get_def split: sum.splits if_splits)
qed (auto simp: remove_participant_def hub_get_def)

lemma add_participant_good:
  assumes "on_hub (add_participant rid p) s = (res, s')" and "p < length (heap (hub s))" and "p_room_id (pt s p) = rid"
  shows "good_step s s'"
proof -
  obtain hb where a: "add_participant rid p (hub s) = (res, hb)" "s' = s\<lparr>hub := hb\<rparr>"
    using assms(1) by (auto simp: on_hub_def split: prod.splits)
  have "heap hb = heap (hub s)"
    using a(1) by (auto simp: add_participant_def split: sum.splits prod.splits)
  moreover have "hub_ok hb" if "app_ok s"
    using add_participant_ok [OF app_okD(1) [OF that] assms(2)] assms(3) a(1) by (simp add: pt_def)
  moreover have "app_ok s \<Longrightarrow> \<forall>k r. map_of (rooms hb) k = Some r \<longrightarrow> floor_synced r"
    using add_participant_floors [of rid p "hub s"] app_okD(3) [of s] a(1) by (fastforce simp: room_of_def)
  ultimately show ?thesis unfolding a(2) by (intro good_hub)
qed

lemma remove_participant_good:
  assumes "on_hub (remove_participant rid uid) s = (res, s')"
  shows "good_step s s'" "heap (hub s') = heap (hub s)" "out s' = out s"
proof -
  obtain hb where a: "remove_participant rid uid (hub s) = (res, hb)" "s' = s\<lparr>hub := hb\<rparr>"
    using assms(1) by (auto simp: on_hub_def split: prod.splits)
  have h: "heap hb = heap (hub s)"
    using a(1) by (auto simp: remove_participant_def split: sum.splits prod.splits)
  then show "heap (hub s') = heap (hub s)" "out s' = out s" by (simp_all add: a(2))
  have "hub_ok hb" if "app_ok s"
    using remove_participant_ok [OF app_okD(1) [OF that], of rid uid] a(1) by simp
  moreover have "app_ok s \<Longrightarrow> \<forall>k r. map_of (rooms hb) k = Some r \<longrightarrow> floor_synced r"
    using remove_participant_floors [of rid uid "hub s"] app_okD(3) [of s] a(1) by (fastforce simp: room_of_def)
  ultimately show "good_step s s'" unfolding a(2) using h by (intro good_hub)
qed

lemma publish_items_good: "publish_items uid p n ts s = (js, s') \<Longrightarrow> good_step s s'"
proof (induction uid p n ts s arbitrary: js s' rule: publish_items.induct)
  case (2 uid p n t ts s)
  show ?case
  proof (cases "parse_kind (pti_kind t)")
    case (Some k)
    let ?s = "on_pt p (add_track (pti_ssrc t) k (uid @ ''_'' @ show_nat n)) s"
    have "same_id q (add_track y k z q) \<and> egress_rx_taken (add_track y k z q) = egress_rx_taken q \<and>
        p_rtp_cache (add_track y k z q) = p_rtp_cache q \<and> p_twcc_recorder (add_track y k z q) = p_twcc_recorder q \<and>
        egress_queue (add_track y k z q) = egress_queue q" for q :: "'a participant" and y z
      by (cases k) (auto simp: add_track_def alloc_rtx_ssrc_def Let_def same_id_def session_def split: pc_type.splits)
    then have "good_step s ?s"
      by (intro good_on_pt) (auto simp: wf_pt_def intro: wf_add_track)
    moreover obtain js2 where "publish_items uid p (n + 1) ts ?s = (js2, s')"
      using 2(3) Some by (auto simp: Let_def apfst_def map_prod_def split: prod.splits)
    then have "good_step ?s s'" using 2(2) [OF Some refl refl refl refl] by blast
    ultimately show ?thesis by (rule good_trans)
  qed (use 2 in auto)
qed simp

subsection \<open>The floor handlers\<close>

lemma put_room_twice [simp]: "put_room rid r2 (put_room rid r1 hb) = put_room rid r2 hb"
  by (simp add: put_room_def)

lemma set_floor_room:
  assumes "room_of s rid = Some r"
  shows "set_floor rid f s = set_room rid (r\<lparr>r_floor := f\<rparr>) s"
  by (simp add: set_floor_def assms)

lemma on_rewriters_room:
  assumes "room_of s rid = Some r"
  shows "on_rewriters rid g s =
    set_room rid (r\<lparr>audio_rewriter := g (audio_rewriter r), video_rewriter := g (video_rewriter r)\<rparr>) s"
  by (simp add: on_rewriters_def assms)

lemma hub_get_room: "hub_get (hub s) rid = (case room_of s rid of Some r \<Rightarrow> Inr r | None \<Rightarrow> Inl RoomNotFound)"
  by (simp add: hub_get_def room_of_def)

text \<open>The answer to an action and the events it sends.\<close>

fun floor_events :: "'c env \<Rightarrow> 'c app \<Rightarrow> floor_action \<Rightarrow> room \<Rightarrow> string \<Rightarrow> effect list" where
  "floor_events e s (Granted speaker) r uid = event_for e s (floor_taken (r_id r) speaker) (others uid r)"
| "floor_events e s (Released prev) r uid = event_for e s (floor_idle (r_id r) prev None) (participants r)"
| "floor_events e s (Revoked prev cause) r uid =
     (case get_participant r prev of None \<Rightarrow> []
      | Some p \<Rightarrow> [WsSend (ws_tx (pt s p)) (case packet_string e (floor_revoke (r_id r) cause) of Some j \<Rightarrow> j | None \<Rightarrow> [])]) @
     event_for e s (floor_idle (r_id r) prev (Some cause)) (participants r)"
| "floor_events e s _ r uid = []"

lemma apply_floor_says: "snd (apply_floor_action e code n action r uid s) = says (floor_events e s action r uid) s"
  by (cases action)
     (simp_all add: apply_floor_action_def broadcast_others_says broadcast_room_says send_revoke_def ws_send_def emit_says
        split: option.splits)

lemma floor_events_plain: "x \<in> set (floor_events e s action r uid) \<Longrightarrow> plain x \<and> effect_ok n x"
  by (cases action) (auto dest: event_for_plain split: option.splits)

text \<open>
  The net effect of a floor handler: one room has a new floor and its rewriters follow;
  counters and events commute with it.
\<close>

lemma set_room_commute [simp]:
  "set_room rid r (says es s) = says es (set_room rid r s)" "set_room rid r (bump c n s) = bump c n (set_room rid r s)"
  "set_room rid r2 (set_room rid r1 s) = set_room rid r2 s"
  by (simp_all add: set_room_def says_def bump_def)

lemma on_rewriters_commute [simp]:
  "on_rewriters rid g (says es s) = says es (on_rewriters rid g s)"
  "on_rewriters rid g (bump c n s) = bump c n (on_rewriters rid g s)"
  by (auto simp: on_rewriters_def split: option.splits)

lemma set_floor_rewriters:
  assumes "room_of s rid = Some r"
  shows "on_rewriters rid g (set_floor rid f s) =
    set_room rid (r\<lparr>r_floor := f, audio_rewriter := g (audio_rewriter r), video_rewriter := g (video_rewriter r)\<rparr>) s"
  by (simp add: set_floor_room [OF assms] on_rewriters_def)

lemma floor_good:
  assumes "room_of s rid = Some r"
    and "rw_speaker (rw_state a) = current_speaker f" "rw_speaker (rw_state v) = current_speaker f"
    and "r_mode r = Conference \<longrightarrow> f = Idle"
  shows "good_step s (set_room rid (r\<lparr>r_floor := f, audio_rewriter := a, video_rewriter := v\<rparr>) s)"
  by (rule good_set_room) (use assms app_okD(4) [OF _ assms(1)] in \<open>auto simp: floor_synced_def\<close>)

lemma set_floor_good:
  assumes "room_of s rid = Some r" and "current_speaker f = current_speaker (r_floor r)" and "f = Idle \<longleftrightarrow> r_floor r = Idle"
  shows "good_step s (set_floor rid f s)"
  unfolding set_floor_room [OF assms(1)]
  by (rule good_set_room) (use assms app_okD(3,4) [OF _ assms(1)] in \<open>auto simp: floor_synced_def\<close>)

lemma floor_events_good: "good_step s (says (floor_events e s' action r uid) s)"
  by (rule good_says) (auto dest: floor_events_plain)

lemma spawn_floor_pli_good:
  assumes "room_of s rid = Some r'" and "participants r' = participants r"
  shows "good_step s (spawn_floor_pli r speaker s)"
proof (cases "state_ok s")
  case True
  have "p < length (heap (hub s))" if "get_participant r speaker = Some p" for p
    using room_okD(5) [OF app_okD(4) [OF state_okD(1) [OF True] assms(1)]] that assms(2) by (simp add: get_participant_def)
  then show ?thesis by (auto simp: spawn_floor_pli_def split: option.splits intro!: good_emit)
next
  case False
  then show ?thesis by (auto simp: spawn_floor_pli_def good_step_def split: option.splits)
qed

lemma handle_floor_request_good:
  assumes "su_user ss = Some uid"
  shows "\<exists>resp s'. handle_floor_request e dec fr x ss s = Some (resp, s') \<and> good_step s s'"
proof (cases "dec_floor_request dec (d x)")
  case (Some req)
  show ?thesis
  proof (cases "room_of s (rq_room_id req)")
    case None
    then show ?thesis by (simp add: handle_floor_request_def Some assms hub_get_room)
  next
    case (Some r)
    note r = this and req = \<open>dec_floor_request dec (d x) = Some req\<close>
    obtain action f where a: "floor_request (r_floor r) uid (f_now fr) = (action, f)" by fastforce
    note C = fc.request_cases [OF a]
    let ?rid = "rq_room_id req"
    let ?r' = "r\<lparr>r_floor := f, audio_rewriter := switch_speaker (audio_rewriter r) uid,
        video_rewriter := switch_speaker (video_rewriter r) uid\<rparr>"
    let ?s1 = "set_floor ?rid f s"
    show ?thesis
    proof (cases "r_mode r = Ptt")
      case False
      then show ?thesis by (simp add: handle_floor_request_def req assms hub_get_room r)
    next
      case True
      have H: "handle_floor_request e dec fr x ss s = Some
          (case apply_floor_action e FLOOR_REQUEST (pid x) action r uid ?s1 of (response, s) \<Rightarrow>
            (response, case action of
                Granted speaker \<Rightarrow> spawn_floor_pli r speaker
                  (on_rewriters ?rid (\<lambda>w. switch_speaker w speaker) (bump Ptt_speaker_switches 1 (bump Ptt_floor_granted 1 s)))
              | _ \<Rightarrow> s))"
        by (cases action; simp add: handle_floor_request_def req assms hub_get_room r True a Let_def split: prod.splits)
      show ?thesis
      proof (cases "action = Granted uid")
        case granted: True
        let ?s3 = "bump Ptt_speaker_switches 1 (bump Ptt_floor_granted 1 (says (floor_events e ?s1 action r uid) (set_room ?rid ?r' s)))"
        have s': "\<exists>resp. handle_floor_request e dec fr x ss s = Some (resp, spawn_floor_pli r uid ?s3)"
          unfolding H using apply_floor_says [of e FLOOR_REQUEST "pid x" action r uid ?s1]
          by (cases "apply_floor_action e FLOOR_REQUEST (pid x) action r uid ?s1")
             (simp add: granted set_floor_rewriters [OF r])
        have "good_step s (set_room ?rid ?r' s)"
          by (rule floor_good [OF r]) (use C granted True in auto)
        then have "good_step s (says (floor_events e ?s1 action r uid) (set_room ?rid ?r' s))"
          using floor_events_good good_trans by blast
        then have "good_step s ?s3" using good_bump good_trans by blast
        moreover have "good_step ?s3 (spawn_floor_pli r uid ?s3)"
          by (rule spawn_floor_pli_good [where rid = ?rid and r' = ?r']) simp_all
        ultimately show ?thesis using s' good_trans by blast
      next
        case False
        then obtain v where v: "action = Denied ''channel busy'' v" "f = r_floor r" using C by auto
        have "\<exists>resp. handle_floor_request e dec fr x ss s = Some (resp, says (floor_events e ?s1 action r uid) ?s1)"
          unfolding H using apply_floor_says [of e FLOOR_REQUEST "pid x" action r uid ?s1]
          by (cases "apply_floor_action e FLOOR_REQUEST (pid x) action r uid ?s1") (simp add: v)
        moreover have "good_step s ?s1" by (rule set_floor_good [OF r]) (simp_all add: v)
        ultimately show ?thesis using floor_events_good good_trans by blast
      qed
    qed
  qed
qed (simp add: handle_floor_request_def)

lemma handle_floor_release_good:
  assumes "su_user ss = Some uid"
  shows "\<exists>resp s'. handle_floor_release e dec x ss s = Some (resp, s') \<and> good_step s s'"
proof (cases "dec_floor_release dec (d x)")
  case (Some req)
  let ?rid = "rq_room_id req"
  note req = Some
  show ?thesis
  proof (cases "\<exists>r. room_of s ?rid = Some r \<and> r_mode r = Ptt")
    case False
    then show ?thesis by (auto simp: handle_floor_release_def req assms hub_get_room split: option.splits)
  next
    case True
    then obtain r where r: "room_of s ?rid = Some r" "r_mode r = Ptt" by blast
    obtain action f where a: "floor_release (r_floor r) uid = (action, f)" by fastforce
    note C = fc.release_cases [OF a]
    let ?s1 = "set_floor ?rid f s"
    let ?s2 = "case action of Released _ \<Rightarrow> on_rewriters ?rid clear_speaker (bump Ptt_floor_released 1 ?s1) | _ \<Rightarrow> ?s1"
    have "good_step s ?s2"
    proof (cases "action = PingDenied")
      case True
      then have "f = r_floor r" using C by auto
      then have "good_step s ?s1" by (intro set_floor_good [OF r(1)]) simp_all
      then show ?thesis by (simp add: True)
    next
      case False
      then have f: "action = Released uid" "current_speaker f = None" using C by auto
      then have "f = Idle" by (cases f) auto
      have "good_step s (set_room ?rid (r\<lparr>r_floor := f, audio_rewriter := clear_speaker (audio_rewriter r),
          video_rewriter := clear_speaker (video_rewriter r)\<rparr>) s)"
        by (rule floor_good [OF r(1)]) (use f \<open>f = Idle\<close> in simp_all)
      then show ?thesis using good_bump good_trans by (fastforce simp: f set_floor_rewriters [OF r(1)])
    qed
    moreover have "\<exists>resp. handle_floor_release e dec x ss s = Some (resp, says (floor_events e ?s2 action r uid) ?s2)"
      using apply_floor_says [of e FLOOR_RELEASE "pid x" action r uid ?s2]
      by (cases "apply_floor_action e FLOOR_RELEASE (pid x) action r uid ?s2")
         (simp add: handle_floor_release_def req assms hub_get_room r a Let_def)
    ultimately show ?thesis using floor_events_good good_trans by blast
  qed
qed (simp add: handle_floor_release_def)

lemma handle_floor_ping_good:
  assumes "su_user ss = Some uid"
  shows "\<exists>resp s'. handle_floor_ping dec fr x ss s = Some (resp, s') \<and> good_step s s'"
proof (cases "dec_floor_ping dec (d x)")
  case (Some req)
  show ?thesis
  proof (cases "room_of s (rq_room_id req)")
    case None
    then show ?thesis by (simp add: handle_floor_ping_def Some assms hub_get_room)
  next
    case r: (Some r)
    obtain action f where a: "floor_ping (r_floor r) uid (f_now fr) = (action, f)" by fastforce
    have "f = Idle \<longleftrightarrow> r_floor r = Idle" using a by (cases "r_floor r") (auto split: if_splits)
    then have "good_step s (set_floor (rq_room_id req) f s)"
      using fc.ping_cases [OF a] by (intro set_floor_good [OF r]) simp_all
    then show ?thesis
      by (cases action) (simp_all add: handle_floor_ping_def Some assms hub_get_room r a Let_def)
  qed
qed (simp add: handle_floor_ping_def)

lemma leave_floor_good: "good_step s (leave_floor e rid uid s)"
proof (cases "\<exists>r. room_of s rid = Some r \<and> r_mode r = Ptt")
  case False
  then show ?thesis by (auto simp: leave_floor_def hub_get_room split: option.splits)
next
  case True
  then obtain r where r: "room_of s rid = Some r" "r_mode r = Ptt" by blast
  obtain res f where a: "on_participant_leave (r_floor r) uid = (res, f)" by fastforce
  note C = fc.leave_cases [OF a]
  show ?thesis
  proof (cases res)
    case None
    then have "f = r_floor r" using C by auto
    then have "good_step s (set_floor rid f s)" by (intro set_floor_good [OF r(1)]) simp_all
    then show ?thesis by (simp add: leave_floor_def hub_get_room r a None)
  next
    case (Some action)
    then have f: "action = Released uid" "current_speaker f = None" using C by auto
    then have "f = Idle" by (cases f) auto
    have "good_step s (set_room rid (r\<lparr>r_floor := f, audio_rewriter := clear_speaker (audio_rewriter r),
        video_rewriter := clear_speaker (video_rewriter r)\<rparr>) s)"
      by (rule floor_good [OF r(1)]) (use f \<open>f = Idle\<close> in simp_all)
    moreover have "leave_floor e rid uid s = says (floor_events e (set_floor rid f s) action r uid)
        (set_room rid (r\<lparr>r_floor := f, audio_rewriter := clear_speaker (audio_rewriter r),
          video_rewriter := clear_speaker (video_rewriter r)\<rparr>) s)"
      by (simp add: leave_floor_def hub_get_room r a Some apply_floor_says set_floor_rewriters [OF r(1)])
    ultimately show ?thesis using good_trans [OF _ floor_events_good] by simp
  qed
qed

subsection \<open>The other handlers\<close>

lemma own_seat_Inr:
  "own_seat ss uid s = Inr (rid, r, p) \<longleftrightarrow>
     su_room ss = Some rid \<and> room_of s rid = Some r \<and> map_of (participants r) uid = Some p"
  by (auto simp: own_seat_def hub_get_room get_participant_def split: option.splits)

lemma good_if: "good_step s s' \<Longrightarrow> good_step s (if c then s' else s)"
  by simp

lemma handle_publish_good:
  assumes "su_user ss = Some uid"
  shows "\<exists>resp s'. handle_publish_tracks e dec x ss s = Some (resp, s') \<and> good_step s s'"
proof (cases "dec_publish dec (d x)")
  case (Some req)
  show ?thesis
  proof (cases "own_seat ss uid s")
    case (Inl c)
    then show ?thesis by (cases c) (simp add: handle_publish_tracks_def Some assms)
  next
    case (Inr t)
    obtain rid r p where t: "t = (rid, r, p)" by (cases t)
    obtain js s1 where p: "publish_items uid p (length (get_tracks (pt s p))) req s = (js, s1)" by fastforce
    note g = publish_items_good [OF p]
    have "good_step s (broadcast_to_others e r uid (tracks_update ''add'' js) s1)"
      using g broadcast_good(1) good_trans by blast
    then show ?thesis using g by (simp add: handle_publish_tracks_def Some assms Inr t p Let_def)
  qed
qed (simp add: handle_publish_tracks_def)

lemma mute_good: "good_step s (on_pt p (\<lambda>q. snd (set_track_muted ssrc m q)) s)"
proof -
  have f: "t_ssrc ` set (snd (mute_first ssrc m ts)) = t_ssrc ` set ts \<and>
      map t_ssrc (snd (mute_first ssrc m ts)) = map t_ssrc ts \<and>
      ((\<forall>t \<in> set ts. t_rtx_ssrc t \<noteq> None \<longleftrightarrow> t_kind t = Video) \<longrightarrow>
       (\<forall>t \<in> set (snd (mute_first ssrc m ts)). t_rtx_ssrc t \<noteq> None \<longleftrightarrow> t_kind t = Video))" for ts
    by (induction ts) auto
  show ?thesis
    by (rule good_on_pt)
       (use f in \<open>auto simp: set_track_muted_def same_id_def session_def wf_pt_def wf_tracks_def split: pc_type.splits\<close>)
qed

lemma request_keyframe_good: "good_step s (request_keyframe e p ssrc s)"
  by (auto simp: request_keyframe_def intro!: good_media send_to_publisher_step split: option.splits)

lemma handle_mute_good:
  assumes "su_user ss = Some uid"
  shows "\<exists>resp s'. handle_mute_update e dec x ss s = Some (resp, s') \<and> good_step s s'"
proof (cases "dec_mute dec (d x)")
  case (Some req)
  show ?thesis
  proof (cases "own_seat ss uid s")
    case (Inl c)
    then show ?thesis by (cases c) (simp add: handle_mute_update_def Some assms)
  next
    case (Inr t)
    obtain rid r p where t: "t = (rid, r, p)" by (cases t)
    obtain k q where k: "set_track_muted (mu_ssrc req) (mu_muted req) (pt s p) = (k, q)" by fastforce
    define s1 where "s1 = on_pt p (\<lambda>q. snd (set_track_muted (mu_ssrc req) (mu_muted req) q)) s"
    have g: "good_step s (broadcast_to_others e r uid y s1)" for y
      using mute_good broadcast_good(1) good_trans unfolding s1_def by blast
    then have "good_step s (request_keyframe e p z (broadcast_to_others e r uid y s1))" for y z
      using request_keyframe_good good_trans by blast
    then show ?thesis using g
      by (cases k) (auto simp: handle_mute_update_def Some assms Inr t k Let_def s1_def [symmetric])
  qed
qed (simp add: handle_mute_update_def)

lemma handle_message_good:
  assumes "su_user ss = Some uid"
  shows "\<exists>resp s'. handle_message e dec fr x ss s = Some (resp, s') \<and> good_step s s'"
  using assms by (auto simp: handle_message_def broadcast_good Let_def split: option.splits sum.splits)

lemma handle_telemetry_good: "good_step s (handle_telemetry e x ss s)"
  by (auto simp: handle_telemetry_def intro!: good_emit split: option.splits)

lemma heartbeat_touch_good: "good_step s (heartbeat_touch fr ss s)"
  by (auto simp: heartbeat_touch_def intro!: good_media touch_step split: option.splits sum.splits)

lemma notify_left_good: "good_step s (notify_left_room e r rid uid ts s)" "good_step s (notify_left_others e r rid uid ts s)"
proof -
  have "good_step s (if ts \<noteq> [] then broadcast_to_room e r y s else s)"
    "good_step s (if ts \<noteq> [] then broadcast_to_others e r uid y s else s)" for y
    using broadcast_good by auto
  then show "good_step s (notify_left_room e r rid uid ts s)" "good_step s (notify_left_others e r rid uid ts s)"
    unfolding notify_left_room_def notify_left_others_def Let_def using broadcast_good(1,2) good_trans by blast+
qed

lemma handle_room_leave_good:
  assumes "su_user ss = Some uid"
  shows "\<exists>resp ss' s'. handle_room_leave e dec x ss s = Some (resp, ss', s') \<and> good_step s s' \<and> su_tx ss' = su_tx ss"
proof (cases "dec_leave dec (d x)")
  case (Some req)
  let ?rid = "rq_room_id req"
  let ?s1 = "leave_floor e ?rid uid s"
  obtain res s2 where r: "on_hub (remove_participant ?rid uid) ?s1 = (res, s2)" by fastforce
  have g2: "good_step s s2" using good_trans [OF leave_floor_good remove_participant_good(1) [OF r]] .
  show ?thesis
  proof (cases res)
    case (Inl err)
    then show ?thesis using g2 by (simp add: handle_room_leave_def Some assms Let_def r)
  next
    case (Inr p)
    define s3 where "s3 = (case hub_get (hub s2) ?rid of Inl _ \<Rightarrow> s2
      | Inr r \<Rightarrow> notify_left_room e r ?rid uid (get_tracks (pt s2 p)) s2)"
    have "good_step s s3" unfolding s3_def using g2 good_trans [OF g2 notify_left_good(1)] by (auto split: sum.splits)
    then have "good_step s (push_admin_snapshot e s3)" using broadcast_good(3) good_trans by blast
    then show ?thesis by (simp add: handle_room_leave_def Some assms Let_def r Inr s3_def)
  qed
qed (simp add: handle_room_leave_def)

lemma cleanup_good: "good_step s (cleanup e ss s)"
proof (cases "su_room ss = None \<or> su_user ss = None")
  case False
  then obtain rid uid where u: "su_room ss = Some rid" "su_user ss = Some uid" by auto
  let ?s1 = "leave_floor e rid uid s"
  define s2 where "s2 = (case hub_get (hub ?s1) rid of Inl _ \<Rightarrow> ?s1
    | Inr r \<Rightarrow> notify_left_others e r rid uid
        (case get_participant r uid of Some p \<Rightarrow> get_tracks (pt ?s1 p) | None \<Rightarrow> []) ?s1)"
  have g2: "good_step s s2"
    unfolding s2_def using leave_floor_good good_trans [OF leave_floor_good notify_left_good(2)] by (auto split: sum.splits)
  obtain res s3 where r: "on_hub (remove_participant rid uid) s2 = (res, s3)" by fastforce
  have "good_step s s3" using good_trans [OF g2 remove_participant_good(1) [OF r]] .
  then have "good_step s (push_admin_snapshot e s3)" using broadcast_good(3) good_trans by blast
  then show ?thesis by (simp add: cleanup_def u Let_def r s2_def [symmetric])
qed (auto simp: cleanup_def split: option.splits)

lemma handle_room_join_good:
  assumes "su_user ss = Some uid"
  shows "\<exists>resp ss' s'. handle_room_join e sv dec fr x ss s = Some (resp, ss', s') \<and> good_step s s' \<and> su_tx ss' = su_tx ss"
proof (cases "dec_join dec (d x)")
  case req: (Some req)
  let ?rid = "rq_room_id req"
  show ?thesis
  proof (cases "room_of s ?rid")
    case None
    then show ?thesis by (simp add: handle_room_join_def req assms hub_get_room)
  next
    case r0: (Some r0)
    let ?pi = "ice_credentials_new (fst (f_pub_ice fr)) (snd (f_pub_ice fr))"
    let ?si = "ice_credentials_new (fst (f_sub_ice fr)) (snd (f_sub_ice fr))"
    let ?new = "participant_new uid ?rid (ufrag ?pi) (pwd ?pi) (ufrag ?si) (pwd ?si) (su_tx ss) (f_now fr)"
    obtain p s1 where a: "on_hub (alloc_participant ?new) s = (p, s1)" by fastforce
    have new: "wf_pt ?new" "\<not> egress_rx_taken ?new" "p_room_id ?new = ?rid"
      by (rule wf_pt_new) (simp_all add: participant_new_def)
    note A = good_alloc [OF a new(1,2)]
    obtain res s2 where ad: "on_hub (add_participant ?rid p) s1 = (res, s2)" by fastforce
    have g2: "good_step s s2"
      by (rule good_trans [OF A(1) add_participant_good [OF ad]]) (simp add: A(2,4), simp only: A(3) new(3))
    show ?thesis
    proof (cases res)
      case (Inl err)
      then show ?thesis using g2 by (simp add: handle_room_join_def req assms hub_get_room r0 Let_def a ad)
    next
      case (Inr u)
      then obtain r where r: "room_of s2 ?rid = Some r"
        using ad by (auto simp: on_hub_def add_participant_def room_of_def split: prod.splits sum.splits)
      have "\<exists>resp ss'. handle_room_join e sv dec fr x ss s = Some (resp, ss', push_admin_snapshot e
          (broadcast_to_others e r uid (room_event ''participant_joined'' ?rid uid) s2)) \<and> su_tx ss' = su_tx ss"
        unfolding handle_room_join_def req option.case assms Option.bind.simps hub_get_room r0 sum.case Let_def a
          prod.case ad Inr r
        by ((rule exI)+, rule conjI, rule refl, simp)
      moreover have "good_step s (push_admin_snapshot e (broadcast_to_others e r uid y s2))" for y
        by (rule good_trans [OF good_trans [OF g2 broadcast_good(1)] broadcast_good(3)])
      ultimately show ?thesis by blast
    qed
  qed
qed (simp add: handle_room_join_def)

subsection \<open>The dispatcher and the connection\<close>

definition runs_well :: "ws_session \<Rightarrow> 'c app \<Rightarrow> ('r \<times> ws_session \<times> 'c app) option \<Rightarrow> bool" where
  "runs_well ss s y \<longleftrightarrow> (\<exists>resp ss' s'. y = Some (resp, ss', s') \<and> good_step s s' \<and> su_tx ss' = su_tx ss)"

lemma runs_well_intros:
  "good_step s s' \<Longrightarrow> runs_well ss s (Some (resp, ss, s'))"
  "\<exists>resp s'. y = Some (resp, s') \<and> good_step s s' \<Longrightarrow> runs_well ss s (keep_session ss y)"
  "\<exists>resp ss' s'. z = Some (resp, ss', s') \<and> good_step s s' \<and> su_tx ss' = su_tx ss \<Longrightarrow> runs_well ss s (map_option (apfst Some) z)"
  "(c \<Longrightarrow> runs_well ss s v) \<Longrightarrow> (\<not> c \<Longrightarrow> runs_well ss s w) \<Longrightarrow> runs_well ss s (if c then v else w)"
  by (auto simp: runs_well_def keep_session_def)

lemma dispatch_runs_well: "runs_well ss s (dispatch e sv dec fr x ss s)"
proof -
  have id: "runs_well ss s (case handle_identify dec fr x ss of (resp, ss) \<Rightarrow> Some (Some resp, ss, s))"
    by (auto simp: runs_well_def handle_identify_def Let_def split: option.splits)
  have c: "runs_well ss s (case handle_room_create dec fr x s of (resp, s) \<Rightarrow> Some (Some resp, ss, s))"
    using handle_room_create_good [of s dec fr x] by (cases "handle_room_create dec fr x s") (simp add: runs_well_def)
  have ack: "runs_well ss s (Some (None, ss\<lparr>su_ack_miss := 0\<rparr>, s))"
    by (simp add: runs_well_def)
  have u: "\<exists>uid. su_user ss = Some uid" if "\<not> (op x \<noteq> HEARTBEAT \<and> op x \<noteq> IDENTIFY \<and> \<not> is_authenticated ss)"
    "op x \<noteq> HEARTBEAT" "op x \<noteq> IDENTIFY"
    using that by (auto simp: is_authenticated_def)
  show ?thesis unfolding dispatch_def
    by (intro runs_well_intros(4) id c ack)
       (use u in \<open>blast intro: runs_well_intros(1-3) good_refl heartbeat_touch_good handle_telemetry_good
          handle_room_join_good handle_room_leave_good handle_publish_good handle_mute_good handle_message_good
          handle_floor_request_good handle_floor_release_good handle_floor_ping_good\<close>)+
qed

lemma dispatch_good:
  "\<exists>resp ss' s'. dispatch e sv dec fr x ss s = Some (resp, ss', s') \<and> good_step s s' \<and> su_tx ss' = su_tx ss"
  using dispatch_runs_well by (auto simp: runs_well_def)

lemma send_packet_good: "good_step s (snd (send_packet e b tx x s))"
  by (auto simp: send_packet_def intro!: good_emit split: option.splits)

lemma connection_open_good: "good_step s (snd (connection_open e b tx now s))"
proof -
  obtain n ss where n: "next_pid (session_new tx) = (n, ss)" by fastforce
  obtain r s' where c: "send_packet e b tx (hello n) s = (r, s')" by fastforce
  then have "good_step s s'" using send_packet_good [of s e b tx "hello n"] by simp
  then show ?thesis by (cases r) (simp_all add: connection_open_def n c)
qed

lemma connection_turn_good:
  "\<exists>cn' s'. connection_turn e sv dec fr b now ev cn s = Some (cn', s') \<and> good_step s s'"
proof (cases "\<exists>json x. ev = WsText json \<and> dec_packet dec json = Some x")
  case False
  then show ?thesis using cleanup_good
    by (cases ev) (auto simp: connection_turn_def split: option.splits)
next
  case True
  then obtain json x where x: "ev = WsText json" "dec_packet dec json = Some x" by blast
  obtain resp ss s1 where D: "dispatch e sv dec fr x (cn_session cn) s = Some (resp, ss, s1)" "good_step s s1"
    using dispatch_good by blast
  show ?thesis
  proof (cases resp)
    case None
    then show ?thesis using D by (simp add: connection_turn_def x Let_def)
  next
    case (Some r)
    obtain c s2 where P: "send_packet e b (su_tx ss) r s1 = (c, s2)" by fastforce
    have g: "good_step s s2" using good_trans [OF D(2)] send_packet_good [of s1 e b "su_tx ss" r] P by simp
    show ?thesis using g good_trans [OF g cleanup_good]
      by (cases c) (simp_all add: connection_turn_def x D Some P Let_def)
  qed
qed

end
