(* ===== verification/Readers.thy ===== *)
theory Readers
  imports Signaling
begin

text \<open>
  The client's side of the JSON messages: what a receiver reads out of the answer to a join,
  of the events about rooms and tracks, and of the snapshot for administrators. The
  properties of the handlers state through these readers what the messages say.
\<close>

section \<open>Fields\<close>

definition field :: "string \<Rightarrow> json \<Rightarrow> json option" where
  "field k j = (case j of JObj fs \<Rightarrow> map_of fs k | _ \<Rightarrow> None)"

definition as_string :: "json \<Rightarrow> string option" where
  "as_string j = (case j of JStr x \<Rightarrow> Some x | _ \<Rightarrow> None)"

definition as_bool :: "json \<Rightarrow> bool option" where
  "as_bool j = (case j of JBool b \<Rightarrow> Some b | _ \<Rightarrow> None)"

definition as_number :: "json \<Rightarrow> int option" where
  "as_number j = (case j of JNum n \<Rightarrow> Some n | _ \<Rightarrow> None)"

definition as_u32 :: "json \<Rightarrow> u32 option" where
  "as_u32 j = (case j of JNum n \<Rightarrow> if 0 \<le> n \<and> n < 2 ^ 32 then Some (word_of_int n) else None | _ \<Rightarrow> None)"

definition as_list :: "(json \<Rightarrow> 'a option) \<Rightarrow> json \<Rightarrow> 'a list option" where
  "as_list f j = (case j of JArr js \<Rightarrow> those (map f js) | _ \<Rightarrow> None)"

definition get_in :: "(json \<Rightarrow> 'a option) \<Rightarrow> string \<Rightarrow> json \<Rightarrow> 'a option" where
  "get_in f k j = Option.bind (field k j) f"

named_theorems reading

lemma reads_simps [reading]:
  "field k (JObj fs) = map_of fs k" "as_string (JStr x) = Some x" "as_bool (JBool b) = Some b" "as_number (JNum n) = Some n"
  "as_string JNull = None" "as_list f (JArr js) = those (map f js)" "as_u32 (jword w) = Some w"
  using uint_lt2p [of w]
  by (simp_all add: field_def as_string_def as_bool_def as_number_def as_list_def as_u32_def jword_def)

lemma those_all: "(\<And>x. x \<in> set xs \<Longrightarrow> f x = Some (g x)) \<Longrightarrow> those (map f xs) = Some (map g xs)"
  by (induction xs) simp_all

lemma those_append: "those xs = Some as \<Longrightarrow> those ys = Some bs \<Longrightarrow> those (xs @ ys) = Some (as @ bs)"
  by (induction xs arbitrary: as) (auto split: option.splits)

lemma those_concat:
  "(\<And>x. x \<in> set xs \<Longrightarrow> those (map f (g x)) = Some (h x)) \<Longrightarrow> those (map f (concat (map g xs))) = Some (concat (map h xs))"
  by (induction xs) (auto intro: those_append)

lemma those_Some_length: "those xs = Some ys \<Longrightarrow> length ys = length xs"
  by (induction xs arbitrary: ys) (auto split: option.splits)

section \<open>Tracks\<close>

record announced =
  an_user :: string
  an_kind :: string
  an_ssrc :: u32
  an_id :: string
  an_rtx :: "u32 option"

definition read_announced :: "json \<Rightarrow> announced option" where
  "read_announced j = do {
     user \<leftarrow> get_in as_string ''user_id'' j;
     kind \<leftarrow> get_in as_string ''kind'' j;
     ssrc \<leftarrow> get_in as_u32 ''ssrc'' j;
     name \<leftarrow> get_in as_string ''track_id'' j;
     Some \<lparr>an_user = user, an_kind = kind, an_ssrc = ssrc, an_id = name, an_rtx = get_in as_u32 ''rtx_ssrc'' j\<rparr> }"

definition kind_name :: "track_kind \<Rightarrow> string" where
  "kind_name k = (case k of Audio \<Rightarrow> ''audio'' | Video \<Rightarrow> ''video'')"

definition announced_of :: "string \<Rightarrow> track \<Rightarrow> announced" where
  "announced_of u t = \<lparr>an_user = u, an_kind = kind_name (t_kind t), an_ssrc = t_ssrc t, an_id = t_track_id t, an_rtx = t_rtx_ssrc t\<rparr>"

lemma read_track_json [reading]: "read_announced (track_json u t) = Some (announced_of u t)"
  by (cases "t_rtx_ssrc t")
     (simp_all add: read_announced_def announced_of_def track_json_def track_fields_def rtx_field_def get_in_def
       show_track_kind_def kind_name_def reading)

lemma read_tracks: "those (map read_announced (map (track_json u) ts)) = Some (map (announced_of u) ts)"
  using those_all [of ts "\<lambda>t. read_announced (track_json u t)" "announced_of u"] by (simp add: reading comp_def)

section \<open>Events\<close>

definition read_room_event :: "json \<Rightarrow> (string \<times> string \<times> string) option" where
  "read_room_event j = do {
     event \<leftarrow> get_in as_string ''type'' j;
     rid \<leftarrow> get_in as_string ''room_id'' j;
     user \<leftarrow> get_in as_string ''user_id'' j;
     Some (event, rid, user) }"

lemma read_room_event_of: "op (room_event event rid u) = 100" "read_room_event (d (room_event event rid u)) = Some (event, rid, u)"
  by (simp_all add: room_event_def packet_new_def read_room_event_def get_in_def opcode_defs reading)

definition read_tracks_update :: "json \<Rightarrow> (string \<times> announced list) option" where
  "read_tracks_update j = do {
     action \<leftarrow> get_in as_string ''action'' j;
     ts \<leftarrow> get_in (as_list read_announced) ''tracks'' j;
     Some (action, ts) }"

lemma read_tracks_update_of:
  "op (tracks_update action js) = 101"
  "those (map read_announced js) = Some ts \<Longrightarrow> read_tracks_update (d (tracks_update action js)) = Some (action, ts)"
  by (simp_all add: tracks_update_def packet_new_def read_tracks_update_def get_in_def opcode_defs reading)

section \<open>The answer to a join\<close>

record join_answer =
  ja_room :: string
  ja_mode :: string
  ja_members :: "string list"
  ja_publish :: "string \<times> string"
  ja_subscribe :: "string \<times> string"
  ja_address :: "string \<times> int"
  ja_fingerprint :: string
  ja_tracks :: "announced list"
  ja_voice :: "(u32 \<times> u32) option"

definition read_join_answer :: "json \<Rightarrow> join_answer option" where
  "read_join_answer j = do {
     rid \<leftarrow> get_in as_string ''room_id'' j;
     mode \<leftarrow> get_in as_string ''mode'' j;
     members \<leftarrow> get_in (as_list as_string) ''participants'' j;
     config \<leftarrow> field ''server_config'' j;
     ice \<leftarrow> field ''ice'' config;
     pu \<leftarrow> get_in as_string ''publish_ufrag'' ice;
     pp \<leftarrow> get_in as_string ''publish_pwd'' ice;
     su \<leftarrow> get_in as_string ''subscribe_ufrag'' ice;
     sp \<leftarrow> get_in as_string ''subscribe_pwd'' ice;
     ip \<leftarrow> get_in as_string ''ip'' ice;
     port \<leftarrow> get_in as_number ''port'' ice;
     fingerprint \<leftarrow> Option.bind (field ''dtls'' config) (get_in as_string ''fingerprint'');
     ts \<leftarrow> get_in (as_list read_announced) ''tracks'' j;
     Some \<lparr>ja_room = rid, ja_mode = mode, ja_members = members, ja_publish = (pu, pp), ja_subscribe = (su, sp),
       ja_address = (ip, port), ja_fingerprint = fingerprint, ja_tracks = ts,
       ja_voice = do { v \<leftarrow> field ''ptt_virtual_ssrc'' j; a \<leftarrow> get_in as_u32 ''audio'' v; b \<leftarrow> get_in as_u32 ''video'' v;
                       Some (a, b) }\<rparr> }"

definition mode_name :: "room_mode \<Rightarrow> string" where
  "mode_name m = (case m of Conference \<Rightarrow> ''conference'' | Ptt \<Rightarrow> ''ptt'')"

lemma read_join_response:
  assumes "those (map read_announced js) = Some ts"
  shows "read_join_answer (join_response sv rid r pub_ice sub_ice js) = Some
    \<lparr>ja_room = rid, ja_mode = mode_name (r_mode r), ja_members = map fst (participants r),
     ja_publish = (ufrag pub_ice, pwd pub_ice), ja_subscribe = (ufrag sub_ice, pwd sub_ice),
     ja_address = (sv_public_ip sv, int (sv_udp_port sv)), ja_fingerprint = sv_fingerprint sv, ja_tracks = ts,
     ja_voice = (if r_mode r = Ptt then Some (virtual_ssrc (audio_rewriter r), virtual_ssrc (video_rewriter r)) else None)\<rparr>"
proof -
  have "those (map (as_string \<circ> (JStr \<circ> fst)) (participants r)) = Some (map fst (participants r))"
    by (rule those_all) (simp add: reading)
  then show ?thesis using assms
    by (cases "r_mode r")
       (simp_all add: read_join_answer_def join_response_def get_in_def member_ids_def mode_name_def show_room_mode_def reading)
qed

section \<open>The snapshot for administrators\<close>

record seen_track =
  st_kind :: string
  st_ssrc :: u32
  st_id :: string
  st_muted :: bool
  st_rtx :: "u32 option"

record seen_member =
  sm_user :: string
  sm_publishes :: bool
  sm_subscribes :: bool
  sm_tracks :: "seen_track list"

record seen_room =
  sr_id :: string
  sr_name :: string
  sr_capacity :: int
  sr_mode :: string
  sr_members :: "seen_member list"
  sr_speaker :: "string option"

definition read_seen_track :: "json \<Rightarrow> seen_track option" where
  "read_seen_track j = do {
     kind \<leftarrow> get_in as_string ''kind'' j;
     ssrc \<leftarrow> get_in as_u32 ''ssrc'' j;
     name \<leftarrow> get_in as_string ''track_id'' j;
     muted \<leftarrow> get_in as_bool ''muted'' j;
     Some \<lparr>st_kind = kind, st_ssrc = ssrc, st_id = name, st_muted = muted, st_rtx = get_in as_u32 ''rtx_ssrc'' j\<rparr> }"

definition read_seen_member :: "json \<Rightarrow> seen_member option" where
  "read_seen_member j = do {
     user \<leftarrow> get_in as_string ''user_id'' j;
     pub \<leftarrow> get_in as_bool ''pub_ready'' j;
     sub \<leftarrow> get_in as_bool ''sub_ready'' j;
     ts \<leftarrow> get_in (as_list read_seen_track) ''tracks'' j;
     Some \<lparr>sm_user = user, sm_publishes = pub, sm_subscribes = sub, sm_tracks = ts\<rparr> }"

definition read_seen_room :: "json \<Rightarrow> seen_room option" where
  "read_seen_room j = do {
     rid \<leftarrow> get_in as_string ''room_id'' j;
     name \<leftarrow> get_in as_string ''name'' j;
     capacity \<leftarrow> get_in as_number ''capacity'' j;
     mode \<leftarrow> get_in as_string ''mode'' j;
     members \<leftarrow> get_in (as_list read_seen_member) ''participants'' j;
     Some \<lparr>sr_id = rid, sr_name = name, sr_capacity = capacity, sr_mode = mode, sr_members = members,
       sr_speaker = Option.bind (field ''ptt'' j) (get_in as_string ''floor_speaker'')\<rparr> }"

definition read_snapshot :: "json \<Rightarrow> seen_room list option" where
  "read_snapshot j = (if get_in as_string ''type'' j = Some ''snapshot'' then get_in (as_list read_seen_room) ''rooms'' j else None)"

text \<open>What there is to see of the shared state.\<close>

definition seen_track_of :: "track \<Rightarrow> seen_track" where
  "seen_track_of t = \<lparr>st_kind = kind_name (t_kind t), st_ssrc = t_ssrc t, st_id = t_track_id t, st_muted = t_muted t, st_rtx = t_rtx_ssrc t\<rparr>"

definition seen_member_of :: "'c participant \<Rightarrow> seen_member" where
  "seen_member_of p = \<lparr>sm_user = p_user_id p, sm_publishes = is_publish_ready p, sm_subscribes = is_subscribe_ready p,
     sm_tracks = map seen_track_of (tracks p)\<rparr>"

definition seen_room_of :: "'c app \<Rightarrow> room \<Rightarrow> seen_room" where
  "seen_room_of s r = \<lparr>sr_id = r_id r, sr_name = r_name r, sr_capacity = int (r_capacity r), sr_mode = mode_name (r_mode r),
     sr_members = map (\<lambda>(u, p). seen_member_of (pt s p)) (participants r),
     sr_speaker = (if r_mode r = Ptt then current_speaker (r_floor r) else None)\<rparr>"

definition seen_rooms :: "'c app \<Rightarrow> seen_room list" where
  "seen_rooms s = map (\<lambda>(rid, r). seen_room_of s r) (rooms (hub s))"

lemma read_snapshot_track [reading]: "read_seen_track (snapshot_track t) = Some (seen_track_of t)"
  by (cases "t_rtx_ssrc t")
     (simp_all add: read_seen_track_def seen_track_of_def snapshot_track_def track_fields_def rtx_field_def get_in_def
       show_track_kind_def kind_name_def reading)

lemma read_snapshot_participant [reading]: "read_seen_member (snapshot_participant p) = Some (seen_member_of p)"
  using those_all [of "tracks p" "\<lambda>t. read_seen_track (snapshot_track t)" seen_track_of]
  by (simp add: read_seen_member_def seen_member_of_def snapshot_participant_def get_in_def get_tracks_def comp_def reading)

lemma read_snapshot_room [reading]: "read_seen_room (snapshot_room s r) = Some (seen_room_of s r)"
  using those_all [of "participants r" "\<lambda>x. read_seen_member (snapshot_participant (pt s (snd x)))" "\<lambda>x. seen_member_of (pt s (snd x))"]
  by (cases "r_mode r"; cases "current_speaker (r_floor r)")
     (simp_all add: read_seen_room_def seen_room_of_def snapshot_room_def get_in_def all_participants_def comp_def
       mode_name_def show_room_mode_def case_prod_beta reading)

lemma read_rooms_snapshot: "read_snapshot (build_rooms_snapshot s) = Some (seen_rooms s)"
  using those_all [of "rooms (hub s)" "\<lambda>x. read_seen_room (snapshot_room s (snd x))" "\<lambda>x. seen_room_of s (snd x)"]
  by (simp add: read_snapshot_def build_rooms_snapshot_def seen_rooms_def get_in_def comp_def case_prod_beta reading)

end
