(* ===== verification/Udp.thy ===== *)
theory Udp
  imports Effects Ice
begin

text \<open>
  The UDP workers (\<open>src/transport/udp/mod.rs\<close>) and the adapter between a worker and a DTLS
  task (\<open>src/transport/demux_conn.rs\<close>). Each worker owns its map of DTLS sessions; the hub,
  the metrics and the channels are shared. A turn of the loop of a worker ends, or waits
  inside a send to a full channel, or panics.
\<close>

section \<open>The channel to a DTLS task\<close>

definition on_channel :: "nat \<Rightarrow> (dtls_channel \<Rightarrow> dtls_channel) \<Rightarrow> 'c app \<Rightarrow> 'c app" where
  "on_channel c f s = s\<lparr>channels := (channels s)[c := f (channels s ! c)]\<rparr>"

definition demux_new :: "'c app \<Rightarrow> nat \<times> 'c app" where
  "demux_new s = (length (channels s), s\<lparr>channels := channels s @ [\<lparr>chan_queue = [], chan_open = True\<rparr>]\<rparr>)"

text \<open>
  \<open>recv\<close> of the adapter: the oldest packet, cut to the size of the buffer; with an empty
  queue it waits (\<open>None\<close>) as long as a sender exists.
\<close>

definition demux_recv :: "bool \<Rightarrow> nat \<Rightarrow> dtls_channel \<Rightarrow> ((string + bytes) \<times> dtls_channel) option" where
  "demux_recv has_sender buf_len c =
     (case chan_queue c of
        pkt # rest \<Rightarrow> Some (Inr (take (min (length pkt) buf_len) pkt), c\<lparr>chan_queue := rest\<rparr>)
      | [] \<Rightarrow> if has_sender then None else Some (Inl ''dtls rx channel closed'', c))"

definition demux_recv_from ::
  "bool \<Rightarrow> nat \<Rightarrow> sockaddr \<Rightarrow> dtls_channel \<Rightarrow> ((string + bytes \<times> sockaddr) \<times> dtls_channel) option" where
  "demux_recv_from has_sender buf_len peer c =
     map_option (apfst (\<lambda>r. case r of Inl err \<Rightarrow> Inl err | Inr x \<Rightarrow> Inr (x, peer))) (demux_recv has_sender buf_len c)"

definition demux_send :: "'c env \<Rightarrow> sockaddr \<Rightarrow> bytes \<Rightarrow> 'c app \<Rightarrow> bool \<times> 'c app" where
  "demux_send e peer buf s = send_to e peer buf s"

definition demux_send_to :: "'c env \<Rightarrow> sockaddr \<Rightarrow> bytes \<Rightarrow> sockaddr \<Rightarrow> 'c app \<Rightarrow> bool \<times> 'c app" where
  "demux_send_to e peer buf target s = demux_send e peer buf s"

section \<open>The map of DTLS sessions\<close>

type_synonym dtls_session_map = "sockaddr \<Rightarrow> nat option"

definition dtls_insert :: "sockaddr \<Rightarrow> nat \<Rightarrow> dtls_session_map \<Rightarrow> dtls_session_map" where
  "dtls_insert addr tx m = m(addr \<mapsto> tx)"

definition dtls_has :: "dtls_session_map \<Rightarrow> sockaddr \<Rightarrow> bool" where
  "dtls_has m addr \<longleftrightarrow> m addr \<noteq> None"

definition chan_send :: "bytes \<Rightarrow> dtls_channel \<Rightarrow> bool \<times> dtls_channel" where
  "chan_send data c =
     (if length (chan_queue c) \<ge> DTLS_CHANNEL_SIZE then (False, c)
      else (True, c\<lparr>chan_queue := chan_queue c @ [data]\<rparr>))"

interpretation dq: bounded_queue chan_send chan_queue DTLS_CHANNEL_SIZE
  by unfold_locales (auto simp: chan_send_def)

text \<open>\<open>tx.send(data).await\<close> waits (\<open>None\<close>) when the open channel is full.\<close>

definition dtls_inject :: "dtls_session_map \<Rightarrow> sockaddr \<Rightarrow> bytes \<Rightarrow> 'c app \<Rightarrow> (bool \<times> 'c app) option" where
  "dtls_inject m addr data s =
     (case m addr of
        None \<Rightarrow> Some (False, s)
      | Some tx \<Rightarrow>
          if \<not> chan_open (channels s ! tx) then Some (False, s)
          else (case chan_send data (channels s ! tx) of
                  (False, c) \<Rightarrow> None
                | (True, c) \<Rightarrow> Some (True, on_channel tx (\<lambda>_. c) s)))"

definition dtls_remove_stale :: "dtls_channel list \<Rightarrow> dtls_session_map \<Rightarrow> dtls_session_map" where
  "dtls_remove_stale cs m = (\<lambda>addr. case m addr of
       None \<Rightarrow> None
     | Some tx \<Rightarrow> if chan_open (cs ! tx) then Some tx else None)"

section \<open>Workers\<close>

record worker =
  worker_id :: u8
  dtls_map :: dtls_session_map
  pkt_count :: u64
  w_bwe_mode :: bwe_mode
  w_remb_bitrate :: u64

definition worker_new :: "u8 \<Rightarrow> bwe_mode \<Rightarrow> u64 \<Rightarrow> worker" where
  "worker_new n mode bitrate =
     \<lparr>worker_id = n, dtls_map = Map.empty, pkt_count = 0, w_bwe_mode = mode, w_remb_bitrate = bitrate\<rparr>"

definition is_primary :: "worker \<Rightarrow> bool" where
  "is_primary w \<longleftrightarrow> worker_id w = 0"

definition resolve_worker_count :: "nat \<Rightarrow> nat option \<Rightarrow> nat" where
  "resolve_worker_count configured parallelism =
     (if configured > 0 then configured else (case parallelism of Some n \<Rightarrow> n | None \<Rightarrow> 1))"

definition start_dtls_handshake :: "sockaddr \<Rightarrow> pref \<Rightarrow> pc_type \<Rightarrow> worker \<times> 'c app \<Rightarrow> worker \<times> 'c app" where
  "start_dtls_handshake remote p pc ws =
     (case ws of (w, s) \<Rightarrow>
       (let (tx, s) = demux_new s
        in (w\<lparr>dtls_map := dtls_insert remote tx (dtls_map w)\<rparr>, emit (SpawnDtls remote p pc tx) s)))"

definition handle_stun :: "'c env \<Rightarrow> u64 \<Rightarrow> bytes \<Rightarrow> sockaddr \<Rightarrow> worker \<Rightarrow> 'c app \<Rightarrow> (worker \<times> 'c app) option" where
  "handle_stun e now buf remote w s = do {
     parsed \<leftarrow> stun_parse buf;
     case parsed of None \<Rightarrow> Some (w, s)
     | Some msg \<Rightarrow>
       if msg_type msg \<noteq> BINDING_REQUEST then Some (w, s)
       else case username msg of None \<Rightarrow> Some (w, s)
       | Some user \<Rightarrow>
         (case on_hub (latch_by_ufrag (takeWhile (\<lambda>c. c \<noteq> CHR '':'') user) remote) s of
            (None, s) \<Rightarrow> Some (w, s)
          | (Some (p, pc, rid), s) \<Rightarrow> do {
              let s = on_pt p (touch now) s;
              let integrity_key = ice_integrity_key (ms_ice_pwd (session (pt s p) pc));
              verified \<leftarrow> verify_message_integrity (hmac_sha1 e) msg integrity_key;
              if \<not> verified then Some (w, s)
              else do {
                response \<leftarrow> build_binding_response (hmac_sha1 e) (crc32 e) (transaction_id msg) remote integrity_key;
                let s = snd (send_to e remote response s);
                Some (if has_use_candidate msg \<and> \<not> dtls_has (dtls_map w) remote
                      then start_dtls_handshake remote p pc (w, s) else (w, s)) } }) }"

datatype 'a turn = Finished 'a | Waits | Panicked

definition handle_dtls :: "bytes \<Rightarrow> sockaddr \<Rightarrow> worker \<Rightarrow> 'c app \<Rightarrow> (worker \<times> 'c app) turn" where
  "handle_dtls data remote w s =
     (case dtls_inject (dtls_map w) remote data s of
        None \<Rightarrow> Waits
      | Some (True, s) \<Rightarrow> Finished (w, s)
      | Some (False, s) \<Rightarrow>
          (case find_by_addr (hub s) remote of
             None \<Rightarrow> Finished (w, s)
           | Some (p, pc, rid) \<Rightarrow>
               (case start_dtls_handshake remote p pc (w, s) of
                  (w, s) \<Rightarrow>
                    (case dtls_inject (dtls_map w) remote data s of
                       None \<Rightarrow> Waits
                     | Some (_, s) \<Rightarrow> Finished (w, s)))))"

definition after_packet :: "worker \<Rightarrow> 'c app \<Rightarrow> worker" where
  "after_packet w s =
     (let w = w\<lparr>pkt_count := pkt_count w + 1\<rparr>
      in if pkt_count w mod 1000 = 0 then w\<lparr>dtls_map := dtls_remove_stale (channels s) (dtls_map w)\<rparr> else w)"

text \<open>
  The arm of \<open>run\<close> for a received datagram. The text of the last trace line reads the first
  byte, but only when that level of logging is on (\<open>tracing\<close>).
\<close>

definition udp_turn ::
  "'c env \<Rightarrow> ((u32 \<times> bytes list) list \<Rightarrow> (u32 \<times> bytes list) list) \<Rightarrow> bool \<Rightarrow> u64 \<Rightarrow> nat \<Rightarrow>
   bytes \<Rightarrow> sockaddr \<Rightarrow> worker \<Rightarrow> 'c app \<Rightarrow> (worker \<times> 'c app) turn" where
  "udp_turn e order tracing now arrival data remote w s =
     (case (case classify data of
              Stun_Packet \<Rightarrow> (case handle_stun e now data remote w s of None \<Rightarrow> Panicked | Some x \<Rightarrow> Finished x)
            | Dtls_Packet \<Rightarrow> handle_dtls data remote w s
            | Srtp_Packet \<Rightarrow> (case handle_srtp e order now arrival data remote s of
                                None \<Rightarrow> Panicked | Some s \<Rightarrow> Finished (w, s))
            | Unknown_Packet \<Rightarrow> if tracing \<and> idx data 0 = None then Panicked else Finished (w, s)) of
        Finished (w, s) \<Rightarrow> Finished (after_packet w s, s)
      | Waits \<Rightarrow> Waits
      | Panicked \<Rightarrow> Panicked)"

text \<open>The arms of the two timers, which only the first worker has.\<close>

definition flush_metrics :: "'c env \<Rightarrow> json \<Rightarrow> json \<Rightarrow> (u64 \<Rightarrow> u64 \<Rightarrow> string) \<Rightarrow> 'c app \<Rightarrow> 'c app" where
  "flush_metrics e env_json tokio_json avg s =
     (case metrics_flush env_json tokio_json avg (metrics s) of
        (j, m) \<Rightarrow> emit (AdminSend (json_string e j)) (s\<lparr>metrics := m\<rparr>))"

definition bwe_tick :: "'c env \<Rightarrow> worker \<Rightarrow> 'c app \<Rightarrow> 'c app option" where
  "bwe_tick e w s =
     (case w_bwe_mode w of
        Twcc \<Rightarrow> send_twcc_to_publishers e s
      | Remb \<Rightarrow> Some (send_remb_to_publishers e (w_remb_bitrate w) s))"

section \<open>The DTLS task\<close>

text \<open>
  What the handshake of the \<open>dtls\<close> package ends with: a failure, the timeout, or a
  connection from which the exporter gives an error or the key material.
\<close>

datatype handshake = HandshakeFailed | HandshakeTimeout | HandshakeOk "string + bytes"

text \<open>The receiver of the egress queue is taken once.\<close>

definition spawn_egress :: "pref \<Rightarrow> 'c app \<Rightarrow> 'c app" where
  "spawn_egress p s =
     (if egress_rx_taken (pt s p) then s
      else emit (SpawnEgress p) (on_pt p (\<lambda>q. q\<lparr>egress_rx_taken := True\<rparr>) s))"

definition handshake_done :: "'c env \<Rightarrow> handshake \<Rightarrow> pref \<Rightarrow> pc_type \<Rightarrow> 'c app \<Rightarrow> 'c app option" where
  "handshake_done e result p pc s =
     (case result of
        HandshakeFailed \<Rightarrow> Some s
      | HandshakeTimeout \<Rightarrow> Some s
      | HandshakeOk (Inl err) \<Rightarrow> Some s
      | HandshakeOk (Inr material) \<Rightarrow> do {
          keys \<leftarrow> export_srtp_keys material;
          let s = on_pt p (map_session pc (\<lambda>ms. install_srtp_keys (srtp e) ms
                     (client_key keys) (client_salt keys) (server_key keys) (server_salt keys))) s;
          Some (if pc = Subscribe
                then (let s = spawn_egress p s
                      in case hub_get (hub s) (p_room_id (pt s p)) of
                           Inr r \<Rightarrow> send_pli_to_publishers e r (p_user_id (pt s p)) s
                         | Inl _ \<Rightarrow> s)
                else s) })"

text \<open>The task ends, and the receiver with what is in it is dropped.\<close>

definition dtls_task_end :: "nat \<Rightarrow> 'c app \<Rightarrow> 'c app" where
  "dtls_task_end c s = on_channel c (\<lambda>ch. \<lparr>chan_queue = [], chan_open = False\<rparr>) s"

section \<open>Every turn keeps the state\<close>

text \<open>The channels a worker refers to exist.\<close>

definition worker_ok :: "worker \<Rightarrow> 'c app \<Rightarrow> bool" where
  "worker_ok w s \<longleftrightarrow> (\<forall>a c. dtls_map w a = Some c \<longrightarrow> c < length (channels s))"

lemma worker_ok_new [simp]: "worker_ok (worker_new n mode bitrate) s"
  by (simp add: worker_ok_def worker_new_def)

lemma worker_ok_step: "worker_ok w s \<Longrightarrow> good_step s s' \<Longrightarrow> worker_ok w s'"
  using good_stepD(3) by (fastforce simp: worker_ok_def)

lemma channel_state_ok: "state_ok s \<Longrightarrow> state_ok (on_channel c f s)"
proof -
  have "log_ok s \<Longrightarrow> log_ok (on_channel c f s)"
    by (rule log_ok_plain [where es = "[]"]) (auto simp: on_channel_def pt_def)
  then show "state_ok s \<Longrightarrow> state_ok (on_channel c f s)" by (simp add: state_ok_def) (simp add: on_channel_def)
qed

lemma good_channel:
  assumes "chan_open (f (channels s ! c)) = chan_open (channels s ! c)"
    and "length (chan_queue (channels s ! c)) \<le> DTLS_CHANNEL_SIZE \<Longrightarrow> length (chan_queue (f (channels s ! c))) \<le> DTLS_CHANNEL_SIZE"
  shows "good_step s (on_channel c f s)"
proof -
  have "map chan_open (channels (on_channel c f s)) = map chan_open (channels s)"
    by (cases "c < length (channels s)") (simp_all add: on_channel_def map_update assms list_update_beyond list_update_same_conv)
  moreover have "chans_bounded (on_channel c f s)" if "chans_bounded s"
    using that assms(2) set_update_subset_insert [of "channels s" c "f (channels s ! c)"]
    by (cases "c < length (channels s)") (auto simp: chans_bounded_def on_channel_def list_update_beyond dest!: subsetD)
  ultimately have "chans_kept s (on_channel c f s)" by (simp add: chans_kept_def exI [of _ 0])
  moreover have "heap (hub (on_channel c f s)) = heap (hub s)" "out (on_channel c f s) = out s" by (simp_all add: on_channel_def)
  ultimately show ?thesis using channel_state_ok [of s c f] by (simp add: good_step_def)
qed

lemma start_dtls_good:
  assumes "p < length (heap (hub s))" and "worker_ok w s" and "start_dtls_handshake remote p pc (w, s) = (w', s')"
  shows "good_step s s'" "worker_ok w' s'" "hub s' = hub s" "dtls_map w' remote = Some (length (channels s))"
    "channels s' = channels s @ [\<lparr>chan_queue = [], chan_open = True\<rparr>]"
    "out s' = out s @ [SpawnDtls remote p pc (length (channels s))]"
proof -
  let ?s = "s\<lparr>channels := channels s @ [\<lparr>chan_queue = [], chan_open = True\<rparr>]\<rparr>"
  have s': "s' = emit (SpawnDtls remote p pc (length (channels s))) ?s"
    and w': "w' = w\<lparr>dtls_map := (dtls_map w)(remote \<mapsto> length (channels s))\<rparr>"
    using assms(3) by (auto simp: start_dtls_handshake_def demux_new_def dtls_insert_def)
  show "hub s' = hub s" "channels s' = channels s @ [\<lparr>chan_queue = [], chan_open = True\<rparr>]"
    "out s' = out s @ [SpawnDtls remote p pc (length (channels s))]"
    "dtls_map w' remote = Some (length (channels s))" by (simp_all add: s' w')
  show "worker_ok w' s'" using assms(2) by (auto simp: worker_ok_def s' w' less_Suc_eq)
  have "log_ok s \<Longrightarrow> log_ok s'"
    using assms(1) by (auto simp: log_ok_def egress_spawns_def dtls_spawns_def s' List.map_filter_simps pt_def)
  moreover have "chans_kept s s'" by (auto simp: chans_kept_def chans_bounded_def s' intro: exI [of _ 1])
  ultimately show "good_step s s'" by (auto simp: good_step_def state_ok_def s')
qed

lemma build_binding_response_total: "build_binding_response h c tid a k \<noteq> None"
proof -
  have h: "to_be16 BINDING_RESPONSE @ to_be16 0 @ to_be32 MAGIC_COOKIE @ tid = stun_header BINDING_RESPONSE 0 tid"
    by (simp add: stun_header_def)
  show ?thesis unfolding build_binding_response_def h
    by (simp only: Let_def write_attr_append append_assoc write_length Option.bind.simps) simp
qed

lemma stun_parse_total: "stun_parse buf \<noteq> None"
  unfolding stun_parse_def by (intro total attr_loop_total) (auto simp: config_defs not_less)

lemma good_latch:
  assumes "on_hub (latch_by_ufrag uf addr) s = (res, s')"
  shows "good_step s s'"
    and "app_ok s \<Longrightarrow> res = Some (p, pc, rid) \<Longrightarrow> p < length (heap (hub s')) \<and> room_of s' rid \<noteq> None"
proof -
  obtain hb where h: "latch_by_ufrag uf addr (hub s) = (res, hb)" and s': "s' = s\<lparr>hub := hb\<rparr>"
    using assms by (auto simp: on_hub_def split: prod.splits)
  have *: "app_ok s' \<and> length (heap hb) = length (heap (hub s)) \<and>
      (\<forall>q. egress_rx_taken (pt s' q) = egress_rx_taken (pt s q)) \<and>
      (res = Some (p, pc, rid) \<longrightarrow> p < length (heap hb) \<and> map_of (rooms hb) rid \<noteq> None)" if ok: "app_ok s"
    using app_okD(1) [OF ok]
  proof (cases rule: latch_by_ufrag_cases [where uf = uf and addr = addr])
    case miss
    then show ?thesis using ok h by (simp add: s')
  next
    case (hit rid' r q k r')
    let ?f = "map_session k (\<lambda>ms. latch_address ms addr)"
    have hb: "hb = (put_room rid' r' (hub s))\<lparr>heap := modify q ?f (heap (hub s)),
        addr_index := (addr_index (hub s))(addr \<mapsto> rid')\<rparr>" and res: "res = Some (q, k, rid')"
      using h hit(7) by auto
    have "hub_ok hb" using latch_by_ufrag_ok [OF app_okD(1) [OF ok], of uf addr] h by simp
    moreover have d: "pt s' x = (if x = q then ?f (pt s q) else pt s x)" for x
      using hit(4) by (simp add: s' pt_def hb deref_modify)
    then have "\<forall>x < length (heap hb). wf_pt (pt s' x)"
      using app_okD(2) [OF ok] by (simp add: hb)
    moreover have "floor_synced r'"
      using hit(6) app_okD(3) [OF ok, of rid' r] hit(2)
      by (auto simp: room_latch_def Let_def room_of_def floor_synced_def split: option.splits prod.splits)
    then have "\<forall>x y. room_of s' x = Some y \<longrightarrow> floor_synced y"
      using app_okD(3) [OF ok] by (auto simp: s' room_of_def hb)
    moreover have "egress_rx_taken (pt s' x) = egress_rx_taken (pt s x)" for x
      by (cases k) (simp_all add: d map_session_def)
    ultimately show ?thesis using hit(4) by (auto simp: app_ok_def s' hb res)
  qed
  have "log_ok s'" if "app_ok s" "log_ok s"
    by (rule log_ok_plain [OF that(2), where es = "[]"]) (use * [OF that(1)] in \<open>auto simp: s'\<close>)
  moreover have "length (heap hb) = length (heap (hub s))"
    using h by (auto simp: latch_by_ufrag_def room_latch_def Let_def split: option.splits prod.splits)
  ultimately show "good_step s s'" using * by (auto simp: good_step_def state_ok_def s')
  show "app_ok s \<Longrightarrow> res = Some (p, pc, rid) \<Longrightarrow> p < length (heap (hub s')) \<and> room_of s' rid \<noteq> None"
    using * by (auto simp: s' room_of_def)
qed

lemma handle_stun_good:
  assumes ok: "state_ok s" and w: "worker_ok w s"
  shows "\<exists>w' s'. handle_stun e now buf remote w s = Some (w', s') \<and> good_step s s' \<and> worker_ok w' s'"
proof (cases "stun_parse buf")
  case None
  then show ?thesis using stun_parse_total [of buf] by simp
next
  case (Some parsed)
  consider "handle_stun e now buf remote w s = Some (w, s)"
    | msg user where "parsed = Some msg" "msg_type msg = BINDING_REQUEST" "username msg = Some user"
  proof (cases "\<exists>msg user. parsed = Some msg \<and> msg_type msg = BINDING_REQUEST \<and> username msg = Some user")
    case False
    then have "handle_stun e now buf remote w s = Some (w, s)"
      by (cases parsed; cases "username (the parsed)") (auto simp: handle_stun_def Some)
    then show ?thesis by (rule that(1))
  qed (use that in blast)
  then show ?thesis
  proof cases
    case 1
    then show ?thesis using w by auto
  next
    case 2
    let ?uf = "takeWhile (\<lambda>c. c \<noteq> CHR '':'') user"
    obtain res s1 where l: "on_hub (latch_by_ufrag ?uf remote) s = (res, s1)" by fastforce
    note g1 = good_latch(1) [OF l]
    show ?thesis
    proof (cases res)
      case None
      then have "handle_stun e now buf remote w s = Some (w, s1)" by (simp add: handle_stun_def Some 2 l)
      then show ?thesis using g1 worker_ok_step [OF w g1] by blast
    next
      case (Some f)
      obtain p pc rid where f: "f = (p, pc, rid)" by (cases f)
      let ?s2 = "on_pt p (touch now) s1"
      let ?key = "ice_integrity_key (ms_ice_pwd (session (pt ?s2 p) pc))"
      have p: "p < length (heap (hub s1))"
        using good_latch(2) [OF l state_okD(1) [OF ok], of p pc rid] Some f by simp
      have g2: "good_step s ?s2" using good_trans [OF g1 good_media [OF touch_step]] .
      obtain v where v: "verify_message_integrity (hmac_sha1 e) msg ?key = Some v"
        using verify_message_integrity_total [of "hmac_sha1 e" msg ?key] by auto
      obtain resp where resp: "build_binding_response (hmac_sha1 e) (crc32 e) (transaction_id msg) remote ?key = Some resp"
        using build_binding_response_total [of "hmac_sha1 e" "crc32 e" "transaction_id msg" remote ?key] by auto
      let ?s3 = "snd (send_to e remote resp ?s2)"
      have g3: "good_step s ?s3" using good_trans [OF g2 good_media [OF send_to_step]] .
      have p3: "p < length (heap (hub ?s3))" using p by (simp add: send_to_def)
      obtain w4 s4 where st4: "start_dtls_handshake remote p pc (w, ?s3) = (w4, s4)" by fastforce
      note st = start_dtls_good [OF p3 worker_ok_step [OF w g3] st4]
      have "handle_stun e now buf remote w s = Some (if \<not> v then (w, ?s2)
          else if has_use_candidate msg \<and> \<not> dtls_has (dtls_map w) remote
            then (w4, s4) else (w, ?s3))"
        using \<open>stun_parse buf = Some parsed\<close> 2 v resp st4 by (simp add: handle_stun_def l Some f Let_def)
      then show ?thesis
        using worker_ok_step [OF w g2] worker_ok_step [OF w g3] g2 g3 good_trans [OF g3 st(1)] st(2)
        by auto
    qed
  qed
qed

lemma dtls_inject_good:
  "dtls_inject m remote data s = Some (b, s') \<Longrightarrow> good_step s s'"
  by (auto simp: dtls_inject_def chan_send_def not_le intro!: good_channel split: option.splits if_splits prod.splits bool.splits)

text \<open>When a worker waits: the session of the sender is open and its channel is full.\<close>

definition dtls_stalled :: "worker \<Rightarrow> sockaddr \<Rightarrow> 'c app \<Rightarrow> bool" where
  "dtls_stalled w remote s \<longleftrightarrow> (\<exists>c. dtls_map w remote = Some c \<and> chan_open (channels s ! c) \<and>
     DTLS_CHANNEL_SIZE \<le> length (chan_queue (channels s ! c)))"

lemma dtls_inject_waits: "dtls_inject (dtls_map w) remote data s = None \<longleftrightarrow> dtls_stalled w remote s"
  by (auto simp: dtls_inject_def dtls_stalled_def chan_send_def split: option.splits)

lemma handle_dtls_good:
  assumes ok: "state_ok s" and w: "worker_ok w s"
  shows "handle_dtls data remote w s = Waits \<and> dtls_stalled w remote s \<or>
    (\<exists>w' s'. handle_dtls data remote w s = Finished (w', s') \<and> good_step s s' \<and> worker_ok w' s')"
proof (cases "dtls_inject (dtls_map w) remote data s")
  case None
  then show ?thesis using dtls_inject_waits [of w remote data s] by (simp add: handle_dtls_def)
next
  case (Some i)
  obtain b s1 where i: "i = (b, s1)" by (cases i)
  have g1: "good_step s s1" using Some i dtls_inject_good by blast
  note ok1 = good_stepD(1) [OF g1 ok] and w1 = worker_ok_step [OF w g1]
  show ?thesis
  proof (cases "b \<or> find_by_addr (hub s1) remote = None")
    case True
    then have "handle_dtls data remote w s = Finished (w, s1)"
      by (cases b; cases "find_by_addr (hub s1) remote") (auto simp: handle_dtls_def Some i)
    then show ?thesis using g1 w1 by blast
  next
    case False
    then obtain p pc rid where f: "find_by_addr (hub s1) remote = Some (p, pc, rid)" by auto
    have p: "p < length (heap (hub s1))"
      using found_entered [OF app_ok_store [OF state_okD(1) [OF ok1]] f] by (simp add: entered_def)
    obtain w2 s2 where st: "start_dtls_handshake remote p pc (w, s1) = (w2, s2)" by fastforce
    note S = start_dtls_good [OF p w1 st]
    obtain b2 s3 where inj: "dtls_inject (dtls_map w2) remote data s2 = Some (b2, s3)"
      by (auto simp: dtls_inject_def S(4,5) chan_send_def DTLS_CHANNEL_SIZE_def)
    have "handle_dtls data remote w s = Finished (w2, s3)"
      using False by (simp add: handle_dtls_def Some i f st inj)
    moreover note g = good_trans [OF S(1) dtls_inject_good [OF inj]]
    ultimately show ?thesis
      using good_trans [OF g1 g] worker_ok_step [OF S(2) dtls_inject_good [OF inj]] by blast
  qed
qed

lemma after_packet_ok: "worker_ok w s \<Longrightarrow> worker_ok (after_packet w s) s"
  by (auto simp: worker_ok_def after_packet_def dtls_remove_stale_def Let_def split: option.splits if_splits)

lemma udp_turn_good:
  assumes ok: "state_ok s" and w: "worker_ok w s"
  shows "(case udp_turn e order tracing now arrival data remote w s of
      Panicked \<Rightarrow> tracing \<and> data = []
    | Waits \<Rightarrow> classify data = Dtls_Packet \<and> dtls_stalled w remote s
    | Finished (w', s') \<Rightarrow> good_step s s' \<and> worker_ok w' s')"
proof (cases "classify data")
  case Stun_Packet
  then show ?thesis using handle_stun_good [OF ok w, of e now data remote]
    by (auto simp: udp_turn_def after_packet_ok)
next
  case Dtls_Packet
  then show ?thesis using handle_dtls_good [OF ok w, of data remote]
    by (auto simp: udp_turn_def after_packet_ok)
next
  case Srtp_Packet
  then show ?thesis using handle_srtp_safe [OF state_okD(1) [OF ok], of e order now arrival data remote] worker_ok_step [OF w]
    by (auto simp: udp_turn_def safe_def good_media intro!: after_packet_ok)
next
  case Unknown_Packet
  then show ?thesis using w by (auto simp: udp_turn_def after_packet_ok idx_def)
qed

lemma spawn_egress_good:
  assumes p: "p < length (heap (hub s))"
  shows "good_step s (spawn_egress p s)"
proof (cases "egress_rx_taken (pt s p)")
  case False
  let ?s = "on_pt p (\<lambda>q. q\<lparr>egress_rx_taken := True\<rparr>) s"
  have t: "egress_rx_taken (pt ?s q) \<longleftrightarrow> q = p \<or> egress_rx_taken (pt s q)" for q
    using p by (simp add: pt_on_pt)
  have "log_ok (spawn_egress p s)" if log: "log_ok s"
  proof -
    have sp: "egress_spawns (spawn_egress p s) = egress_spawns s @ [p]" "dtls_spawns (spawn_egress p s) = dtls_spawns s"
      using False by (simp_all add: egress_spawns_def dtls_spawns_def spawn_egress_def List.map_filter_simps)
    have "p \<notin> set (egress_spawns s)" using log False by (simp add: log_ok_def)
    then show ?thesis unfolding log_ok_def sp
      using log p t False by (auto simp: log_ok_def spawn_egress_def)
  qed
  moreover have "app_ok s \<Longrightarrow> app_ok ?s"
    by (rule app_ok_on_pt) (auto simp: same_id_def session_def wf_pt_def wf_tracks_def split: pc_type.splits)
  ultimately show ?thesis using False by (auto simp: good_step_def state_ok_def spawn_egress_def)
qed (simp add: spawn_egress_def)

lemma good_session:
  fixes s :: "'c app"
  assumes "\<And>ms. ms_ufrag (f ms) = ms_ufrag ms" "\<And>ms. ms_address (f ms) = ms_address ms"
  shows "good_step s (on_pt p (map_session pc f) s)"
proof (rule good_on_pt)
  show "egress_rx_taken (map_session pc f q) = egress_rx_taken q" for q :: "'c participant"
    by (cases pc) (simp_all add: map_session_def)
qed (use assms in \<open>auto simp: same_id_def session_map_session\<close>)

lemma handshake_done_good:
  assumes p: "p < length (heap (hub s))"
    and len: "\<And>material. result = HandshakeOk (Inr material) \<Longrightarrow> length material = SRTP_KEY_MATERIAL_LEN"
  shows "\<exists>s'. handshake_done e result p pc s = Some s' \<and> good_step s s'"
proof (cases "\<exists>material. result = HandshakeOk (Inr material)")
  case True
  then obtain material where m: "result = HandshakeOk (Inr material)" by blast
  then obtain k where k: "export_srtp_keys material = Some k"
    using len by (auto simp: export_srtp_keys_def config_defs)
  let ?s1 = "on_pt p (map_session pc (\<lambda>ms. install_srtp_keys (srtp e) ms (client_key k) (client_salt k) (server_key k) (server_salt k))) s"
  have g1: "good_step s ?s1" by (rule good_session) (simp_all add: install_srtp_keys_def)
  have g2: "good_step ?s1 (spawn_egress p ?s1)" by (rule spawn_egress_good) (use p in simp)
  have g3: "good_step s (spawn_egress p ?s1)" using good_trans [OF g1 g2] .
  have "good_step s (send_pli_to_publishers e r u (spawn_egress p ?s1))" for r u
    using good_trans [OF g3 good_media [OF send_pli_step]] .
  then show ?thesis using g1 g3
    by (auto simp: handshake_done_def m k Let_def split: sum.splits)
next
  case False
  then have "handshake_done e result p pc s = Some s"
    by (cases result) (auto simp: handshake_done_def split: sum.splits)
  then show ?thesis by simp
qed

lemma flush_metrics_good: "good_step s (flush_metrics e env_json tokio_json avg s)"
proof -
  have "good_step (s\<lparr>metrics := m\<rparr>) (emit (AdminSend x) (s\<lparr>metrics := m\<rparr>))" for m x
    by (rule good_emit) simp_all
  then show ?thesis by (auto simp: flush_metrics_def intro: good_trans [OF good_metrics] split: prod.splits)
qed

lemma bwe_tick_good: "state_ok s \<Longrightarrow> \<exists>s'. bwe_tick e w s = Some s' \<and> good_step s s'"
  using send_twcc_safe [where s = s and e = e] state_okD(1) [of s] good_media [OF send_remb_step]
  by (cases "w_bwe_mode w") (auto simp: bwe_tick_def safe_def good_media)

section \<open>What a worker promises\<close>

text \<open>
  C12: no datagram stops a worker, with two exceptions. From a state that satisfies the
  invariant, the turn for any datagram from any address keeps the invariant and adds to
  the log. It waits only inside the send of a DTLS packet to an open session whose channel
  already holds 128 packets, and then nothing else is received by this worker. It panics
  only for an empty datagram while the trace level is logged.
\<close>

theorem udp_worker_safe:
  assumes "state_ok s" and "worker_ok w s"
  shows "case udp_turn e order tracing now arrival data remote w s of
      Finished (w', s') \<Rightarrow> state_ok s' \<and> worker_ok w' s' \<and> prefix (out s) (out s')
    | Waits \<Rightarrow> classify data = Dtls_Packet \<and> dtls_stalled w remote s
    | Panicked \<Rightarrow> tracing \<and> data = []"
  using udp_turn_good [OF assms, where e = e and order = order and tracing = tracing and now = now and arrival = arrival
      and data = data and remote = remote] good_stepD(1,4) assms(1)
  by (auto split: turn.splits)

lemma demo_state_ok [simp]: "m = Ptt \<or> f = Idle \<Longrightarrow> state_ok (demo_app m f)"
proof -
  assume "m = Ptt \<or> f = Idle"
  moreover have "\<not> egress_rx_taken (demo_member u n)" for u n
    by (simp add: demo_member_def participant_new_def)
  then have "log_ok (demo_app m f)"
    by (auto simp: log_ok_def egress_spawns_def dtls_spawns_def demo_app_def pt_def deref_def
        List.map_filter_simps nth_Cons')
  ultimately show ?thesis by (simp add: state_ok_def)
qed

theorem udp_worker_safe_witness:
  "\<exists>s' w'. udp_turn demo_env (\<lambda>m. m) False 9 1 demo_rtp (V4 1 0) (worker_new 0 Twcc 500000) (demo_app Conference Idle) =
     Finished (w', s') \<and> state_ok s'"
proof -
  let ?t = "udp_turn demo_env (\<lambda>m. m) False 9 1 demo_rtp (V4 1 0) (worker_new 0 Twcc 500000) (demo_app Conference Idle)"
  have c: "classify demo_rtp = Srtp_Packet" by (simp add: classify_def demo_rtp_def config_defs)
  have "case ?t of Finished (w', s') \<Rightarrow> state_ok s' \<and> worker_ok w' s' \<and> prefix (out (demo_app Conference Idle)) (out s')
    | Waits \<Rightarrow> classify demo_rtp = Dtls_Packet \<and> dtls_stalled (worker_new 0 Twcc 500000) (V4 1 0) (demo_app Conference Idle)
    | Panicked \<Rightarrow> False \<and> demo_rtp = []"
    by (rule udp_worker_safe) simp_all
  then show ?thesis using c by (cases ?t) auto
qed

text \<open>The fragment of the server in a message: what stands before the first colon.\<close>

definition server_fragment :: "stun_attribute list \<Rightarrow> string option" where
  "server_fragment as = Option.bind (List.find (\<lambda>a. attr_type a = ATTR_USERNAME) as)
     (\<lambda>a. if valid_utf8 (attr_value a) then Some (takeWhile (\<lambda>c. c \<noteq> CHR '':'') (str_of (attr_value a))) else None)"

lemma latch_found:
  assumes ok: "app_ok s" and f: "find_by_ufrag (hub s) uf = Some (p, pc, rid)"
  shows "\<exists>s'. on_hub (latch_by_ufrag uf addr) s = (Some (p, pc, rid), s') \<and>
    find_by_addr (hub s') addr = Some (p, pc, rid) \<and> out s' = out s \<and> channels s' = channels s \<and>
    p < length (heap (hub s')) \<and> ms_ice_pwd (session (pt s' p) pc) = ms_ice_pwd (session (pt s p) pc)"
  using app_okD(1) [OF ok]
proof (cases rule: latch_by_ufrag_cases [where uf = uf and addr = addr])
  case miss
  then show ?thesis using f
    by (auto simp: find_by_ufrag_def latch_by_ufrag_def get_by_ufrag_def room_latch_def Let_def bind_eq_Some_conv)
next
  case (hit rid' r q k r')
  have eq: "rid' = rid" "q = p" "k = pc"
    using f hit(1-3) by (auto simp: find_by_ufrag_def get_by_ufrag_def bind_eq_Some_conv)
  have "by_addr r' addr = Some (q, k)" using room_latch_ok(6) [OF hub_okD(2) [OF app_okD(1) [OF ok] hit(2)] hit(6)] .
  then show ?thesis using hit(4,7)
    by (auto simp: on_hub_def eq find_by_addr_def get_by_addr_def pt_def deref_modify session_map_session latch_address_def)
qed

lemma find_by_addr_heap: "find_by_addr (hub (on_pt p f s)) a = find_by_addr (hub s) a"
  by (simp add: find_by_addr_def on_pt_def)

lemma stun_binding_outcome:
  fixes e :: "'c env" and s :: "'c app"
  assumes "state_ok s" and "length tid = 12" and "\<forall>d k. length (hmac_sha1 e d k) = 20"
    and "sane_attrs (as @ mi # rest)" and "attr_type mi = ATTR_MESSAGE_INTEGRITY"
    and "\<forall>a \<in> set as. attr_type a \<noteq> ATTR_MESSAGE_INTEGRITY"
    and "server_fragment (as @ mi # rest) = Some uf" and "find_by_ufrag (hub s) uf = Some (p, pc, rid)"
    and "key = bytes_of (ms_ice_pwd (session (pt s p) pc))"
  shows "\<exists>w' s'. handle_stun e now (stun_packet BINDING_REQUEST tid (as @ mi # rest)) remote w s = Some (w', s') \<and>
    find_by_addr (hub s') remote = Some (p, pc, rid) \<and> last_seen (pt s' p) = now \<and>
    out s' = out s @
      (if hmac_sha1 e (signed_part BINDING_REQUEST tid as) key = attr_value mi
       then UdpSend remote (stun_packet BINDING_RESPONSE tid (response_attrs (hmac_sha1 e) (crc32 e) tid remote key)) #
         (if List.find (\<lambda>a. attr_type a = ATTR_USE_CANDIDATE) (as @ mi # rest) \<noteq> None \<and> dtls_map w remote = None
          then [SpawnDtls remote p pc (length (channels s))] else [])
       else []) \<and>
    (hmac_sha1 e (signed_part BINDING_REQUEST tid as) key \<noteq> attr_value mi \<longrightarrow> w' = w \<and> channels s' = channels s)"
proof -
  let ?as = "as @ mi # rest"
  have t: "BINDING_REQUEST < 0x4000" by (simp add: BINDING_REQUEST_def)
  obtain msg where m: "msg = \<lparr>msg_type = BINDING_REQUEST, msg_length = of_nat (length (encode_attrs ?as)),
      transaction_id = tid, attributes = ?as, raw = stun_packet BINDING_REQUEST tid ?as\<rparr>" by simp
  have parse: "stun_parse (stun_packet BINDING_REQUEST tid ?as) = Some (Some msg)"
    using stun_parse_packet [OF t assms(2,4), of "[]"] by (simp add: m)
  have fl: "msg_type msg = BINDING_REQUEST" "transaction_id msg = tid" "attributes msg = ?as" by (simp_all add: m)
  have verify: "verify_message_integrity (hmac_sha1 e) msg k = Some (hmac_sha1 e (signed_part BINDING_REQUEST tid as) k = attr_value mi)" for k
    by (rule verify_spec [OF parse t assms(2,4-6)])
  obtain user where u: "username msg = Some user" "takeWhile (\<lambda>c. c \<noteq> CHR '':'') user = uf"
    using assms(7) by (auto simp: server_fragment_def username_def get_attr_def fl bind_eq_Some_conv split: if_splits)
  obtain s1 where l: "on_hub (latch_by_ufrag uf remote) s = (Some (p, pc, rid), s1)"
    and l1: "find_by_addr (hub s1) remote = Some (p, pc, rid)" "out s1 = out s" "channels s1 = channels s"
      "p < length (heap (hub s1))" "ms_ice_pwd (session (pt s1 p) pc) = ms_ice_pwd (session (pt s p) pc)"
    using latch_found [OF state_okD(1) [OF assms(1)] assms(8)] by blast
  let ?s2 = "on_pt p (touch now) s1"
  have pwd: "ice_integrity_key (ms_ice_pwd (session (pt ?s2 p) pc)) = key"
    using l1(4,5) by (cases pc) (simp_all add: ice_integrity_key_def assms(9) pt_on_pt touch_def session_def)
  have resp: "build_binding_response (hmac_sha1 e) (crc32 e) tid remote key =
      Some (stun_packet BINDING_RESPONSE tid (response_attrs (hmac_sha1 e) (crc32 e) tid remote key))"
    by (rule build_binding_response_eq) (use assms(2,3) in auto)
  have seen: "last_seen (pt ?s2 p) = now" using l1(4) by (simp add: pt_on_pt touch_def)
  have cand: "has_use_candidate msg \<longleftrightarrow> List.find (\<lambda>a. attr_type a = ATTR_USE_CANDIDATE) ?as \<noteq> None"
    by (simp add: has_use_candidate_def get_attr_def fl)
  define w3 s3 where w3: "w3 = (\<lambda>b. fst (start_dtls_handshake remote p pc (w, snd (send_to e remote b ?s2))))"
    and s3: "s3 = (\<lambda>b. snd (start_dtls_handshake remote p pc (w, snd (send_to e remote b ?s2))))"
  have d: "start_dtls_handshake remote p pc (w, snd (send_to e remote b ?s2)) = (w3 b, s3 b)" for b
    by (simp add: w3 s3)
  have D: "hub (s3 b) = hub ?s2" "out (s3 b) = out s @ [UdpSend remote b, SpawnDtls remote p pc (length (channels s))]" for b
    using l1(2,3) by (auto simp: s3 start_dtls_handshake_def demux_new_def send_to_def)
  have D': "pt (s3 b) p = pt ?s2 p" for b using D(1) by (simp add: pt_def)
  have "handle_stun e now (stun_packet BINDING_REQUEST tid ?as) remote w s =
      Some (if hmac_sha1 e (signed_part BINDING_REQUEST tid as) key \<noteq> attr_value mi then (w, ?s2)
        else let b = stun_packet BINDING_RESPONSE tid (response_attrs (hmac_sha1 e) (crc32 e) tid remote key)
          in if has_use_candidate msg \<and> dtls_map w remote = None then (w3 b, s3 b) else (w, snd (send_to e remote b ?s2)))"
    using d by (simp add: handle_stun_def parse fl u l Let_def pwd verify resp dtls_has_def)
  then show ?thesis using l1(1,2,3) seen
    by (simp add: cand D D' Let_def find_by_addr_heap send_to_def)
qed

text \<open>
  C22: binding requests at the worker. For a binding request whose USERNAME begins with the
  fragment of a registered session, the session is latched to the sender and its
  participant counts as alive, whatever the MESSAGE-INTEGRITY is: from then on the media
  path attributes the sender's packets to this session. Only a request whose integrity
  value is the HMAC under the password of the session is answered, with the binding
  response for the sender; and only such a request with USE-CANDIDATE starts a handshake,
  if the worker has no session for the sender yet.
\<close>

theorem stun_binding_spec:
  fixes e :: "'c env" and s :: "'c app"
  assumes "state_ok s" and "length tid = 12" and "\<forall>d k. length (hmac_sha1 e d k) = 20"
    and "sane_attrs (as @ mi # rest)" and "attr_type mi = ATTR_MESSAGE_INTEGRITY"
    and "\<forall>a \<in> set as. attr_type a \<noteq> ATTR_MESSAGE_INTEGRITY"
    and "server_fragment (as @ mi # rest) = Some uf" and "find_by_ufrag (hub s) uf = Some (p, pc, rid)"
    and "key = bytes_of (ms_ice_pwd (session (pt s p) pc))"
  shows "\<exists>w' s'. handle_stun e now (stun_packet BINDING_REQUEST tid (as @ mi # rest)) remote w s = Some (w', s') \<and>
    find_by_addr (hub s') remote = Some (p, pc, rid) \<and> last_seen (pt s' p) = now \<and>
    out s' = out s @
      (if hmac_sha1 e (signed_part BINDING_REQUEST tid as) key = attr_value mi
       then UdpSend remote (stun_packet BINDING_RESPONSE tid (response_attrs (hmac_sha1 e) (crc32 e) tid remote key)) #
         (if List.find (\<lambda>a. attr_type a = ATTR_USE_CANDIDATE) (as @ mi # rest) \<noteq> None \<and> dtls_map w remote = None
          then [SpawnDtls remote p pc (length (channels s))] else [])
       else [])"
  using stun_binding_outcome [OF assms, of now remote w] by blast

text \<open>A room whose first member is known by its publish fragment.\<close>

definition demo_ufrag_app :: "nat app" where
  "demo_ufrag_app =
     (let s = set_room ''r'' ((demo_room Conference Idle)\<lparr>by_ufrag := [''ap'' \<mapsto> (0, Publish)]\<rparr>) (demo_app Conference Idle)
      in s\<lparr>hub := (hub s)\<lparr>ufrag_index := [''ap'' \<mapsto> ''r'']\<rparr>\<rparr>)"

lemma good_index: "good_step s (s\<lparr>hub := (hub s)\<lparr>ufrag_index := x\<rparr>\<rparr>)"
proof -
  have "log_ok s \<Longrightarrow> log_ok (s\<lparr>hub := (hub s)\<lparr>ufrag_index := x\<rparr>\<rparr>)"
    by (rule log_ok_plain [where es = "[]"]) (auto simp: pt_def)
  then show ?thesis by (simp add: good_step_def state_ok_def app_ok_def pt_def room_of_def)
qed

lemma demo_ufrag_ok: "state_ok demo_ufrag_app"
proof -
  let ?r = "(demo_room Conference Idle)\<lparr>by_ufrag := [''ap'' \<mapsto> (0, Publish)]\<rparr>"
  have "room_ok (heap (hub (demo_app Conference Idle))) ''r'' ?r"
    using app_okD(4) [OF demo_app_ok demo_room_of, of Conference Idle]
    by (auto simp: room_ok_def) (auto simp: demo_app_defs participant_new_def session_def)
  moreover have "floor_synced ?r"
    using app_okD(3) [OF demo_app_ok demo_room_of, of Conference Idle] by (simp add: floor_synced_def)
  ultimately have "good_step (demo_app Conference Idle) (set_room ''r'' ?r (demo_app Conference Idle))"
    by (intro good_set_room)
  then show ?thesis unfolding demo_ufrag_app_def Let_def
    using good_stepD(1) good_index by (metis demo_state_ok)
qed

theorem stun_binding_spec_witness:
  "\<exists>as mi rest w' s'. handle_stun demo_env 9 (stun_packet BINDING_REQUEST (replicate 12 1) (as @ mi # rest)) (V4 9 9)
       (worker_new 0 Twcc 500000) demo_ufrag_app = Some (w', s') \<and>
     find_by_addr (hub s') (V4 9 9) = Some (0, Publish, ''r'') \<and> SpawnDtls (V4 9 9) 0 Publish 0 \<in> set (out s')"
proof -
  let ?u = "\<lparr>attr_type = ATTR_USERNAME, attr_value = [97, 112, 58, 99]\<rparr>"
  let ?mi = "\<lparr>attr_type = ATTR_MESSAGE_INTEGRITY, attr_value = replicate 20 0\<rparr>"
  let ?uc = "\<lparr>attr_type = ATTR_USE_CANDIDATE, attr_value = []\<rparr>"
  have "str_of [97, 112, 58, 99] = ''ap:c''" by code_simp
  then have u: "server_fragment ([?u] @ ?mi # [?uc]) = Some ''ap''"
    by (simp add: server_fragment_def between_def config_defs)
  have f: "find_by_ufrag (hub demo_ufrag_app) ''ap'' = Some (0, Publish, ''r'')"
    by (simp add: find_by_ufrag_def get_by_ufrag_def demo_ufrag_app_def Let_def put_room_def demo_app_def)
  have h: "sane_attrs ([?u] @ ?mi # [?uc])" "length (replicate 12 (1 :: u8)) = 12"
    "\<forall>d k. length (hmac_sha1 demo_env d k) = 20" "attr_type ?mi = ATTR_MESSAGE_INTEGRITY"
    "\<forall>a \<in> set [?u]. attr_type a \<noteq> ATTR_MESSAGE_INTEGRITY"
    by (simp_all add: sane_attrs_def length_encode_attr align4_eq demo_env_def config_defs)
  have c: "channels demo_ufrag_app = []" "hmac_sha1 demo_env d k = replicate 20 0" for d k
    by (simp_all add: demo_ufrag_app_def Let_def demo_app_def demo_env_def)
  have w: "dtls_map (worker_new 0 Twcc 500000) (V4 9 9) = None" by (simp add: worker_new_def)
  have uc: "List.find (\<lambda>a. attr_type a = ATTR_USE_CANDIDATE) ([?u] @ ?mi # [?uc]) \<noteq> None"
    by (simp add: config_defs)
  show ?thesis
    using stun_binding_spec [OF demo_ufrag_ok h(2,3,1,4,5) u f refl, of 9 "V4 9 9" "worker_new 0 Twcc 500000"] c w uc
    by (intro exI [of _ "[?u]"] exI [of _ ?mi] exI [of _ "[?uc]"]) fastforce
qed

section \<open>Delivery to the DTLS task\<close>

fun dtls_feed :: "bytes list \<Rightarrow> sockaddr \<Rightarrow> worker \<Rightarrow> 'c app \<Rightarrow> (worker \<times> 'c app) turn" where
  "dtls_feed [] remote w s = Finished (w, s)"
| "dtls_feed (d1 # ds) remote w s =
     (case handle_dtls d1 remote w s of Finished (w, s) \<Rightarrow> dtls_feed ds remote w s | t \<Rightarrow> t)"

fun demux_reads :: "nat \<Rightarrow> nat \<Rightarrow> dtls_channel \<Rightarrow> bytes list" where
  "demux_reads 0 len c = []"
| "demux_reads (Suc n) len c =
     (case demux_recv True len c of Some (Inr x, c) \<Rightarrow> x # demux_reads n len c | _ \<Rightarrow> [])"

lemma demux_reads_all: "demux_reads (length (chan_queue c)) len c = map (take len) (chan_queue c)"
proof (induction "chan_queue c" arbitrary: c)
  case (Cons x xs)
  have "demux_reads (length xs) len (c\<lparr>chan_queue := xs\<rparr>) = map (take len) xs"
    using Cons(1) [of "c\<lparr>chan_queue := xs\<rparr>"] by simp
  then show ?case unfolding Cons(2) [symmetric] by (cases "length x \<le> len") (simp_all add: demux_recv_def Cons(2) [symmetric] min_def)
qed simp

lemma handle_dtls_room:
  assumes "worker_ok w s" and "dtls_map w remote = Some c" and "chan_open (channels s ! c)"
    and "length (chan_queue (channels s ! c)) < DTLS_CHANNEL_SIZE"
  shows "handle_dtls data remote w s =
    Finished (w, on_channel c (\<lambda>_. (channels s ! c)\<lparr>chan_queue := chan_queue (channels s ! c) @ [data]\<rparr>) s)"
  using assms by (simp add: handle_dtls_def dtls_inject_def chan_send_def)

text \<open>
  C25: the DTLS task gets the packets of its peer in order. While the session of an address
  is open and its channel has room, the packets from this address are queued and nothing
  else happens: no second handshake, no lookup, no output. What the task then reads are
  these packets, behind those that waited already, in the order of arrival, each cut to
  the buffer it reads into.
\<close>

theorem dtls_in_order:
  assumes "worker_ok w s" and "dtls_map w remote = Some c" and "chan_open (channels s ! c)"
    and "length (chan_queue (channels s ! c)) + length ds \<le> DTLS_CHANNEL_SIZE"
  shows "\<exists>s'. dtls_feed ds remote w s = Finished (w, s') \<and> hub s' = hub s \<and> out s' = out s \<and>
    demux_reads (length (chan_queue (channels s ! c)) + length ds) len (channels s' ! c) =
      map (take len) (chan_queue (channels s ! c) @ ds)"
  using assms
proof (induction ds arbitrary: s)
  case Nil
  then show ?case using demux_reads_all [of "channels s ! c" len] by simp
next
  case (Cons x ds)
  let ?s = "on_channel c (\<lambda>_. (channels s ! c)\<lparr>chan_queue := chan_queue (channels s ! c) @ [x]\<rparr>) s"
  have c: "c < length (channels s)" using Cons.prems(1,2) by (simp add: worker_ok_def)
  have ch: "channels ?s ! c = (channels s ! c)\<lparr>chan_queue := chan_queue (channels s ! c) @ [x]\<rparr>"
    using c by (simp add: on_channel_def)
  have "handle_dtls x remote w s = Finished (w, ?s)"
    by (rule handle_dtls_room) (use Cons.prems in auto)
  moreover have "hub ?s = hub s" "out ?s = out s" by (simp_all add: on_channel_def)
  moreover have "worker_ok w ?s" using Cons.prems(1) by (simp add: worker_ok_def on_channel_def)
  then have "\<exists>s'. dtls_feed ds remote w ?s = Finished (w, s') \<and> hub s' = hub ?s \<and> out s' = out ?s \<and>
      demux_reads (length (chan_queue (channels ?s ! c)) + length ds) len (channels s' ! c) =
        map (take len) (chan_queue (channels ?s ! c) @ ds)"
    by (rule Cons.IH) (use Cons.prems ch in auto)
  ultimately show ?case using ch by auto
qed

theorem dtls_in_order_witness:
  "\<exists>s'. dtls_feed [[22, 1], [22, 2, 3]] (V4 1 0) ((worker_new 0 Twcc 0)\<lparr>dtls_map := [V4 1 0 \<mapsto> 0]\<rparr>)
       ((app_new :: nat app)\<lparr>channels := [\<lparr>chan_queue = [[21]], chan_open = True\<rparr>]\<rparr>) =
     Finished ((worker_new 0 Twcc 0)\<lparr>dtls_map := [V4 1 0 \<mapsto> 0]\<rparr>, s') \<and>
     demux_reads 3 2 (channels s' ! 0) = [[21], [22, 1], [22, 2]]"
proof -
  let ?w = "(worker_new 0 Twcc 0)\<lparr>dtls_map := [V4 1 0 \<mapsto> 0]\<rparr>"
  let ?s = "(app_new :: nat app)\<lparr>channels := [\<lparr>chan_queue = [[21]], chan_open = True\<rparr>]\<rparr>"
  let ?ds = "[[22, 1], [22, 2, 3]] :: bytes list"
  have "\<exists>s'. dtls_feed ?ds (V4 1 0) ?w ?s = Finished (?w, s') \<and> hub s' = hub ?s \<and> out s' = out ?s \<and>
      demux_reads (length (chan_queue (channels ?s ! 0)) + length ?ds) 2 (channels s' ! 0) =
        map (take 2) (chan_queue (channels ?s ! 0) @ ?ds)"
    by (rule dtls_in_order) (simp_all add: worker_ok_def DTLS_CHANNEL_SIZE_def)
  moreover have "length (chan_queue (channels ?s ! 0)) + length ?ds = 3"
    "map (take 2) (chan_queue (channels ?s ! 0) @ ?ds) = [[21], [22, 1], [22, 2]]" by simp_all
  ultimately show ?thesis by metis
qed

section \<open>A finished handshake\<close>

lemma send_pli_self:
  "p_user_id (pt s p) = u \<Longrightarrow> pt (fold (send_pli_to e u) ps s) p = pt s p"
proof (induction ps arbitrary: s)
  case (Cons q ps)
  have "pt (send_pli_to e u q s) p = pt s p"
    using Cons.prems send_pli_to_out(2) [of p q e u s] by (cases "q = p") (auto simp: send_pli_to_def)
  then show ?case using Cons by simp
qed simp

definition pli_round :: "'c env \<Rightarrow> 'c app \<Rightarrow> pref \<Rightarrow> effect list" where
  "pli_round e s p =
     (case room_of s (p_room_id (pt s p)) of
        None \<Rightarrow> []
      | Some r \<Rightarrow> List.map_filter (pli_datagram e s (p_user_id (pt s p))) (map snd (participants r)))"

lemma pli_round_other:
  assumes "\<And>q. q \<noteq> p \<Longrightarrow> pt s' q = pt s q" and "p_user_id (pt s' p) = p_user_id (pt s p)"
    and "p_room_id (pt s' p) = p_room_id (pt s p)" and "\<And>rid. room_of s' rid = room_of s rid"
  shows "pli_round e s' p = pli_round e s p"
proof -
  have "pli_datagram e s' (p_user_id (pt s p)) q = pli_datagram e s (p_user_id (pt s p)) q" for q
  proof (cases "q = p")
    case False
    show ?thesis unfolding pli_datagram_def feedback_target_def assms(1) [OF False] ..
  qed (simp add: pli_datagram_def assms(2))
  then show ?thesis unfolding pli_round_def assms(2-4) by presburger
qed

lemma round_sent:
  fixes e :: "'c env" and p
  assumes ok: "state_ok s"
  defines "s' \<equiv> (case hub_get (hub s) (p_room_id (pt s p)) of
      Inr r \<Rightarrow> send_pli_to_publishers e r (p_user_id (pt s p)) s | Inl _ \<Rightarrow> s)"
  shows "state_ok s' \<and> pt s' p = pt s p \<and> out s' = out s @ pli_round e s p"
proof (cases "room_of s (p_room_id (pt s p))")
  case None
  then show ?thesis using ok by (simp add: s'_def hub_get_def room_of_def pli_round_def)
next
  case (Some r)
  then have "s' = send_pli_to_publishers e r (p_user_id (pt s p)) s" by (simp add: s'_def hub_get_def room_of_def)
  moreover have "distinct (map snd (participants r))"
    using room_prefs_distinct [OF app_okD(4) [OF state_okD(1) [OF ok] Some]] .
  ultimately show ?thesis
    using good_stepD(1) [OF good_media [OF send_pli_step] ok] send_pli_self [of s p "p_user_id (pt s p)" e] Some
    by (auto simp: pli_round_def send_pli_to_publishers_def send_pli_fold)
qed

lemma spawn_egress_pt:
  assumes "p < length (heap (hub s))"
  shows "pt (spawn_egress p s) q = (if q = p then (pt s p)\<lparr>egress_rx_taken := True\<rparr> else pt s q)"
proof (cases "egress_rx_taken (pt s p)")
  case True
  then have "(pt s p)\<lparr>egress_rx_taken := True\<rparr> = pt s p" by (cases "pt s p") simp
  then show ?thesis using True by (simp add: spawn_egress_def)
qed (use assms in \<open>simp add: spawn_egress_def pt_on_pt\<close>)

text \<open>
  C24: a finished handshake. Failures, the timeout and an exporter error change nothing. When
  the exporter gives its 60 bytes and both contexts can be made, the session has the
  client's keys for receiving and the server's for sending, in the layout of RFC 5764; a
  publish session sends nothing; for a subscribe session the egress task is started the
  first time, never again, and the other publishers of the room are asked for a keyframe.
\<close>

theorem handshake_spec:
  assumes "state_ok s" and "p < length (heap (hub s))" and "length material = SRTP_KEY_MATERIAL_LEN"
    and "ctx_new (srtp e) (take 16 material) (take 14 (drop 32 material)) = Some ci"
    and "ctx_new (srtp e) (take 16 (drop 16 material)) (drop 46 material) = Some co"
  shows "handshake_done e HandshakeFailed p pc s = Some s \<and> handshake_done e HandshakeTimeout p pc s = Some s \<and>
    handshake_done e (HandshakeOk (Inl err)) p pc s = Some s \<and>
    (\<exists>s'. handshake_done e (HandshakeOk (Inr material)) p pc s = Some s' \<and> state_ok s' \<and>
      inbound_srtp (session (pt s' p) pc) = Some ci \<and> outbound_srtp (session (pt s' p) pc) = Some co \<and>
      out s' = out s @ (if pc = Subscribe
        then (if egress_rx_taken (pt s p) then [] else [SpawnEgress p]) @ pli_round e s p else []))"
proof -
  let ?k = "\<lambda>ms. ms\<lparr>inbound_srtp := Some ci, outbound_srtp := Some co\<rparr>"
  have keys: "\<exists>k. export_srtp_keys material = Some k \<and>
      (\<forall>ms. install_srtp_keys (srtp e) ms (client_key k) (client_salt k) (server_key k) (server_salt k) = ?k ms)"
    using assms(3-5) by (simp add: export_srtp_keys_def config_defs install_srtp_keys_def install_key_def)
  let ?s1 = "on_pt p (map_session pc ?k) s"
  let ?s2 = "spawn_egress p ?s1"
  let ?u = "p_user_id (pt s p)" and ?rid = "p_room_id (pt s p)"
  have ok: "state_ok ?s1" by (rule good_stepD(1) [OF good_session assms(1)]) simp_all
  have ok2: "state_ok ?s2" by (rule good_stepD(1) [OF spawn_egress_good ok]) (use assms(2) in simp)
  have p2: "pt ?s2 q = (if q = p then (map_session pc ?k (pt s p))\<lparr>egress_rx_taken := True\<rparr> else pt s q)" for q
    using spawn_egress_pt [of p ?s1 q] assms(2) by (simp add: pt_on_pt)
  have id: "p_user_id (pt ?s2 p) = ?u" "p_room_id (pt ?s2 p) = ?rid" unfolding p2 by (cases pc; simp add: map_session_def)+
  have rm: "room_of ?s2 rid = room_of s rid" for rid by (simp add: spawn_egress_def)
  have rnd: "pli_round e ?s2 p = pli_round e s p"
    by (rule pli_round_other) (use id rm in \<open>simp_all add: p2\<close>)
  have o2: "out ?s2 = out s @ (if egress_rx_taken (pt s p) then [] else [SpawnEgress p])"
    using assms(2) by (cases pc) (simp_all add: spawn_egress_def pt_on_pt map_session_def)
  define s3 where "s3 = (case hub_get (hub ?s2) ?rid of Inr r \<Rightarrow> send_pli_to_publishers e r ?u ?s2 | Inl _ \<Rightarrow> ?s2)"
  have s3: "state_ok s3 \<and> pt s3 p = pt ?s2 p \<and> out s3 = out ?s2 @ pli_round e ?s2 p"
    using round_sent [OF ok2, of e p] unfolding id s3_def .
  obtain k where k: "export_srtp_keys material = Some k"
      "(\<lambda>ms. install_srtp_keys (srtp e) ms (client_key k) (client_salt k) (server_key k) (server_salt k)) = ?k"
    using keys by blast
  have h: "handshake_done e (HandshakeOk (Inr material)) p pc s = Some (if pc = Subscribe then s3 else ?s1)"
    unfolding handshake_done_def handshake.case sum.case k Option.bind.simps Let_def id s3_def ..
  define s' where "s' = (if pc = Subscribe then s3 else ?s1)"
  then have s': "handshake_done e (HandshakeOk (Inr material)) p pc s = Some s'"
    "pc = Subscribe \<Longrightarrow> s' = s3" "pc = Publish \<Longrightarrow> s' = ?s1"
    using h by simp_all
  have "state_ok s' \<and> inbound_srtp (session (pt s' p) pc) = Some ci \<and> outbound_srtp (session (pt s' p) pc) = Some co \<and>
      out s' = out s @ (if pc = Subscribe
        then (if egress_rx_taken (pt s p) then [] else [SpawnEgress p]) @ pli_round e s p else [])"
  proof (cases pc)
    case Publish
    then show ?thesis using ok assms(2) unfolding s'(3) [OF Publish]
      by (simp add: pt_on_pt session_map_session)
  next
    case Subscribe
    have "session (pt s3 p) Subscribe = ?k (subscribe (pt s p))"
      unfolding conjunct1 [OF conjunct2 [OF s3]] p2 unfolding Subscribe by (simp add: session_def map_session_def)
    then show ?thesis unfolding s'(2) [OF Subscribe] using s3 o2 rnd Subscribe by simp
  qed
  then show ?thesis using s'(1) by (simp add: handshake_done_def)
qed

theorem handshake_spec_witness:
  "\<exists>s'. handshake_done demo_env (HandshakeOk (Inr (replicate 60 1))) 1 Subscribe (demo_app Conference Idle) = Some s' \<and>
     out s' = [SpawnEgress 1, UdpSend (V4 1 0) (build_pli 100)]"
proof -
  let ?s = "demo_app Conference Idle"
  have ctx: "ctx_new (srtp demo_env) k x = Some 0" for k x by (simp add: demo_env_def)
  have p: "pt ?s 0 = demo_member ''a'' 0" "pt ?s 1 = demo_member ''b'' 1"
    by (simp_all add: demo_app_def pt_def deref_def)
  have "pli_datagram demo_env ?s ''b'' 0 = Some (UdpSend (V4 1 0) (build_pli 100))"
    by (simp add: pli_datagram_def p feedback_target_def demo_member_def participant_new_def is_publish_ready_def
        is_media_ready_def is_ready_def first_ssrc_of_kind_def demo_env_def encrypt_rtcp_def map_err_def)
  moreover have "pli_datagram demo_env ?s ''b'' 1 = None"
    by (simp add: pli_datagram_def p [unfolded One_nat_def] demo_member_def participant_new_def)
  moreover have "participants (demo_room Conference Idle) = [(''a'', 0), (''b'', 1)]"
    by (simp add: demo_room_def)
  moreover have id: "p_user_id (pt ?s 1) = ''b''" "p_room_id (pt ?s 1) = ''r''" "\<not> egress_rx_taken (pt ?s 1)" "out ?s = []"
    by (simp_all only: p) (simp_all add: demo_member_def participant_new_def demo_app_def)
  ultimately have r: "pli_round demo_env ?s 1 = [UdpSend (V4 1 0) (build_pli 100)]"
    by (simp add: pli_round_def demo_room_of List.map_filter_simps del: One_nat_def)
  have "1 < length (heap (hub ?s))" "state_ok ?s" by (simp_all add: demo_app_def [symmetric])
     (simp add: demo_app_def)
  then show ?thesis
    using handshake_spec [of ?s 1 "replicate 60 1" demo_env 0 0 Subscribe "''x''"] ctx r id
    by (auto simp: config_defs simp del: One_nat_def)
qed

end
