(* ===== verification/Signaling_Spec.thy ===== *)
theory Signaling_Spec
  imports Readers Udp
begin

text \<open>
  What the signaling handlers promise: answers and authentication, joining and leaving,
  who gets which event, and the floor as the clients see it.
\<close>

section \<open>Answers\<close>

definition replies :: "u16 \<Rightarrow> packet \<Rightarrow> packet \<Rightarrow> bool" where
  "replies code x r \<longleftrightarrow> op r = code \<and> pid r = pid x \<and> ok r \<noteq> None"

lemma replies_simps [simp]:
  "replies code x (packet_ok code (pid x) j)" "replies code x (packet_err code (pid x) n m)"
  by (simp_all add: replies_def packet_ok_def packet_err_def)

lemma replies_floor: "replies code x (fst (apply_floor_action e code (pid x) action r uid s))"
  by (cases action) (simp_all add: apply_floor_action_def)

lemma replies_handlers:
  "replies IDENTIFY x (fst (handle_identify dec fr x ss))"
  "replies ROOM_LIST x (handle_room_list x s)"
  "replies ROOM_CREATE x (fst (handle_room_create dec fr x s))"
  by (simp_all add: handle_identify_def handle_room_list_def handle_room_create_def Let_def
      split: option.split prod.split)

lemma replies_handler_options:
  "handle_publish_tracks e dec x ss s = Some (r, s') \<Longrightarrow> replies PUBLISH_TRACKS x r"
  "handle_mute_update e dec x ss s = Some (r, s') \<Longrightarrow> replies MUTE_UPDATE x r"
  "handle_message e dec fr x ss s = Some (r, s') \<Longrightarrow> replies MESSAGE x r"
  "handle_floor_ping dec fr x ss s = Some (r, s') \<Longrightarrow> replies FLOOR_PING x r"
  by (cases "su_user ss"; auto simp: handle_publish_tracks_def handle_mute_update_def handle_message_def
      handle_floor_ping_def Let_def split: option.split_asm prod.split_asm sum.split_asm if_split_asm floor_action.split_asm)+

lemma replies_floor_request:
  "handle_floor_request e dec fr x ss s = Some (r, s') \<Longrightarrow> replies FLOOR_REQUEST x r"
proof -
  assume h: "handle_floor_request e dec fr x ss s = Some (r, s')"
  have "apply_floor_action e FLOOR_REQUEST (pid x) a q u t = (r, t') \<Longrightarrow> replies FLOOR_REQUEST x r" for a q u and t t' :: "'a app"
    using replies_floor [of FLOOR_REQUEST x e a q u t] by simp
  then show ?thesis using h
    by (cases "su_user ss") (auto simp: handle_floor_request_def Let_def split: option.split_asm prod.split_asm sum.split_asm if_split_asm)
qed

lemma replies_floor_release:
  "handle_floor_release e dec x ss s = Some (r, s') \<Longrightarrow> replies FLOOR_RELEASE x r"
proof -
  assume h: "handle_floor_release e dec x ss s = Some (r, s')"
  have "apply_floor_action e FLOOR_RELEASE (pid x) a q u t = (r, t') \<Longrightarrow> replies FLOOR_RELEASE x r" for a q u and t t' :: "'a app"
    using replies_floor [of FLOOR_RELEASE x e a q u t] by simp
  then show ?thesis using h
    by (cases "su_user ss") (auto simp: handle_floor_release_def Let_def split: option.split_asm prod.split_asm sum.split_asm if_split_asm)
qed

lemma replies_room_join:
  "handle_room_join e sv dec fr x ss s = Some (r, z) \<Longrightarrow> replies ROOM_JOIN x r"
  by (cases "su_user ss") (auto simp: handle_room_join_def Let_def bind_eq_Some_conv split: option.split_asm prod.split_asm sum.split_asm if_split_asm)

lemma replies_room_leave:
  "handle_room_leave e dec x ss s = Some (r, z) \<Longrightarrow> replies ROOM_LEAVE x r"
  by (cases "su_user ss") (auto simp: handle_room_leave_def Let_def split: option.split_asm prod.split_asm sum.split_asm if_split_asm)

definition answered :: "packet \<Rightarrow> (packet option \<times> 'b) option \<Rightarrow> bool" where
  "answered x y \<longleftrightarrow> (\<forall>r z. y = Some (r, z) \<longrightarrow> (case r of Some r \<Rightarrow> replies (op x) x r | None \<Rightarrow> op x = TELEMETRY))"

lemma answered_intros:
  "replies (op x) x r \<Longrightarrow> answered x (Some (Some r, z))"
  "op x = TELEMETRY \<Longrightarrow> answered x (Some (None, z))"
  "(\<And>r s'. y = Some (r, s') \<Longrightarrow> replies (op x) x r) \<Longrightarrow> answered x (keep_session ss y)"
  "(\<And>r ss'. u = Some (r, ss') \<Longrightarrow> replies (op x) x r) \<Longrightarrow> answered x (map_option (apfst Some) u)"
  "(c \<Longrightarrow> answered x v) \<Longrightarrow> (\<not> c \<Longrightarrow> answered x w) \<Longrightarrow> answered x (if c then v else w)"
  by (auto simp: answered_def keep_session_def)

lemma dispatch_answered: "\<not> is_response x \<Longrightarrow> answered x (dispatch e sv dec fr x ss s)"
proof -
  assume n: "\<not> is_response x"
  have id: "op x = IDENTIFY \<Longrightarrow> answered x (case handle_identify dec fr x ss of (resp, ss) \<Rightarrow> Some (Some resp, ss, s))"
    using replies_handlers(1) [of x dec fr ss] by (auto simp: answered_def split: prod.splits)
  have c: "op x = ROOM_CREATE \<Longrightarrow> answered x (case handle_room_create dec fr x s of (resp, s) \<Rightarrow> Some (Some resp, ss, s))"
    using replies_handlers(3) [of x dec fr s] by (auto simp: answered_def split: prod.splits)
  show ?thesis unfolding dispatch_def if_not_P [OF n]
    by (intro answered_intros(5) id c)
       (auto intro!: answered_intros(1-4) simp: replies_handlers
          dest: replies_handler_options replies_floor_request replies_floor_release replies_room_join replies_room_leave)
qed

text \<open>
  C13: every request gets its answer. The dispatcher never panics. An acknowledgement gets no answer
  and changes nothing but the session. Telemetry of an identified connection gets no answer.
  Every other packet, telemetry before the connection is identified included, gets exactly
  one, a response with the opcode and the packet identifier of the request, whatever the state.
\<close>

theorem every_request_answered:
  "\<exists>resp ss' s'. dispatch e sv dec fr x ss s = Some (resp, ss', s') \<and>
     (if is_response x then resp = None \<and> s' = s
      else if op x = TELEMETRY \<and> su_user ss \<noteq> None then resp = None
      else \<exists>r. resp = Some r \<and> op r = op x \<and> pid r = pid x \<and> is_response r)"
proof -
  obtain resp ss' s' where D: "dispatch e sv dec fr x ss s = Some (resp, ss', s')" using dispatch_good by blast
  show ?thesis
  proof (cases "is_response x")
    case True
    then show ?thesis by (simp add: dispatch_def)
  next
    case False
    have silent: "resp = None" if "op x = TELEMETRY" "su_user ss \<noteq> None"
      using D False that by (simp add: dispatch_def is_authenticated_def opcode_defs)
    have refused: "resp \<noteq> None" if "op x = TELEMETRY" "su_user ss = None"
      using D False that by (auto simp: dispatch_def is_authenticated_def opcode_defs)
    show ?thesis using dispatch_answered [OF False, of e sv dec fr ss s] D silent refused False
      by (auto simp: answered_def replies_def is_response_def split: option.splits)
  qed
qed

text \<open>
  C19: nothing without a name. Until a connection has identified itself, no packet it sends
  changes the shared state or reaches anybody: everything but a heartbeat, an identify
  request and acknowledgements is answered with error 1001.
\<close>

theorem unauthenticated_inert:
  assumes "su_user ss = None"
  shows "\<exists>resp ss'. dispatch e sv dec fr x ss s = Some (resp, ss', s) \<and>
    (\<not> is_response x \<and> op x \<notin> {HEARTBEAT, IDENTIFY} \<longrightarrow>
       resp = Some (packet_err (op x) (pid x) 1001 ''not authenticated'') \<and> ss' = ss)"
  using assms
  by (auto simp: dispatch_def is_authenticated_def heartbeat_touch_def opcode_defs split: prod.splits option.splits)

theorem unauthenticated_inert_witness:
  "\<forall>sv dec fr. dispatch demo_env sv dec fr \<lparr>op = ROOM_JOIN, pid = 7, ok = None, d = JNull\<rparr> (session_new 3) (demo_app Ptt Idle) =
     Some (Some (packet_err ROOM_JOIN 7 1001 ''not authenticated''), session_new 3, demo_app Ptt Idle)"
proof (intro allI)
  fix sv dec fr
  show "dispatch demo_env sv dec fr \<lparr>op = ROOM_JOIN, pid = 7, ok = None, d = JNull\<rparr> (session_new 3) (demo_app Ptt Idle) =
     Some (Some (packet_err ROOM_JOIN 7 1001 ''not authenticated''), session_new 3, demo_app Ptt Idle)"
    using unauthenticated_inert [of "session_new 3" demo_env sv dec fr "\<lparr>op = ROOM_JOIN, pid = 7, ok = None, d = JNull\<rparr>" "demo_app Ptt Idle"]
    by (auto simp: session_new_def is_response_def opcode_defs)
qed

section \<open>Joining\<close>

lemma update_append: "map_of xs k = None \<Longrightarrow> AList.update k v xs = xs @ [(k, v)]"
  by (induction xs) (auto split: if_splits)

lemma others_append: "map_of (participants r) u = None \<Longrightarrow> others u (r\<lparr>participants := participants r @ [(u, p)]\<rparr>) = participants r"
  by (force simp: others_def map_of_eq_None_iff intro!: filter_True)

lemma to_members_cong:
  "(\<And>u p. (u, p) \<in> set ps \<Longrightarrow> ws_tx (pt s' p) = ws_tx (pt s p)) \<Longrightarrow> to_members s' j ps = to_members s j ps"
  by (force simp: to_members_def)

lemma event_for_cong:
  "(\<And>u p. (u, p) \<in> set ps \<Longrightarrow> ws_tx (pt s' p) = ws_tx (pt s p)) \<Longrightarrow> event_for e s' x ps = event_for e s x ps"
  using to_members_cong [of ps s' s] by (simp add: event_for_def split: option.split)

lemma room_members:
  assumes "app_ok s" and "room_of s rid = Some r" and "(u, p) \<in> set (participants r)"
  shows "p < length (heap (hub s))" "p_user_id (pt s p) = u" "p_room_id (pt s p) = rid" "map_of (participants r) u = Some p"
proof -
  note D = room_okD [OF app_okD(4) [OF assms(1,2)]]
  show m: "map_of (participants r) u = Some p" using D(2) assms(3) by simp
  show "p < length (heap (hub s))" "p_user_id (pt s p) = u" "p_room_id (pt s p) = rid"
    using D(5-7) [OF m] by (simp_all add: pt_def)
qed

definition member_tracks :: "'c app \<Rightarrow> room \<Rightarrow> json list" where
  "member_tracks s r = concat (map (\<lambda>(u, p). map (track_json u) (tracks (pt s p))) (participants r))"

lemma seat_taken:
  fixes s :: "'c app"
  assumes r: "room_of s rid = Some r" and seat: "length (participants r) < r_capacity r" and new: "map_of (participants r) uid = None"
    and a: "on_hub (alloc_participant (participant_new uid rid pu pp su sp tx now)) s = (p, s1)"
  shows "\<exists>s2. on_hub (add_participant rid p) s1 = (Inr (), s2) \<and> out s2 = out s \<and>
    rooms (hub s2) = AList.update rid (r\<lparr>by_ufrag := (by_ufrag r)(pu \<mapsto> (p, Publish), su \<mapsto> (p, Subscribe)),
      participants := participants r @ [(uid, p)]\<rparr>) (rooms (hub s)) \<and>
    ufrag_index (hub s2) = (ufrag_index (hub s))(pu \<mapsto> rid, su \<mapsto> rid) \<and>
    (\<forall>q \<le> p. pt s2 q = (if q = p then participant_new uid rid pu pp su sp tx now else pt s q)) \<and> p = length (heap (hub s))"
proof -
  let ?new = "participant_new uid rid pu pp su sp tx now"
  have s1: "s1 = s\<lparr>hub := (hub s)\<lparr>heap := heap (hub s) @ [?new]\<rparr>\<rparr>" "p = length (heap (hub s))"
    using a by (auto simp: on_hub_def alloc_participant_def)
  have f: "p_user_id ?new = uid" "p_room_id ?new = rid" "ms_ufrag (publish ?new) = pu" "ms_ufrag (subscribe ?new) = su"
    by (simp_all add: participant_new_def media_session_new_def)
  let ?r' = "r\<lparr>by_ufrag := (by_ufrag r)(pu \<mapsto> (p, Publish), su \<mapsto> (p, Subscribe)), participants := participants r @ [(uid, p)]\<rparr>"
  have p1: "deref (heap (hub s1)) p = ?new" by (simp add: s1 deref_def)
  have r1: "map_of (rooms (hub s1)) rid = Some r" using r by (simp add: room_of_def s1(1))
  have add: "room_add_participant (heap (hub s1)) p r = (Inr (), ?r')"
    unfolding room_add_participant_def p1 f using seat new by (simp add: update_append)
  define s2 where "s2 = s1\<lparr>hub := (put_room rid ?r' (hub s1))\<lparr>ufrag_index := (ufrag_index (hub s1))(pu \<mapsto> rid, su \<mapsto> rid)\<rparr>\<rparr>"
  have "on_hub (add_participant rid p) s1 = (Inr (), s2)"
    unfolding on_hub_def add_participant_def hub_get_def r1 option.case sum.case add prod.case p1 f s2_def ..
  then show ?thesis
    by (intro exI [of _ s2]) (auto simp: s2_def s1 put_room_def pt_def deref_def nth_append)
qed

lemma snapshot_says [simp]: "build_rooms_snapshot (says es s) = build_rooms_snapshot s"
  by (simp add: build_rooms_snapshot_def snapshot_room_def)

text \<open>What the answer to a join tells of the room beside the members.\<close>

definition same_voice :: "room \<Rightarrow> room \<Rightarrow> bool" where
  "same_voice r r' \<longleftrightarrow> r_mode r' = r_mode r \<and> virtual_ssrc (audio_rewriter r') = virtual_ssrc (audio_rewriter r) \<and>
     virtual_ssrc (video_rewriter r') = virtual_ssrc (video_rewriter r)"

lemma join_outcome:
  fixes e :: "'c env" and s :: "'c app"
  assumes ok: "state_ok s" and u: "su_user ss = Some uid"
    and req: "dec_join dec (d x) = Some req" and r: "room_of s (rq_room_id req) = Some r"
    and seat: "length (participants r) < r_capacity r" and new: "map_of (participants r) uid = None"
    and pi: "pub = ice_credentials_new (fst (f_pub_ice fr)) (snd (f_pub_ice fr))"
    and si: "sub = ice_credentials_new (fst (f_sub_ice fr)) (snd (f_sub_ice fr))" and ne: "ufrag pub \<noteq> ufrag sub"
  shows "\<exists>ss' s' p r'. handle_room_join e sv dec fr x ss s =
      Some (packet_ok ROOM_JOIN (pid x) (join_response sv (rq_room_id req) r' pub sub (member_tracks s r)), ss', s') \<and>
    state_ok s' \<and> room_of s' (rq_room_id req) = Some r' \<and> participants r' = participants r @ [(uid, p)] \<and>
    (\<forall>rid v. member (hub s') rid v = (if rid = rq_room_id req \<and> v = uid then Some p else member (hub s) rid v)) \<and>
    find_by_ufrag (hub s') (ufrag pub) = Some (p, Publish, rq_room_id req) \<and>
    find_by_ufrag (hub s') (ufrag sub) = Some (p, Subscribe, rq_room_id req) \<and>
    pt s' p = participant_new uid (rq_room_id req) (ufrag pub) (pwd pub) (ufrag sub) (pwd sub) (su_tx ss) (f_now fr) \<and>
    su_room ss' = Some (rq_room_id req) \<and> same_voice r r' \<and>
    out s' = out s @ event_for e s (room_event ''participant_joined'' (rq_room_id req) uid) (participants r) @
      [AdminSend (json_string e (build_rooms_snapshot s'))]"
proof -
  let ?rid = "rq_room_id req"
  let ?new = "participant_new uid ?rid (ufrag pub) (pwd pub) (ufrag sub) (pwd sub) (su_tx ss) (f_now fr)"
  obtain p s1 where a: "on_hub (alloc_participant ?new) s = (p, s1)" by fastforce
  let ?r' = "r\<lparr>by_ufrag := (by_ufrag r)(ufrag pub \<mapsto> (p, Publish), ufrag sub \<mapsto> (p, Subscribe)),
      participants := participants r @ [(uid, p)]\<rparr>"
  obtain s2 where ad: "on_hub (add_participant ?rid p) s1 = (Inr (), s2)" and s2: "out s2 = out s"
      "rooms (hub s2) = (AList.update ?rid ?r' (rooms (hub s)))"
      "ufrag_index (hub s2) = (ufrag_index (hub s))(ufrag pub \<mapsto> ?rid, ufrag sub \<mapsto> ?rid)"
      "\<And>q. q \<le> p \<Longrightarrow> pt s2 q = (if q = p then ?new else pt s q)" "p = length (heap (hub s))"
    using seat_taken [OF r seat new a] by metis
  have r2: "room_of s2 ?rid = Some ?r'" by (simp add: room_of_def s2(2))
  note pt2 = s2(4)
  have old: "q < p" if "(v, q) \<in> set (participants r)" for v q
    using room_members(1) [OF state_okD(1) [OF ok] r that] s2(5) by simp
  have ev: "event_for e s2 y (others uid ?r') = event_for e s y (participants r)" for y
  proof -
    have "others uid ?r' = participants r"
      using others_append [OF new, of p] by (simp add: others_def)
    moreover have "event_for e s2 y (participants r) = event_for e s y (participants r)"
      using old pt2 by (intro event_for_cong) fastforce
    ultimately show ?thesis by simp
  qed
  have tr: "existing_tracks s2 ?r' uid = member_tracks s r"
  proof -
    have "other_participants ?r' uid = map snd (participants r)"
      using others_append [OF new, of p] by (simp add: other_participants_def others_def)
    moreover have "map (track_json (p_user_id (pt s2 q))) (get_tracks (pt s2 q)) = map (track_json v) (tracks (pt s q))"
      if "(v, q) \<in> set (participants r)" for v q
      using old [OF that] pt2 [of q] room_members(2) [OF state_okD(1) [OF ok] r that] by (simp add: get_tracks_def)
    ultimately show ?thesis by (auto simp: existing_tracks_def member_tracks_def intro!: arg_cong [of _ _ concat])
  qed
  define s3 where "s3 = push_admin_snapshot e (broadcast_to_others e ?r' uid (room_event ''participant_joined'' ?rid uid) s2)"
  define ss' where "ss' = ss\<lparr>su_room := Some ?rid, su_pub_ufrag := Some (ufrag pub), su_sub_ufrag := Some (ufrag sub)\<rparr>"
  have s3: "hub s3 = hub s2" "out s3 = out s2 @ event_for e s (room_event ''participant_joined'' ?rid uid) (participants r) @
      [AdminSend (json_string e (build_rooms_snapshot s3))]"
    by (simp_all add: s3_def push_admin_snapshot_def emit_says broadcast_others_says ev)
  have h: "handle_room_join e sv dec fr x ss s =
      Some (packet_ok ROOM_JOIN (pid x) (join_response sv ?rid ?r' pub sub (member_tracks s r)), ss', s3)"
    unfolding handle_room_join_def req option.case u Option.bind.simps hub_get_room r sum.case Let_def
      pi [symmetric] si [symmetric] a prod.case ad r2 tr s3_def ss'_def ..
  have "good_step s s3"
    using handle_room_join_good [OF u, of e sv dec fr x s] h by auto
  then have "state_ok s3" using good_stepD(1) ok by blast
  moreover have "member (hub s3) rid v = (if rid = ?rid \<and> v = uid then Some p else member (hub s) rid v)" for rid v
    using r new by (auto simp: member_def s3(1) s2(2) get_participant_def room_of_def map_add_def simp del: map_of_eq_Some_iff split: option.splits)
  moreover have "find_by_ufrag (hub s3) (ufrag pub) = Some (p, Publish, ?rid)"
    "find_by_ufrag (hub s3) (ufrag sub) = Some (p, Subscribe, ?rid)"
    using ne by (simp_all add: find_by_ufrag_def get_by_ufrag_def s3(1) s2(2,3))
  moreover have "pt s3 p = ?new" using pt2 [of p] by (simp add: pt_def s3(1))
  moreover have "room_of s3 ?rid = Some ?r'" using r2 by (simp add: room_of_def s3(1))
  moreover note s2(1)
  moreover have "same_voice r ?r'" by (simp add: same_voice_def)
  moreover have "su_room ss' = Some ?rid" "participants ?r' = participants r @ [(uid, p)]" by (simp_all add: ss'_def)
  ultimately show ?thesis using h s3(2)
    by (intro exI [of _ ss'] exI [of _ s3] exI [of _ p] exI [of _ ?r']) (simp only:, blast)
qed

text \<open>
  C16: joining a room. A named user who is not in the room yet and finds a free seat becomes
  a member under a fresh participant; nobody else's membership changes. A client reads in the
  answer the room, its mode and, in a push-to-talk room, the virtual SSRCs, the members with the new one
  at the end, the address, port and fingerprint of the server, the tracks of
  all others, and the credentials of the two sessions, by whose fragments the hub finds
  the new participant. Every other member gets exactly one event that says who joined, the
  session remembers the room, and the administrators get a snapshot of the state reached.
\<close>

theorem join_spec:
  fixes e :: "'c env" and s :: "'c app"
  assumes ok: "state_ok s" and u: "su_user ss = Some uid"
    and req: "dec_join dec (d x) = Some req" and r: "room_of s (rq_room_id req) = Some r"
    and seat: "length (participants r) < r_capacity r" and new: "map_of (participants r) uid = None"
    and pi: "pub = ice_credentials_new (fst (f_pub_ice fr)) (snd (f_pub_ice fr))"
    and si: "sub = ice_credentials_new (fst (f_sub_ice fr)) (snd (f_sub_ice fr))" and ne: "ufrag pub \<noteq> ufrag sub"
  shows "\<exists>resp ss' s' p r' ev. handle_room_join e sv dec fr x ss s = Some (resp, ss', s') \<and>
    op resp = ROOM_JOIN \<and> pid resp = pid x \<and> packet.ok resp = Some True \<and>
    read_join_answer (d resp) = Some
      \<lparr>ja_room = rq_room_id req, ja_mode = mode_name (r_mode r), ja_members = map fst (participants r) @ [uid],
       ja_publish = (ufrag pub, pwd pub), ja_subscribe = (ufrag sub, pwd sub),
       ja_address = (sv_public_ip sv, int (sv_udp_port sv)), ja_fingerprint = sv_fingerprint sv,
       ja_tracks = concat (map (\<lambda>(v, q). map (announced_of v) (tracks (pt s q))) (participants r)),
       ja_voice = (if r_mode r = Ptt then Some (virtual_ssrc (audio_rewriter r), virtual_ssrc (video_rewriter r)) else None)\<rparr> \<and>
    state_ok s' \<and> room_of s' (rq_room_id req) = Some r' \<and> participants r' = participants r @ [(uid, p)] \<and>
    (\<forall>rid v. member (hub s') rid v = (if rid = rq_room_id req \<and> v = uid then Some p else member (hub s) rid v)) \<and>
    find_by_ufrag (hub s') (ufrag pub) = Some (p, Publish, rq_room_id req) \<and>
    find_by_ufrag (hub s') (ufrag sub) = Some (p, Subscribe, rq_room_id req) \<and>
    pt s' p = participant_new uid (rq_room_id req) (ufrag pub) (pwd pub) (ufrag sub) (pwd sub) (su_tx ss) (f_now fr) \<and>
    su_room ss' = Some (rq_room_id req) \<and>
    op ev = ROOM_EVENT \<and> read_room_event (d ev) = Some (''participant_joined'', rq_room_id req, uid) \<and>
    out s' = out s @ event_for e s ev (participants r) @ [AdminSend (json_string e (build_rooms_snapshot s'))] \<and>
    read_snapshot (build_rooms_snapshot s') = Some (seen_rooms s')"
proof -
  let ?rid = "rq_room_id req" and ?ev = "room_event ''participant_joined'' (rq_room_id req) uid"
  let ?ts = "concat (map (\<lambda>(v, q). map (announced_of v) (tracks (pt s q))) (participants r))"
  obtain ss' s' p r' where J: "handle_room_join e sv dec fr x ss s =
      Some (packet_ok ROOM_JOIN (pid x) (join_response sv ?rid r' pub sub (member_tracks s r)), ss', s')"
    "participants r' = participants r @ [(uid, p)]" "same_voice r r'"
    and J': "state_ok s'" "room_of s' ?rid = Some r'"
    "\<forall>rid v. member (hub s') rid v = (if rid = ?rid \<and> v = uid then Some p else member (hub s) rid v)"
    "find_by_ufrag (hub s') (ufrag pub) = Some (p, Publish, ?rid)" "find_by_ufrag (hub s') (ufrag sub) = Some (p, Subscribe, ?rid)"
    "pt s' p = participant_new uid ?rid (ufrag pub) (pwd pub) (ufrag sub) (pwd sub) (su_tx ss) (f_now fr)"
    "su_room ss' = Some ?rid" "out s' = out s @ event_for e s ?ev (participants r) @ [AdminSend (json_string e (build_rooms_snapshot s'))]"
    using join_outcome [OF assms, of e sv] by blast
  let ?resp = "packet_ok ROOM_JOIN (pid x) (join_response sv ?rid r' pub sub (member_tracks s r))"
  have "those (map read_announced (member_tracks s r)) = Some ?ts"
    using those_concat [where xs = "participants r" and f = read_announced
      and g = "\<lambda>(v, q). map (track_json v) (tracks (pt s q))" and h = "\<lambda>(v, q). map (announced_of v) (tracks (pt s q))"] read_tracks
    by (simp add: member_tracks_def case_prod_beta)
  note read = read_join_response [OF this, of sv ?rid r' pub sub]
  have resp: "op ?resp = ROOM_JOIN" "pid ?resp = pid x" "packet.ok ?resp = Some True"
    "d ?resp = join_response sv ?rid r' pub sub (member_tracks s r)" by (simp_all add: packet_ok_def)
  have ev: "op ?ev = ROOM_EVENT" "read_room_event (d ?ev) = Some (''participant_joined'', ?rid, uid)"
    by (simp_all add: read_room_event_of opcode_defs)
  show ?thesis
    by (intro exI [of _ ?resp] exI [of _ ss'] exI [of _ s'] exI [of _ p] exI [of _ r'] exI [of _ ?ev] conjI J(1,2) J' resp(1-3) ev read_rooms_snapshot)
       (use read J(2,3) in \<open>simp add: resp(4) same_voice_def\<close>)
qed

text \<open>
  Decoders for the witnesses: they read the fields of an object, which is what the derived
  ones do.
\<close>

definition dec_room_field :: "json \<Rightarrow> room_request option" where
  "dec_room_field j = map_option (\<lambda>r. \<lparr>rq_room_id = r\<rparr>) (Option.bind (field ''room_id'' j) as_string)"

definition demo_dec :: decoders where
  "demo_dec = \<lparr>dec_packet = (\<lambda>txt. None),
     dec_identify = (\<lambda>j. Some \<lparr>id_token = [], id_user = Option.bind (field ''user_id'' j) as_string\<rparr>),
     dec_create = (\<lambda>j. map_option (\<lambda>n. \<lparr>cr_name = n, cr_capacity = None, cr_mode = None\<rparr>) (Option.bind (field ''name'' j) as_string)),
     dec_join = dec_room_field, dec_leave = dec_room_field, dec_publish = (\<lambda>j. Some []),
     dec_mute = (\<lambda>j. None),
     dec_message = (\<lambda>j. do { r \<leftarrow> Option.bind (field ''room_id'' j) as_string;
                           c \<leftarrow> Option.bind (field ''content'' j) as_string; Some \<lparr>mr_room_id = r, mr_content = c\<rparr> }),
     dec_floor_request = dec_room_field, dec_floor_release = dec_room_field, dec_floor_ping = dec_room_field\<rparr>"

definition demo_fresh :: fresh where
  "demo_fresh = \<lparr>f_now = 50, f_uuid = ''id'', f_rand = (1, 0), f_pub_ice = ([0, 1], [2]), f_sub_ice = ([1, 0], [3]), f_vssrc = (7, 8)\<rparr>"

definition demo_server :: server where
  "demo_server = \<lparr>sv_public_ip = ''ip'', sv_udp_port = 19740, sv_fingerprint = ''fp'', sv_bwe_mode = Twcc, sv_vars = Map.empty\<rparr>"

definition demo_session :: "string \<Rightarrow> nat \<Rightarrow> ws_session" where
  "demo_session u n = (session_new n)\<lparr>su_user := Some u, su_room := Some ''r''\<rparr>"

definition room_packet :: "u16 \<Rightarrow> string \<Rightarrow> packet" where
  "room_packet code rid = \<lparr>op = code, pid = 9, ok = None, d = JObj [(''room_id'', JStr rid)]\<rparr>"

lemma demo_dec_room [simp]:
  "dec_join demo_dec (d (room_packet code rid)) = Some \<lparr>rq_room_id = rid\<rparr>"
  "dec_leave demo_dec (d (room_packet code rid)) = Some \<lparr>rq_room_id = rid\<rparr>"
  "dec_floor_request demo_dec (d (room_packet code rid)) = Some \<lparr>rq_room_id = rid\<rparr>"
  "dec_floor_release demo_dec (d (room_packet code rid)) = Some \<lparr>rq_room_id = rid\<rparr>"
  by (simp_all add: demo_dec_def dec_room_field_def field_def as_string_def room_packet_def)

lemma demo_session_simps [simp]:
  "su_user (demo_session u n) = Some u" "su_room (demo_session u n) = Some ''r''" "su_tx (demo_session u n) = n"
  by (simp_all add: demo_session_def session_new_def)

lemma demo_room_simps [simp]:
  "participants (demo_room m f) = [(''a'', 0), (''b'', 1)]" "r_floor (demo_room m f) = f" "r_mode (demo_room m f) = m"
  "r_id (demo_room m f) = ''r''" "r_capacity (demo_room m f) = 1000"
  by (simp_all add: demo_room_def room_new_def config_defs)

theorem join_spec_witness:
  "\<exists>resp ss' s'. handle_room_join demo_env demo_server demo_dec demo_fresh (room_packet ROOM_JOIN ''r'') (demo_session ''c'' 2)
       (demo_app Conference Idle) = Some (resp, ss', s') \<and> member (hub s') ''r'' ''c'' \<noteq> None"
proof -
  let ?pub = "ice_credentials_new (fst (f_pub_ice demo_fresh)) (snd (f_pub_ice demo_fresh))"
  let ?sub = "ice_credentials_new (fst (f_sub_ice demo_fresh)) (snd (f_sub_ice demo_fresh))"
  have ne: "ufrag ?pub \<noteq> ufrag ?sub"
    by (simp add: ice_credentials_new_def random_ice_string_def demo_fresh_def)
  let ?s = "demo_app Conference Idle"
  have r: "room_of ?s (rq_room_id \<lparr>rq_room_id = ''r''\<rparr>) = Some (demo_room Conference Idle)"
    by (simp add: demo_room_of)
  have ok: "state_ok ?s" by simp
  show ?thesis
    using join_spec [OF ok demo_session_simps(1) [of "''c''" 2] demo_dec_room(1) [of ROOM_JOIN "''r''"] r _ _ refl refl ne,
        where e = demo_env and sv = demo_server] by fastforce
qed

section \<open>The floor as the clients see it\<close>

lemma set_floor_same:
  assumes "room_of s rid = Some r"
  shows "set_floor rid (r_floor r) s = s"
proof -
  have "r\<lparr>r_floor := r_floor r\<rparr> = r" by (cases r) simp
  moreover have "AList.update rid r (rooms (hub s)) = rooms (hub s)"
    using assms by (intro update_triv) (simp add: room_of_def)
  then have "set_room rid r s = s" by (simp add: set_room_def put_room_def)
  ultimately show ?thesis by (simp add: set_floor_room [OF assms])
qed

text \<open>Both outcomes of a floor request.\<close>

lemma floor_request_outcome:
  fixes e :: "'c env" and s :: "'c app"
  assumes u: "su_user ss = Some uid" and req: "dec_floor_request dec (d x) = Some req"
    and r: "room_of s (rq_room_id req) = Some r" and ptt: "r_mode r = Ptt"
  shows "if current_speaker (r_floor r) \<in> {None, Some uid}
    then \<exists>s' r' tasks. handle_floor_request e dec fr x ss s =
        Some (packet_ok FLOOR_REQUEST (pid x) (JObj [(''granted'', JBool True), (''speaker'', JStr uid)]), s') \<and>
      room_of s' (rq_room_id req) = Some r' \<and> current_speaker (r_floor r') = Some uid \<and>
      rw_speaker (rw_state (audio_rewriter r')) = Some uid \<and> rw_speaker (rw_state (video_rewriter r')) = Some uid \<and>
      participants r' = participants r \<and>
      out s' = out s @ event_for e s (floor_taken (r_id r) uid) (others uid r) @ tasks \<and>
      (tasks = [] \<or> (\<exists>p ssrc addr. tasks = [SpawnPli p ssrc addr] \<and> get_participant r uid = Some p))
    else \<exists>v. current_speaker (r_floor r) = Some v \<and> handle_floor_request e dec fr x ss s =
        Some (packet_err FLOOR_REQUEST (pid x) 2010 (''channel busy (speaker='' @ v @ '')''), s)"
proof -
  let ?rid = "rq_room_id req"
  obtain action f where a: "floor_request (r_floor r) uid (f_now fr) = (action, f)" by fastforce
  note C = fc.request_cases [OF a]
  show ?thesis
  proof (cases "current_speaker (r_floor r) \<in> {None, Some uid}")
    case True
    then have ac: "action = Granted uid" "current_speaker f = Some uid" using C by auto
    let ?r' = "r\<lparr>r_floor := f, audio_rewriter := switch_speaker (audio_rewriter r) uid,
        video_rewriter := switch_speaker (video_rewriter r) uid\<rparr>"
    let ?s3 = "bump Ptt_speaker_switches 1 (bump Ptt_floor_granted 1
      (says (event_for e (set_floor ?rid f s) (floor_taken (r_id r) uid) (others uid r)) (set_room ?rid ?r' s)))"
    have ev: "event_for e (set_floor ?rid f s) y ps = event_for e s y ps" for y ps
      by (rule event_for_cong) (simp add: set_floor_room [OF r])
    have H: "handle_floor_request e dec fr x ss s =
        Some (packet_ok FLOOR_REQUEST (pid x) (JObj [(''granted'', JBool True), (''speaker'', JStr uid)]), spawn_floor_pli r uid ?s3)"
      by (simp add: handle_floor_request_def req u hub_get_room r ptt a ac apply_floor_action_def broadcast_others_says
          Let_def set_floor_rewriters [OF r])
    have sp: "spawn_floor_pli r uid ?s3 = ?s3 \<or> (\<exists>p ssrc addr. get_participant r uid = Some p \<and>
        spawn_floor_pli r uid ?s3 = emit (SpawnPli p ssrc addr) ?s3)"
      by (auto simp: spawn_floor_pli_def split: option.splits)
    have "room_of ?s3 ?rid = Some ?r'" "out ?s3 = out s @ event_for e s (floor_taken (r_id r) uid) (others uid r)"
      by (simp_all add: ev)
    then show ?thesis using True sp H ac by fastforce
  next
    case False
    then obtain v where v: "current_speaker (r_floor r) = Some v" "action = Denied ''channel busy'' v" "f = r_floor r"
      using C by auto
    have "handle_floor_request e dec fr x ss s =
        Some (packet_err FLOOR_REQUEST (pid x) 2010 (''channel busy (speaker='' @ v @ '')''), s)"
      by (simp add: handle_floor_request_def req u hub_get_room r ptt a v apply_floor_action_def Let_def set_floor_same [OF r])
    then show ?thesis using False v(1) by simp
  qed
qed

text \<open>
  C14: a floor request, end to end. In a push-to-talk room a named user gets the floor
  exactly when nobody or the user holds it. Then both rewriters speak for the user, every
  member but the user is told once who has the floor, and besides at most the task that
  asks the speaker for keyframes is started. Otherwise the answer is 2010 with the name of
  the speaker, and nothing at all changes.
\<close>

theorem floor_request_spec:
  fixes e :: "'c env" and s :: "'c app"
  assumes u: "su_user ss = Some uid" and req: "dec_floor_request dec (d x) = Some req"
    and r: "room_of s (rq_room_id req) = Some r" and ptt: "r_mode r = Ptt"
  shows "if current_speaker (r_floor r) \<in> {None, Some uid}
    then \<exists>s' r' tasks. handle_floor_request e dec fr x ss s =
        Some (packet_ok FLOOR_REQUEST (pid x) (JObj [(''granted'', JBool True), (''speaker'', JStr uid)]), s') \<and>
      room_of s' (rq_room_id req) = Some r' \<and> current_speaker (r_floor r') = Some uid \<and>
      rw_speaker (rw_state (audio_rewriter r')) = Some uid \<and> rw_speaker (rw_state (video_rewriter r')) = Some uid \<and>
      participants r' = participants r \<and>
      out s' = out s @ event_for e s (floor_taken (r_id r) uid) (others uid r) @ tasks \<and>
      (tasks = [] \<or> (\<exists>p ssrc addr. tasks = [SpawnPli p ssrc addr] \<and> get_participant r uid = Some p))
    else \<exists>v. current_speaker (r_floor r) = Some v \<and> handle_floor_request e dec fr x ss s =
        Some (packet_err FLOOR_REQUEST (pid x) 2010 (''channel busy (speaker='' @ v @ '')''), s)"
  by (rule floor_request_outcome [OF assms])

theorem floor_request_spec_witness:
  "\<exists>s'. handle_floor_request demo_env demo_dec demo_fresh (room_packet FLOOR_REQUEST ''r'') (demo_session ''a'' 0)
       (demo_app Ptt Idle) =
     Some (packet_ok FLOOR_REQUEST 9 (JObj [(''granted'', JBool True), (''speaker'', JStr ''a'')]), s') \<and>
     WsSend 1 ''event'' \<in> set (out s')"
proof -
  let ?s = "demo_app Ptt Idle" and ?r = "demo_room Ptt Idle"
  have r: "room_of ?s (rq_room_id \<lparr>rq_room_id = ''r''\<rparr>) = Some ?r" by (simp add: demo_room_of)
  have ev: "event_for demo_env ?s (floor_taken (r_id ?r) ''a'') (others ''a'' ?r) = [WsSend 1 ''event'']"
    by (simp add: event_for_def others_def to_members_def demo_env_def floor_taken_def packet_new_def opcode_defs
        pt_def deref_def demo_app_def demo_member_def participant_new_def)
  have p: "pid (room_packet FLOOR_REQUEST ''r'') = 9" by (simp add: room_packet_def)
  show ?thesis
    using floor_request_spec [OF demo_session_simps(1) [of "''a''" 0] demo_dec_room(3) [of FLOOR_REQUEST "''r''"] r,
        where e = demo_env and fr = demo_fresh] ev p by auto
qed

section \<open>Leaving\<close>

text \<open>The room after the floor was taken from a leaving holder, and the event for it.\<close>

definition floor_left :: "string \<Rightarrow> room \<Rightarrow> room" where
  "floor_left uid r =
     (if current_speaker (r_floor r) = Some uid
      then r\<lparr>r_floor := Idle, audio_rewriter := clear_speaker (audio_rewriter r),
          video_rewriter := clear_speaker (video_rewriter r)\<rparr> else r)"

definition floor_left_events :: "'c env \<Rightarrow> 'c app \<Rightarrow> string \<Rightarrow> room \<Rightarrow> effect list" where
  "floor_left_events e s uid r =
     (if current_speaker (r_floor r) = Some uid
      then event_for e s (floor_idle (r_id r) uid None) (participants r) else [])"

lemma floor_left_simps [simp]:
  "participants (floor_left uid r) = participants r" "r_id (floor_left uid r) = r_id r"
  "get_participant (floor_left uid r) v = get_participant r v" "others v (floor_left uid r) = others v r"
  by (simp_all add: floor_left_def get_participant_def others_def)

lemma floor_left_floor:
  "r_floor (floor_left uid r) = (if current_speaker (r_floor r) = Some uid then Idle else r_floor r)"
  by (simp add: floor_left_def)

lemma set_room_same:
  assumes "room_of s rid = Some r"
  shows "set_room rid r s = s"
proof -
  have "AList.update rid r (rooms (hub s)) = rooms (hub s)"
    using assms by (intro update_triv) (simp add: room_of_def)
  then show ?thesis by (simp add: set_room_def put_room_def)
qed

lemma leave_floor_net:
  assumes r: "room_of s rid = Some r" and sync: "floor_synced r"
  shows "leave_floor e rid uid s = says (floor_left_events e s uid r) (set_room rid (floor_left uid r) s)"
proof (cases "r_mode r = Ptt")
  case False
  then have "r_floor r = Idle" using sync by (cases "r_mode r") (simp_all add: floor_synced_def)
  then show ?thesis using False
    by (simp add: leave_floor_def hub_get_room r floor_left_def floor_left_events_def set_room_same)
next
  case True
  obtain res f where a: "on_participant_leave (r_floor r) uid = (res, f)" by fastforce
  note C = fc.leave_cases [OF a]
  show ?thesis
  proof (cases "current_speaker (r_floor r) = Some uid")
    case False
    then have "res = None" "f = r_floor r" using C by auto
    then show ?thesis using False
      by (simp add: leave_floor_def hub_get_room r True a floor_left_def floor_left_events_def set_floor_same set_room_same)
  next
    case holder: True
    then have f: "res = Some (Released uid)" "current_speaker f = None" using C by auto
    then have "f = Idle" by (cases f) auto
    moreover have "event_for e (set_floor rid f s) y ps = event_for e s y ps" for y ps
      by (rule event_for_cong) (simp add: set_floor_room [OF r])
    ultimately show ?thesis
      by (simp add: leave_floor_def hub_get_room r True a f apply_floor_says set_floor_rewriters [OF r]
          floor_left_def floor_left_events_def holder)
  qed
qed

text \<open>The members that stay get the two events of a departure.\<close>

definition left_events :: "'c env \<Rightarrow> 'c app \<Rightarrow> string \<Rightarrow> string \<Rightarrow> track list \<Rightarrow> (string \<times> pref) list \<Rightarrow> effect list" where
  "left_events e s rid uid ts ps =
     (if ts = [] then [] else event_for e s (tracks_update ''remove'' (map (track_json uid) ts)) ps)
     @ event_for e s (room_event ''participant_left'' rid uid) ps"

lemma notify_left_says:
  "notify_left_room e r rid uid ts s = says (left_events e s rid uid ts (participants r)) s"
  "notify_left_others e r rid uid ts s = says (left_events e s rid uid ts (others uid r)) s"
  by (simp_all add: notify_left_room_def notify_left_others_def broadcast_room_says broadcast_others_says left_events_def Let_def)

lemma delete_others: "AList.delete uid (participants r) = others uid r"
  unfolding AList.delete_eq others_def by (rule filter_cong) auto

text \<open>The net effect of a removal.\<close>

definition removed :: "string \<Rightarrow> string \<Rightarrow> pref \<Rightarrow> room \<Rightarrow> 'c app \<Rightarrow> 'c app" where
  "removed rid uid p r s =
     s\<lparr>hub := unindex (pt s p) (put_room rid (snd (room_remove_participant (heap (hub s)) uid r)) (hub s))\<rparr>"

lemma remove_net:
  assumes "room_of s rid = Some r" and "map_of (participants r) uid = Some p"
  shows "on_hub (remove_participant rid uid) s = (Inr p, removed rid uid p r s)"
  using assms
  by (simp add: on_hub_def remove_participant_def hub_get_room room_remove_participant_def removed_def pt_def)

lemma removed_simps [simp]:
  "out (removed rid uid p r s) = out s" "pt (removed rid uid p r s) q = pt s q"
  "removed rid uid p r (says es s) = says es (removed rid uid p r s)"
  by (simp_all add: removed_def says_def pt_def)

lemma removed_room:
  assumes "map_of (participants r) uid = Some p"
  shows "\<exists>r'. room_of (removed rid uid p r s) rid = Some r' \<and> participants r' = others uid r \<and> r_floor r' = r_floor r"
  using assms by (simp add: removed_def room_of_def room_remove_participant_def delete_others)

lemma left_events_cong:
  assumes "\<And>q. pt s' q = pt s q"
  shows "left_events e s' rid uid ts ps = left_events e s rid uid ts ps"
  using event_for_cong [of ps s' s] by (simp add: left_events_def assms)

lemma left_events_simps [simp]:
  "left_events e (says es s) rid uid ts ps = left_events e s rid uid ts ps"
  "left_events e (set_room k r s) rid uid ts ps = left_events e s rid uid ts ps"
  "left_events e (removed k v q r s) rid uid ts ps = left_events e s rid uid ts ps"
  by (rule left_events_cong; simp)+

lemma leave_cleanup:
  assumes ok: "state_ok s" and u: "su_user ss = Some uid" "su_room ss = Some rid"
    and r: "room_of s rid = Some r" and m: "map_of (participants r) uid = Some p"
  shows "cleanup e ss s = push_admin_snapshot e (says (floor_left_events e s uid r @ left_events e s rid uid (tracks (pt s p)) (others uid r))
    (removed rid uid p (floor_left uid r) (set_room rid (floor_left uid r) s)))"
    and "dec_leave dec (d x) = Some req \<Longrightarrow> rq_room_id req = rid \<Longrightarrow>
      handle_room_leave e dec x ss s =
        Some (packet_ok ROOM_LEAVE (pid x) (JObj []), ss\<lparr>su_room := None, su_pub_ufrag := None, su_sub_ufrag := None\<rparr>, cleanup e ss s)"
proof -
  note lf = leave_floor_net [OF r app_okD(3) [OF state_okD(1) [OF ok] r], of e uid]
  let ?s1 = "set_room rid (floor_left uid r) s" and ?fe = "floor_left_events e s uid r"
  have r1: "room_of (says es ?s1) rid = Some (floor_left uid r)" for es by simp
  have m1: "map_of (participants (floor_left uid r)) uid = Some p" using m by simp
  have rm: "on_hub (remove_participant rid uid) (says es ?s1) =
      (Inr p, says es (removed rid uid p (floor_left uid r) ?s1))" for es
    using remove_net [OF r1 m1] by simp
  have g: "get_participant (floor_left uid r) uid = Some p" using m by (simp add: get_participant_def)
  show c: "cleanup e ss s = push_admin_snapshot e (says (?fe @ left_events e s rid uid (tracks (pt s p)) (others uid r))
    (removed rid uid p (floor_left uid r) ?s1))"
    unfolding cleanup_def u option.case prod.case lf Let_def hub_get_room r1 sum.case g get_tracks_def notify_left_says
    by (simp add: rm)
  obtain r2 where r2: "room_of (removed rid uid p (floor_left uid r) ?s1) rid = Some r2" "participants r2 = others uid r"
    using removed_room [OF m1, of rid ?s1] by auto
  assume req: "dec_leave dec (d x) = Some req" "rq_room_id req = rid"
  show "handle_room_leave e dec x ss s =
      Some (packet_ok ROOM_LEAVE (pid x) (JObj []), ss\<lparr>su_room := None, su_pub_ufrag := None, su_sub_ufrag := None\<rparr>, cleanup e ss s)"
    unfolding handle_room_leave_def req option.case u Option.bind.simps lf Let_def rm prod.case sum.case c
    by (simp add: hub_get_room r2 get_tracks_def notify_left_says)
qed

text \<open>
  C15: a lost connection leaves no trace. The clean-up of a connection whose user is in a
  room removes exactly this membership, and no address and no fragment leads to the
  participant any more. If the user held the floor it is free again, otherwise it stays
  as it was. The members are told, in this order: that the floor is idle (when it was
  held), which tracks are gone (when there were any), and that the user has left; then the
  administrators get a snapshot.
\<close>

theorem disconnect_spec:
  assumes ok: "state_ok s" and u: "su_user ss = Some uid" and rm: "su_room ss = Some rid"
    and r: "room_of s rid = Some r" and m: "map_of (participants r) uid = Some p"
  shows "state_ok (cleanup e ss s) \<and>
    (\<exists>r'. room_of (cleanup e ss s) rid = Some r' \<and> participants r' = others uid r \<and>
       r_floor r' = (if current_speaker (r_floor r) = Some uid then Idle else r_floor r)) \<and>
    (\<forall>rid' v. member (hub (cleanup e ss s)) rid' v = (if rid' = rid \<and> v = uid then None else member (hub s) rid' v)) \<and>
    (\<forall>a uf pc rid'. find_by_addr (hub (cleanup e ss s)) a \<noteq> Some (p, pc, rid') \<and>
       find_by_ufrag (hub (cleanup e ss s)) uf \<noteq> Some (p, pc, rid')) \<and>
    (\<exists>j. out (cleanup e ss s) = out s @
       (if current_speaker (r_floor r) = Some uid then event_for e s (floor_idle rid uid None) (participants r) else []) @
       (if tracks (pt s p) = [] then []
        else event_for e s (tracks_update ''remove'' (map (track_json uid) (tracks (pt s p)))) (others uid r)) @
       event_for e s (room_event ''participant_left'' rid uid) (others uid r) @ [AdminSend j])"
proof -
  let ?c = "cleanup e ss s" and ?r1 = "floor_left uid r"
  let ?s1 = "set_room rid ?r1 s"
  note A = state_okD(1) [OF ok]
  note c = leave_cleanup(1) [OF ok u rm r m, of e]
  have m1: "map_of (participants ?r1) uid = Some p" using m by simp
  have h: "hub ?c = hub (removed rid uid p ?r1 ?s1)" by (simp add: c push_admin_snapshot_def)
  have rem: "on_hub (remove_participant rid uid) ?s1 = (Inr p, removed rid uid p ?r1 ?s1)"
    by (rule remove_net [OF _ m1]) simp
  then have rh: "remove_participant rid uid (hub ?s1) = (Inr p, hub ?c)"
    unfolding h by (auto simp: on_hub_def split: prod.splits dest: arg_cong [of _ _ hub])
  have "hub_ok (hub ?s1)"
    using hub_ok_put_room [OF app_okD(1) [OF A]] app_okD(4) [OF A r] by (simp add: floor_left_def)
  note gone = remove_participant_gone [OF this rh]
  have "member (hub ?s1) rid' v = member (hub s) rid' v" for rid' v
    using r by (auto simp: member_def room_of_def get_participant_def map_add_def simp del: map_of_eq_Some_iff split: option.splits)
  then have mem: "member (hub ?c) rid' v = (if rid' = rid \<and> v = uid then None else member (hub s) rid' v)" for rid' v
    using remove_participant_member(2) [OF rh] by simp
  have rid: "r_id r = rid" using room_okD(1) [OF app_okD(4) [OF A r]] .
  have "\<exists>r'. room_of ?c rid = Some r' \<and> participants r' = others uid r \<and>
      r_floor r' = (if current_speaker (r_floor r) = Some uid then Idle else r_floor r)"
    using removed_room [OF m1, of rid ?s1] by (simp add: room_of_def h floor_left_floor)
  moreover have "\<exists>j. out ?c = out s @ (floor_left_events e s uid r @ left_events e s rid uid (tracks (pt s p)) (others uid r)) @ [AdminSend j]"
    by (simp add: c push_admin_snapshot_def)
  note this [unfolded floor_left_events_def left_events_def rid append_assoc]
  moreover have "state_ok ?c" using good_stepD(1) [OF cleanup_good ok] .
  ultimately show ?thesis using gone mem by blast
qed

lemma demo_seat: "map_of (participants (demo_room m f)) ''a'' = Some 0" "map_of (participants (demo_room m f)) ''b'' = Some 1"
  by simp_all

theorem disconnect_spec_witness:
  "member (hub (cleanup demo_env (demo_session ''a'' 0) (demo_app Ptt Idle))) ''r'' ''a'' = None \<and>
   member (hub (cleanup demo_env (demo_session ''a'' 0) (demo_app Ptt Idle))) ''r'' ''b'' = Some 1"
proof -
  have "member (hub (demo_app Ptt Idle)) ''r'' ''b'' = Some 1"
    using demo_room_of [of Ptt Idle] by (simp add: member_def room_of_def get_participant_def)
  then show ?thesis
    using disconnect_spec [OF demo_state_ok demo_session_simps(1,2) [of "''a''" 0] demo_room_of demo_seat(1), of Ptt Idle demo_env]
    by auto
qed

text \<open>
  C18: leaving and losing the connection are the same to everybody else. For a user who leaves the room
  of the session the request succeeds, the session forgets the room and both fragments, and
  the state and the events are exactly those of the clean-up after a disconnect.
\<close>

theorem leave_is_disconnect:
  assumes "state_ok s" and "su_user ss = Some uid" and "su_room ss = Some rid"
    and "room_of s rid = Some r" and "map_of (participants r) uid = Some p"
    and "dec_leave dec (d x) = Some req" and "rq_room_id req = rid"
  shows "handle_room_leave e dec x ss s =
    Some (packet_ok ROOM_LEAVE (pid x) (JObj []),
      ss\<lparr>su_room := None, su_pub_ufrag := None, su_sub_ufrag := None\<rparr>, cleanup e ss s)"
  using leave_cleanup(2) [OF assms] .

theorem leave_is_disconnect_witness:
  "handle_room_leave demo_env demo_dec (room_packet ROOM_LEAVE ''r'') (demo_session ''a'' 0) (demo_app Ptt Idle) =
    Some (packet_ok ROOM_LEAVE 9 (JObj []), session_new 0\<lparr>su_user := Some ''a''\<rparr>,
      cleanup demo_env (demo_session ''a'' 0) (demo_app Ptt Idle))"
proof -
  have "pid (room_packet ROOM_LEAVE ''r'') = 9" by (simp add: room_packet_def)
  moreover have "(demo_session ''a'' 0)\<lparr>su_room := None, su_pub_ufrag := None, su_sub_ufrag := None\<rparr> =
      session_new 0\<lparr>su_user := Some ''a''\<rparr>"
    by (simp add: demo_session_def session_new_def)
  ultimately show ?thesis
    using leave_is_disconnect [OF demo_state_ok demo_session_simps(1,2) [of "''a''" 0] demo_room_of demo_seat(1)
        demo_dec_room(2) [of ROOM_LEAVE "''r''"], of Ptt Idle demo_env] by simp
qed

section \<open>Publishing\<close>

definition known_items :: "publish_track_item list \<Rightarrow> publish_track_item list" where
  "known_items ts = filter (\<lambda>t. pti_kind t = ''audio'' \<or> pti_kind t = ''video'') ts"

text \<open>The announcements of tracks that end up registered in \<open>trs\<close>, named from number \<open>n\<close> on.\<close>

fun announcements :: "string \<Rightarrow> nat \<Rightarrow> track list \<Rightarrow> publish_track_item list \<Rightarrow> announced list" where
  "announcements uid n trs [] = []"
| "announcements uid n trs (t # ts) =
     \<lparr>an_user = uid, an_kind = pti_kind t, an_ssrc = pti_ssrc t, an_id = uid @ ''_'' @ show_nat n,
      an_rtx = Option.bind (List.find (\<lambda>tr. t_ssrc tr = pti_ssrc t) trs) t_rtx_ssrc\<rparr> # announcements uid (n + 1) trs ts"

lemma length_announcements [simp]: "length (announcements uid n trs ts) = length ts"
  by (induction uid n trs ts rule: announcements.induct) simp_all

lemma parse_kind_known:
  "parse_kind k = None \<longleftrightarrow> \<not> (k = ''audio'' \<or> k = ''video'')" "parse_kind k = Some kind \<Longrightarrow> kind_name kind = k"
  by (auto simp: parse_kind_def kind_name_def split: if_splits)

lemma find_prefix: "prefix xs ys \<Longrightarrow> List.find P xs = Some x \<Longrightarrow> List.find P ys = Some x"
  by (auto simp: prefix_def find_filter split: list.splits)

text \<open>The track that is registered for an SSRC, and what is new after an announcement.\<close>

lemma add_track_found:
  "\<exists>tr. List.find (\<lambda>t. t_ssrc t = y) (tracks (add_track y k z q)) = Some tr"
proof -
  have "y \<in> t_ssrc ` set (tracks (add_track y k z q))" by (simp add: add_track_ssrcs)
  then have "List.find (\<lambda>t. t_ssrc t = y) (tracks (add_track y k z q)) \<noteq> None" by (auto simp: find_None_iff)
  then show ?thesis by blast
qed

lemma add_track_appends:
  "\<exists>new. tracks (add_track y k z q) = tracks q @ new \<and> ws_tx (add_track y k z q) = ws_tx q \<and>
     (\<forall>t \<in> set new. t_ssrc t = y \<and> t_kind t = k \<and> t_track_id t = z \<and>
        List.find (\<lambda>tr. t_ssrc tr = y) (tracks (add_track y k z q)) = Some t)"
proof (cases "has_ssrc y q")
  case True
  then show ?thesis by (simp add: add_track_dup)
next
  case False
  then have "filter (\<lambda>t. t_ssrc t = y) (tracks q) = []" by (auto simp: has_ssrc_iff filter_empty_conv)
  then show ?thesis using add_track_new [OF False, of k z] by (auto simp: find_filter)
qed

lemma publish_items_net:
  assumes "publish_items uid p n ts s = (js, s')" and "p < length (heap (hub s))"
  shows "rooms (hub s') = rooms (hub s) \<and> out s' = out s \<and> (\<forall>q. q \<noteq> p \<longrightarrow> pt s' q = pt s q) \<and>
    ws_tx (pt s' p) = ws_tx (pt s p) \<and>
    those (map read_announced js) = Some (announcements uid n (tracks (pt s' p)) (known_items ts)) \<and>
    t_ssrc ` set (tracks (pt s' p)) = t_ssrc ` set (tracks (pt s p)) \<union> pti_ssrc ` set (known_items ts) \<and>
    (\<exists>new. tracks (pt s' p) = tracks (pt s p) @ new \<and>
       announced_of uid ` set new \<subseteq> set (announcements uid n (tracks (pt s' p)) (known_items ts)))"
  using assms
proof (induction uid p n ts s arbitrary: js s' rule: publish_items.induct)
  case (2 uid p n t ts s)
  show ?case
  proof (cases "parse_kind (pti_kind t)")
    case None
    then have "known_items (t # ts) = known_items ts" using parse_kind_known(1) [of "pti_kind t"] by (simp add: known_items_def)
    then show ?thesis using 2(1) [OF None _ 2(4), of js s'] 2(3) None by simp
  next
    case (Some k)
    let ?z = "uid @ ''_'' @ show_nat n" and ?P = "\<lambda>tr. t_ssrc tr = pti_ssrc t"
    let ?q = "add_track (pti_ssrc t) k ?z (pt s p)"
    let ?s = "on_pt p (add_track (pti_ssrc t) k ?z) s"
    have q: "pt ?s p = ?q" using 2(4) by (simp add: pt_on_pt)
    obtain tr where tr: "List.find ?P (tracks ?q) = Some tr" using add_track_found by blast
    obtain js2 s2 where rest: "publish_items uid p (n + 1) ts ?s = (js2, s2)" by fastforce
    have "publish_items uid p n (t # ts) s = (JObj ([(''user_id'', JStr uid), (''kind'', JStr (pti_kind t)), (''ssrc'', jword (pti_ssrc t)),
           (''track_id'', JStr ?z)] @ rtx_field (t_rtx_ssrc tr)) # js2, s2)"
      by (simp only: publish_items.simps Some option.case Let_def get_tracks_def q tr Option.bind.simps rest apfst_conv)
    then have js2: "publish_items uid p (n + 1) ts ?s = (js2, s')"
        "js = JObj ([(''user_id'', JStr uid), (''kind'', JStr (pti_kind t)), (''ssrc'', jword (pti_ssrc t)),
           (''track_id'', JStr ?z)] @ rtx_field (t_rtx_ssrc tr)) # js2"
      using 2(3) rest by simp_all
    let ?as = "announcements uid (n + 1) (tracks (pt s' p)) (known_items ts)"
    have "p < length (heap (hub ?s))" using 2(4) by simp
    note H = 2(2) [OF Some refl refl refl refl js2(1) this, unfolded q]
    note H3 = H [THEN conjunct2, THEN conjunct2, THEN conjunct2] and H5 = H [THEN conjunct2, THEN conjunct2, THEN conjunct2, THEN conjunct2]
    obtain new where new: "tracks (pt s' p) = tracks ?q @ new" "announced_of uid ` set new \<subseteq> set ?as"
      using H5 [THEN conjunct2, THEN conjunct2] by (elim exE conjE)
    have "pt s' q' = pt s q'" if "q' \<noteq> p" for q'
    proof -
      have "pt s' q' = pt ?s q'" using H [THEN conjunct2, THEN conjunct2, THEN conjunct1] that by blast
      then show ?thesis using that 2(4) by (simp add: pt_on_pt)
    qed
    moreover have "rooms (hub s') = rooms (hub s)" using H [THEN conjunct1] by simp
    moreover have "out s' = out s" using H [THEN conjunct2, THEN conjunct1] by simp
    ultimately have keep: "rooms (hub s') = rooms (hub s) \<and> out s' = out s \<and> (\<forall>q. q \<noteq> p \<longrightarrow> pt s' q = pt s q)"
      by simp
    have known: "known_items (t # ts) = t # known_items ts" using Some parse_kind_known(1) [of "pti_kind t"] by (simp add: known_items_def)
    have found: "List.find ?P (tracks (pt s' p)) = Some tr" by (rule find_prefix [OF _ tr]) (simp add: new(1))
    obtain new1 where new1: "tracks ?q = tracks (pt s p) @ new1" "ws_tx ?q = ws_tx (pt s p)"
        "\<forall>t' \<in> set new1. t_ssrc t' = pti_ssrc t \<and> t_kind t' = k \<and> t_track_id t' = ?z \<and> List.find ?P (tracks ?q) = Some t'"
      using add_track_appends by blast
    let ?a = "\<lparr>an_user = uid, an_kind = pti_kind t, an_ssrc = pti_ssrc t, an_id = ?z, an_rtx = t_rtx_ssrc tr\<rparr>"
    have as: "announcements uid n (tracks (pt s' p)) (known_items (t # ts)) = ?a # ?as" by (simp add: known found)
    have "read_announced (hd js) = Some ?a"
      by (cases "t_rtx_ssrc tr") (simp_all add: js2(2) read_announced_def get_in_def rtx_field_def reading)
    moreover note H5 [THEN conjunct1]
    ultimately have "those (map read_announced js) = Some (?a # ?as)" by (simp add: js2(2) del: announcements.simps)
    moreover have "announced_of uid t' = ?a" if "t' \<in> set new1" for t'
      using new1(3) that tr parse_kind_known(2) [OF Some] by (simp add: announced_of_def)
    then have "announced_of uid ` set (new1 @ new) \<subseteq> set (?a # ?as)" using new(2) by auto
    then have "\<exists>new. tracks (pt s' p) = tracks (pt s p) @ new \<and> announced_of uid ` set new \<subseteq> set (?a # ?as)"
      using new(1) new1(1) by (intro exI [of _ "new1 @ new"]) simp
    moreover have "t_ssrc ` set (tracks (pt s' p)) = t_ssrc ` set (tracks (pt s p)) \<union> pti_ssrc ` set (known_items (t # ts))"
    proof -
      have "t_ssrc ` set (tracks (pt s' p)) = t_ssrc ` set (tracks ?q) \<union> pti_ssrc ` set (known_items ts)"
        by (rule H5 [THEN conjunct2, THEN conjunct1])
      then show ?thesis by (simp add: known add_track_ssrcs)
    qed
    moreover have "ws_tx (pt s' p) = ws_tx (pt s p)" using H3 [THEN conjunct1] new1(2) by simp
    ultimately show ?thesis unfolding as using keep by blast
  qed
qed (simp add: known_items_def)

text \<open>
  C17: publishing tracks. For a member the announcement succeeds and reports how many of the
  announced tracks are audio or video; exactly their SSRCs become known on the member, the
  tracks registered before stay in front, and the other members get one event (none when
  nothing of it is audio or video) that adds, in this order, each of the announced ones: the
  user, the kind, the SSRC, the name with the next number, and the retransmission SSRC that is registered
  for it. Every newly registered track is among them as it is registered. No other
  participant and no room changes.
\<close>

theorem publish_spec:
  assumes ok: "state_ok s" and u: "su_user ss = Some uid" and seat: "own_seat ss uid s = Inr (rid, r, p)"
    and req: "dec_publish dec (d x) = Some items"
  shows "\<exists>s' as new ev. handle_publish_tracks e dec x ss s =
      Some (packet_ok PUBLISH_TRACKS (pid x) (JObj [(''registered'', JNum (int (length (known_items items))))]), s') \<and>
    state_ok s' \<and> rooms (hub s') = rooms (hub s) \<and> (\<forall>q. q \<noteq> p \<longrightarrow> pt s' q = pt s q) \<and>
    t_ssrc ` set (tracks (pt s' p)) = t_ssrc ` set (tracks (pt s p)) \<union> pti_ssrc ` set (known_items items) \<and>
    as = announcements uid (length (tracks (pt s p))) (tracks (pt s' p)) (known_items items) \<and>
    tracks (pt s' p) = tracks (pt s p) @ new \<and> announced_of uid ` set new \<subseteq> set as \<and>
    op ev = TRACKS_UPDATE \<and> read_tracks_update (d ev) = Some (''add'', as) \<and>
    out s' = out s @ (if known_items items = [] then [] else event_for e s ev (others uid r))"
proof -
  obtain js s1 where it: "publish_items uid p (length (get_tracks (pt s p))) items s = (js, s1)" by fastforce
  have m: "room_of s rid = Some r" "map_of (participants r) uid = Some p" using seat by (simp_all add: own_seat_Inr)
  have "p < length (heap (hub s))"
    using room_members(1) [OF state_okD(1) [OF ok] m(1)] map_of_SomeD [OF m(2)] .
  note N = publish_items_net [OF it this, unfolded get_tracks_def]
  let ?as = "announcements uid (length (tracks (pt s p))) (tracks (pt s1 p)) (known_items items)"
  have len: "length js = length (known_items items)" using N those_Some_length by fastforce
  then have empty: "js = [] \<longleftrightarrow> known_items items = []" by (metis length_0_conv)
  let ?s' = "says (if js = [] then [] else event_for e s (tracks_update ''add'' js) (others uid r)) s1"
  have ws: "ws_tx (pt s1 q) = ws_tx (pt s q)" for q using N by (cases "q = p") simp_all
  have ev: "event_for e s1 y ps = event_for e s y ps" for y ps by (rule event_for_cong) (rule ws)
  have H: "handle_publish_tracks e dec x ss s =
      Some (packet_ok PUBLISH_TRACKS (pid x) (JObj [(''registered'', JNum (int (length (known_items items))))]), ?s')"
    by (simp add: handle_publish_tracks_def req u seat it Let_def broadcast_others_says ev len)
  then have "state_ok ?s'" using handle_publish_good [OF u, of e dec x s] good_stepD(1) ok by fastforce
  moreover have "op (tracks_update ''add'' js) = TRACKS_UPDATE" "read_tracks_update (d (tracks_update ''add'' js)) = Some (''add'', ?as)"
    using read_tracks_update_of N by (auto simp: opcode_defs)
  ultimately show ?thesis using H N empty
    by (intro exI [of _ ?s'] exI [of _ ?as] exI [of _ "drop (length (tracks (pt s p))) (tracks (pt s1 p))"]
        exI [of _ "tracks_update ''add'' js"]) auto
qed

theorem publish_spec_witness:
  "\<exists>s' (ev :: packet). handle_publish_tracks demo_env (demo_dec\<lparr>dec_publish := \<lambda>j. Some [\<lparr>pti_kind = ''video'', pti_ssrc = 9\<rparr>, \<lparr>pti_kind = ''data'', pti_ssrc = 8\<rparr>]\<rparr>)
       (room_packet PUBLISH_TRACKS ''r'') (demo_session ''a'' 0) (demo_app Ptt Idle) =
     Some (packet_ok PUBLISH_TRACKS 9 (JObj [(''registered'', JNum 1)]), s') \<and>
     (\<exists>rtx. read_tracks_update (d ev) = Some (''add'', [\<lparr>an_user = ''a'', an_kind = ''video'', an_ssrc = 9, an_id = ''a_1'', an_rtx = rtx\<rparr>]))"
proof -
  let ?items = "[\<lparr>pti_kind = ''video'', pti_ssrc = 9\<rparr>, \<lparr>pti_kind = ''data'', pti_ssrc = 8\<rparr>]"
  have seat: "own_seat (demo_session ''a'' 0) ''a'' (demo_app Ptt Idle) = Inr (''r'', demo_room Ptt Idle, 0)"
    by (simp add: own_seat_Inr demo_room_of)
  have req: "dec_publish (demo_dec\<lparr>dec_publish := \<lambda>j. Some ?items\<rparr>) (d (room_packet PUBLISH_TRACKS ''r'')) = Some ?items"
    by simp
  have known: "known_items ?items = [\<lparr>pti_kind = ''video'', pti_ssrc = 9\<rparr>]" by (simp add: known_items_def)
  have "length (tracks (pt (demo_app Ptt Idle) 0)) = 1" by (simp add: demo_app_defs)
  moreover have "show_nat 1 = ''1''" by code_simp
  moreover have "pid (room_packet PUBLISH_TRACKS ''r'') = 9" by (simp add: room_packet_def)
  ultimately have ids: "announcements ''a'' (length (tracks (pt (demo_app Ptt Idle) 0))) trs (known_items ?items) =
      [\<lparr>an_user = ''a'', an_kind = ''video'', an_ssrc = 9, an_id = ''a_1'', an_rtx = Option.bind (List.find (\<lambda>tr. t_ssrc tr = 9) trs) t_rtx_ssrc\<rparr>]"
    and pid: "pid (room_packet PUBLISH_TRACKS ''r'') = 9" for trs
    by (simp_all add: known)
  have demo_ok: "state_ok (demo_app Ptt Idle)" by simp
  have one: "JNum (int (length (known_items ?items))) = JNum 1" by (simp add: known)
  obtain s' as and ev :: packet where H: "handle_publish_tracks demo_env (demo_dec\<lparr>dec_publish := \<lambda>j. Some ?items\<rparr>)
       (room_packet PUBLISH_TRACKS ''r'') (demo_session ''a'' 0) (demo_app Ptt Idle) =
      Some (packet_ok PUBLISH_TRACKS 9 (JObj [(''registered'', JNum 1)]), s')"
    "as = [\<lparr>an_user = ''a'', an_kind = ''video'', an_ssrc = 9, an_id = ''a_1'',
       an_rtx = Option.bind (List.find (\<lambda>tr. t_ssrc tr = 9) (tracks (pt s' 0))) t_rtx_ssrc\<rparr>]"
    "read_tracks_update (d ev) = Some (''add'', as)"
    using publish_spec [OF demo_ok demo_session_simps(1) [of "''a''" 0] seat req, of demo_env, unfolded ids pid one]
    by (elim exE conjE) (assumption | rule that)+
  show ?thesis using H(1,3) unfolding H(2) by (intro exI [of _ s'] exI [of _ ev] conjI) (assumption, rule exI)
qed

end
