(* ===== verification/Server.thy ===== *)
theory Server
  imports Signaling_Spec
begin

text \<open>
  What the server runs beside the connections and the UDP workers (\<open>src/lib.rs\<close>): the rooms
  it starts with, the floor timer and the zombie reaper. A tick of a timer is one step.
\<close>

section \<open>The start\<close>

text \<open>The names are UTF-8 text.\<close>

definition default_rooms :: "(string \<times> nat \<times> room_mode) list" where
  "default_rooms =
     [(map char_of [0xEB, 0xAC, 0xB4, 0xEC, 0xA0, 0x84, 0x20, 0xEB, 0x8C, 0x80, 0xED, 0x99, 0x94, 0xEB, 0xB0, 0xA9 :: nat], 10, Ptt),
      (map char_of [0xED, 0x9A, 0x8C, 0xEC, 0x9D, 0x98, 0xEC, 0x8B, 0xA4, 0x2D, 0x32 :: nat], 10, Conference),
      (map char_of [0xEB, 0x8C, 0x80, 0xED, 0x9A, 0x8C, 0xEC, 0x9D, 0x98, 0xEC, 0x8B, 0xA4 :: nat], 20, Conference)]"

text \<open>Every room takes a fresh identifier and two virtual SSRCs from the generator.\<close>

fun create_rooms :: "u64 \<Rightarrow> (string \<times> nat \<times> room_mode) list \<Rightarrow> (string \<times> u32 \<times> u32) list \<Rightarrow> 'c hub \<Rightarrow> 'c hub" where
  "create_rooms now ((nm, cap, mode) # rs) ((rid, a, v) # seeds) hb =
     create_rooms now rs seeds (snd (hub_create rid a v nm (Some cap) mode now hb))"
| "create_rooms now _ _ hb = hb"

definition create_default_rooms :: "u64 \<Rightarrow> (string \<times> u32 \<times> u32) list \<Rightarrow> 'c app \<Rightarrow> 'c app" where
  "create_default_rooms now seeds s = s\<lparr>hub := create_rooms now default_rooms seeds (hub s)\<rparr>"

text \<open>The workers: the first one has the identifier 0, a further one that of its loop index as a byte.\<close>

definition start_workers :: "nat \<Rightarrow> bwe_mode \<Rightarrow> u64 \<Rightarrow> worker list" where
  "start_workers worker_count mode bitrate =
     worker_new 0 mode bitrate # map (\<lambda>i. worker_new (of_nat i) mode bitrate) [1..<worker_count]"

section \<open>The timers\<close>

definition broadcast_to_room_all :: "'c env \<Rightarrow> room \<Rightarrow> packet \<Rightarrow> 'c app \<Rightarrow> 'c app" where
  "broadcast_to_room_all e r x s =
     (case packet_string e x of
        None \<Rightarrow> s
      | Some j \<Rightarrow> fold (\<lambda>(uid, p) s. ws_send p j s) (participants r) s)"

text \<open>The floor timer at one room. The controller only reports revocations.\<close>

definition floor_timer_room :: "'c env \<Rightarrow> u64 \<Rightarrow> string \<Rightarrow> 'c app \<Rightarrow> 'c app" where
  "floor_timer_room e now rid s =
     (case room_of s rid of
        None \<Rightarrow> s
      | Some r \<Rightarrow>
          if r_mode r \<noteq> Ptt then s
          else (case check_timers (r_floor r) now of
              (action, f) \<Rightarrow>
                (let s = set_floor rid f s
                 in case action of
                      Some (Revoked prev cause) \<Rightarrow>
                        (let s = bump Ptt_floor_revoked 1 s;
                             s = on_rewriters rid clear_speaker s;
                             s = send_revoke e r prev cause s
                         in broadcast_to_room_all e r (floor_idle (r_id r) prev None) s)
                    | _ \<Rightarrow> s)))"

definition floor_timer_tick :: "'c env \<Rightarrow> u64 \<Rightarrow> 'c app \<Rightarrow> 'c app" where
  "floor_timer_tick e now s = fold (floor_timer_room e now) (map fst (rooms (hub s))) s"

definition notify_reaped :: "'c env \<Rightarrow> string \<times> pref \<Rightarrow> 'c app \<Rightarrow> 'c app" where
  "notify_reaped e z s =
     (case z of (rid, zombie) \<Rightarrow>
       (case hub_get (hub s) rid of
          Inl _ \<Rightarrow> s
        | Inr r \<Rightarrow>
            (let ts = get_tracks (pt s zombie); uid = p_user_id (pt s zombie);
                 s = (if ts \<noteq> [] then broadcast_to_room_all e r (tracks_update ''remove'' (map (track_json uid) ts)) s else s)
             in broadcast_to_room_all e r (room_event ''participant_left'' rid uid) s)))"

definition reaper_tick :: "'c env \<Rightarrow> u64 \<Rightarrow> 'c app \<Rightarrow> 'c app" where
  "reaper_tick e now s =
     (case on_hub (reap_zombies now ZOMBIE_TIMEOUT_MS) s of
        (reaped, s) \<Rightarrow> fold (notify_reaped e) reaped s)"

section \<open>They keep the state\<close>

lemma broadcast_all_room: "broadcast_to_room_all e r x s = broadcast_to_room e r x s"
  by (simp add: broadcast_to_room_all_def broadcast_to_room_def)

lemma notify_reaped_says:
  "notify_reaped e (rid, z) s = (case room_of s rid of None \<Rightarrow> s
     | Some r \<Rightarrow> notify_left_room e r rid (p_user_id (pt s z)) (get_tracks (pt s z)) s)"
  by (simp add: notify_reaped_def notify_left_room_def broadcast_all_room hub_get_room Let_def split: option.split)

lemma create_rooms_good: "good_step s (s\<lparr>hub := create_rooms now rs seeds (hub s)\<rparr>)"
proof (induction now rs seeds "hub s" arbitrary: s rule: create_rooms.induct)
  case (1 now nm cap mode rs rid a v seeds)
  obtain r hb where c: "hub_create rid a v nm (Some cap) mode now (hub s) = (r, hb)" by fastforce
  have hb: "hb = put_room rid r (hub s)" "floor_synced r"
    using c by (auto simp: hub_create_def Let_def room_new_def floor_synced_def new_audio_def new_video_def rewriter_new_def floor_new_def)
  have "good_step s (s\<lparr>hub := hb\<rparr>)"
  proof (rule good_hub)
    show "hub_ok hb" if "app_ok s" using hub_create_ok [OF app_okD(1) [OF that]] c by (metis snd_conv)
    show "heap hb = heap (hub s)" by (simp add: hb)
    show "app_ok s \<Longrightarrow> \<forall>rid r. map_of (rooms hb) rid = Some r \<longrightarrow> floor_synced r"
      using hb app_okD(3) [of s] by (auto simp: room_of_def)
  qed
  moreover have "good_step (s\<lparr>hub := hb\<rparr>) (s\<lparr>hub := create_rooms now rs seeds hb\<rparr>)"
    using 1(1) [of "s\<lparr>hub := hb\<rparr>"] c by simp
  ultimately show ?case using good_trans c by fastforce
qed simp_all

lemma create_default_rooms_good: "good_step s (create_default_rooms now seeds s)"
  by (simp add: create_default_rooms_def create_rooms_good)

section \<open>The floor timer\<close>

text \<open>
  When a burst has expired and why, in unbounded arithmetic: the burst limit is looked at
  before the ping limit.
\<close>

fun floor_expiry :: "u64 \<Rightarrow> floor_state \<Rightarrow> (string \<times> string) option" where
  "floor_expiry now Idle = None"
| "floor_expiry now (Taken v b p) =
     (if unat b + 30000 < unat now then Some (v, ''max burst exceeded'')
      else if unat p + 5000 < unat now then Some (v, ''participant lost'')
      else None)"

lemma check_timers_expiry:
  "check_timers f now =
     (case floor_expiry now f of None \<Rightarrow> (None, f) | Some (v, c) \<Rightarrow> (Some (Revoked v c), Idle))"
  by (cases f) (simp_all add: sat_sub_greater_iff config_defs)

lemma floor_expiry_speaker: "floor_expiry now f = Some (v, c) \<Longrightarrow> current_speaker f = Some v"
  by (cases f) (auto split: if_splits)

definition timed_out :: "u64 \<Rightarrow> room \<Rightarrow> room" where
  "timed_out now r = (case floor_expiry now (r_floor r) of None \<Rightarrow> r | Some (v, c) \<Rightarrow> floor_left v r)"

text \<open>What a revocation sends: a notice to the speaker, if a member, and the idle event to all.\<close>

definition revoke_events :: "'c env \<Rightarrow> 'c app \<Rightarrow> u64 \<Rightarrow> room \<Rightarrow> effect list" where
  "revoke_events e s now r =
     (case floor_expiry now (r_floor r) of
        None \<Rightarrow> []
      | Some (v, c) \<Rightarrow>
          (case get_participant r v of
             None \<Rightarrow> []
           | Some p \<Rightarrow> [WsSend (ws_tx (pt s p))
               (case packet_string e (floor_revoke (r_id r) c) of Some j \<Rightarrow> j | None \<Rightarrow> [])]) @
          event_for e s (floor_idle (r_id r) v None) (participants r))"

lemma revoke_events_cong:
  assumes "\<And>q. pt s' q = pt s q"
  shows "revoke_events e s' now r = revoke_events e s now r"
  using event_for_cong [of _ s' s e] by (simp add: revoke_events_def assms split: option.split)

lemma revoke_events_plain: "x \<in> set (revoke_events e s now r) \<Longrightarrow> plain x \<and> effect_ok n x"
  by (auto simp: revoke_events_def dest: event_for_plain split: option.splits)

definition revoked :: "u64 \<Rightarrow> room \<Rightarrow> nat" where
  "revoked now r = (if floor_expiry now (r_floor r) = None then 0 else 1)"

lemma floor_timer_room_net:
  assumes r: "room_of s rid = Some r" and sync: "floor_synced r"
  shows "\<exists>m. floor_timer_room e now rid s =
    says (revoke_events e s now r) (set_room rid (timed_out now r) s)\<lparr>metrics := m\<rparr>"
proof (cases "floor_expiry now (r_floor r)")
  case None
  then have "floor_timer_room e now rid s = s"
    by (simp add: floor_timer_room_def r check_timers_expiry set_floor_same)
  then show ?thesis using None
    by (intro exI [of _ "metrics s"]) (simp add: revoke_events_def timed_out_def set_room_same [OF r])
next
  case (Some x)
  obtain v c where x: "x = (v, c)" by (cases x)
  have sp: "current_speaker (r_floor r) = Some v" using floor_expiry_speaker Some x by blast
  then have "r_mode r = Ptt" using sync by (cases "r_mode r") (auto simp: floor_synced_def)
  moreover have "on_rewriters rid clear_speaker (bump Ptt_floor_revoked 1 (set_floor rid Idle s)) =
      bump Ptt_floor_revoked 1 (set_room rid (floor_left v r) s)"
    by (simp add: set_floor_rewriters [OF r] floor_left_def sp)
  moreover have "event_for e (bump c n (set_room rid r' s)) y ps = event_for e s y ps" for c n r' y ps
    by (rule event_for_cong) simp
  ultimately have "floor_timer_room e now rid s =
      says (revoke_events e s now r) (bump Ptt_floor_revoked 1 (set_room rid (floor_left v r) s))"
    using Some x
    by (auto simp: floor_timer_room_def r check_timers_expiry revoke_events_def Let_def broadcast_all_room
        broadcast_room_says send_revoke_def ws_send_def emit_says split: option.split)
  then show ?thesis using Some x
    by (intro exI [of _ "metrics (bump Ptt_floor_revoked 1 s)"]) (simp add: timed_out_def bump_def says_def set_room_def)
qed

lemma floor_timer_room_good:
  assumes ok: "state_ok s"
  shows "good_step s (floor_timer_room e now rid s)"
proof (cases "room_of s rid")
  case (Some r)
  note A = state_okD(1) [OF ok]
  obtain m where m: "floor_timer_room e now rid s =
      says (revoke_events e s now r) (set_room rid (timed_out now r) s)\<lparr>metrics := m\<rparr>"
    using floor_timer_room_net [OF Some app_okD(3) [OF A Some]] by blast
  show ?thesis unfolding m
  proof (rule good_room_update)
    show "room_ok (heap (hub s)) rid (timed_out now r) \<and> floor_synced (timed_out now r)"
      using app_okD(3,4) [OF A Some] by (auto simp: timed_out_def floor_left_def floor_synced_def split: option.split)
    show "\<forall>x \<in> set (revoke_events e s now r). plain x \<and> effect_ok (length (heap (hub s))) x"
      using revoke_events_plain by blast
  qed simp_all
qed (simp add: floor_timer_room_def)

lemma floor_timer_rooms:
  fixes s :: "'c app"
  assumes "state_ok s" and "distinct rids"
  shows "good_step s (fold (floor_timer_room e now) rids s) \<and>
    (\<forall>k. room_of (fold (floor_timer_room e now) rids s) k =
       (if k \<in> set rids then map_option (timed_out now) (room_of s k) else room_of s k)) \<and>
    (\<forall>q. pt (fold (floor_timer_room e now) rids s) q = pt s q) \<and>
    out (fold (floor_timer_room e now) rids s) =
      out s @ concat (map (\<lambda>k. case room_of s k of None \<Rightarrow> [] | Some r \<Rightarrow> revoke_events e s now r) rids)"
  using assms
proof (induction rids arbitrary: s)
  case (Cons rid rids)
  let ?s = "floor_timer_room e now rid s"
  note g = floor_timer_room_good [OF Cons.prems(1), of e now rid]
  have net: "(\<forall>k. room_of ?s k = (if k = rid then map_option (timed_out now) (room_of s k) else room_of s k)) \<and>
      (\<forall>q. pt ?s q = pt s q) \<and>
      out ?s = out s @ (case room_of s rid of None \<Rightarrow> [] | Some r \<Rightarrow> revoke_events e s now r)"
  proof (cases "room_of s rid")
    case (Some r)
    then show ?thesis
      using floor_timer_room_net [OF Some app_okD(3) [OF state_okD(1) [OF Cons.prems(1)] Some], of e now]
      by (auto simp: pt_def room_of_def)
  qed (simp add: floor_timer_room_def)
  have ev: "revoke_events e ?s now r = revoke_events e s now r" for r
    by (rule revoke_events_cong) (use net in blast)
  have notin: "rid \<notin> set rids" and dist: "distinct rids" using Cons.prems(2) by simp_all
  have evs: "map (\<lambda>k. case room_of ?s k of None \<Rightarrow> [] | Some r \<Rightarrow> revoke_events e ?s now r) rids =
      map (\<lambda>k. case room_of s k of None \<Rightarrow> [] | Some r \<Rightarrow> revoke_events e s now r) rids"
    using net ev notin by (intro map_cong refl) (auto split: option.split)
  note IH = Cons.IH [OF good_stepD(1) [OF g Cons.prems(1)] dist, unfolded evs]
  show ?case using IH net notin good_trans [OF g] by auto
qed simp

lemma floor_timer_good: "state_ok s \<Longrightarrow> good_step s (floor_timer_tick e now s)"
  unfolding floor_timer_tick_def
  using floor_timer_rooms hub_okD(1) [OF app_okD(1) [OF state_okD(1)]] by blast

text \<open>
  C20: the floor timer. A tick frees the floor of exactly the rooms whose speaker has held it
  for more than 30 seconds or has not pinged for more than 5 (a clock that went backwards
  revokes nothing), and silences both rewriters there; members, modes and all other floors
  stay. The revoked speaker gets a notice with the reason, all members of the room are told
  that it is idle, room after room, and nothing else is sent.
\<close>

theorem floor_timer_spec:
  assumes ok: "state_ok s"
  shows "state_ok (floor_timer_tick e now s) \<and>
    (\<forall>rid. rel_option (\<lambda>r r'. participants r' = participants r \<and> r_mode r' = r_mode r \<and>
         r_floor r' = (if floor_expiry now (r_floor r) = None then r_floor r else Idle) \<and>
         rw_speaker (rw_state (audio_rewriter r')) = current_speaker (r_floor r') \<and>
         rw_speaker (rw_state (video_rewriter r')) = current_speaker (r_floor r'))
       (room_of s rid) (room_of (floor_timer_tick e now s) rid)) \<and>
    out (floor_timer_tick e now s) = out s @ concat (map (\<lambda>(rid, r). revoke_events e s now r) (rooms (hub s)))"
proof -
  note A = state_okD(1) [OF ok]
  have d: "distinct (map fst (rooms (hub s)))" using hub_okD(1) [OF app_okD(1) [OF A]] .
  let ?s' = "floor_timer_tick e now s"
  note R = floor_timer_rooms [OF ok d, of e now, folded floor_timer_tick_def]
  have room: "room_of ?s' k = map_option (timed_out now) (room_of s k)" for k
    using R by (auto simp: room_of_def dest: map_of_SomeD simp del: map_of_eq_Some_iff map_of_eq_None_iff)
       (metis map_of_eq_None_iff option.map_disc_iff)
  have ok': "state_ok ?s'" using R good_stepD(1) ok by blast
  have "rel_option (\<lambda>r r'. participants r' = participants r \<and> r_mode r' = r_mode r \<and>
         r_floor r' = (if floor_expiry now (r_floor r) = None then r_floor r else Idle) \<and>
         rw_speaker (rw_state (audio_rewriter r')) = current_speaker (r_floor r') \<and>
         rw_speaker (rw_state (video_rewriter r')) = current_speaker (r_floor r'))
       (room_of s k) (room_of ?s' k)" for k
  proof (cases "room_of s k")
    case (Some r)
    have "floor_synced (timed_out now r)"
      using app_okD(3) [OF state_okD(1) [OF ok'], of k "timed_out now r"] room Some by simp
    moreover have "r_floor (timed_out now r) = (if floor_expiry now (r_floor r) = None then r_floor r else Idle)"
      using floor_expiry_speaker [of now "r_floor r"]
      by (auto simp: timed_out_def floor_left_floor split: option.split)
    moreover have "participants (timed_out now r) = participants r" "r_mode (timed_out now r) = r_mode r"
      by (auto simp: timed_out_def floor_left_def split: option.split)
    ultimately show ?thesis using Some room by (simp add: floor_synced_def)
  qed (simp add: room)
  moreover have "map (\<lambda>k. case room_of s k of None \<Rightarrow> [] | Some r \<Rightarrow> revoke_events e s now r) (map fst (rooms (hub s))) =
      map (\<lambda>(rid, r). revoke_events e s now r) (rooms (hub s))"
    using d by (auto simp: room_of_def)
  ultimately show ?thesis using R ok' by metis
qed

theorem floor_timer_spec_witness:
  "out (floor_timer_tick demo_env 40000 (demo_app Ptt (Taken ''a'' 100 39000))) =
     [WsSend 0 ''event'', WsSend 0 ''event'', WsSend 1 ''event'']"
proof -
  let ?s = "demo_app Ptt (Taken ''a'' 100 39000)"
  have ok: "state_ok ?s" by simp
  have p: "ws_tx (pt ?s 0) = 0" "ws_tx (pt ?s 1) = 1"
    by (simp_all add: pt_def deref_def demo_app_def demo_member_def participant_new_def)
  have "rooms (hub ?s) = [(''r'', demo_room Ptt (Taken ''a'' 100 39000))]" "out ?s = []" by (simp_all add: demo_app_def)
  moreover have "revoke_events demo_env ?s 40000 (demo_room Ptt (Taken ''a'' 100 39000)) =
      [WsSend 0 ''event'', WsSend 0 ''event'', WsSend 1 ''event'']"
    using p by (simp add: revoke_events_def get_participant_def event_for_def to_members_def demo_env_def
        floor_revoke_def floor_idle_def packet_new_def opcode_defs)
  ultimately show ?thesis using floor_timer_spec [OF ok, of demo_env 40000] by simp
qed

section \<open>The zombie reaper\<close>

text \<open>What a removal from a room does not touch.\<close>

definition same_talk :: "room \<Rightarrow> room \<Rightarrow> bool" where
  "same_talk r r' \<longleftrightarrow> r_id r' = r_id r \<and> r_mode r' = r_mode r \<and> r_floor r' = r_floor r \<and>
     audio_rewriter r' = audio_rewriter r \<and> video_rewriter r' = video_rewriter r"

definition talks_kept :: "'c hub \<Rightarrow> 'c hub \<Rightarrow> bool" where
  "talks_kept hb hb' \<longleftrightarrow> (\<forall>k. rel_option same_talk (map_of (rooms hb) k) (map_of (rooms hb') k))"

lemma same_talk_refl [simp]: "same_talk r r"
  by (simp add: same_talk_def)

lemma talks_kept_refl [simp]: "talks_kept hb hb"
  by (simp add: talks_kept_def option.rel_refl)

lemma talks_kept_trans: "talks_kept h1 h2 \<Longrightarrow> talks_kept h2 h3 \<Longrightarrow> talks_kept h1 h3"
proof -
  assume a: "talks_kept h1 h2" "talks_kept h2 h3"
  have "rel_option same_talk (map_of (rooms h1) k) (map_of (rooms h3) k)" for k
  proof -
    have "rel_option same_talk (map_of (rooms h1) k) (map_of (rooms h2) k)"
      "rel_option same_talk (map_of (rooms h2) k) (map_of (rooms h3) k)"
      using a by (simp_all add: talks_kept_def)
    then show ?thesis by (auto elim!: option.rel_cases simp: same_talk_def)
  qed
  then show ?thesis by (simp add: talks_kept_def)
qed

lemma remove_talks: "talks_kept hb (snd (remove_participant rid uid hb))"
proof -
  have "same_talk r (snd (room_remove_participant h uid r))" for h :: "'a heap" and r
    by (simp add: room_remove_participant_def same_talk_def split: option.split)
  then show ?thesis
    by (cases "map_of (rooms hb) rid")
       (auto simp: talks_kept_def remove_participant_def hub_get_def option.rel_refl simp del: map_of_eq_Some_iff map_of_eq_None_iff
          split: prod.split sum.split, (metis snd_conv)+)
qed

lemma reap_users_talks: "talks_kept hb (snd (reap_users rid uids hb))"
proof (induction rid uids hb rule: reap_users.induct)
  case (2 rid uid uids hb)
  obtain res hb1 where r: "remove_participant rid uid hb = (res, hb1)" by fastforce
  have 1: "talks_kept hb hb1" using remove_talks [of hb rid uid] by (simp add: r)
  show ?case
  proof (cases res)
    case (Inl e)
    then show ?thesis using "2.IH"(1) [OF r [symmetric] Inl] talks_kept_trans [OF 1] by (simp add: r)
  next
    case (Inr p)
    then show ?thesis using "2.IH"(2) [OF r [symmetric] Inr] talks_kept_trans [OF 1]
      by (cases "reap_users rid uids hb1") (simp add: r)
  qed
qed simp

lemma reap_rooms_talks: "talks_kept hb (snd (reap_rooms now t rids hb))"
proof (induction now t rids hb rule: reap_rooms.induct)
  case (2 now t rid rids hb)
  show ?case
  proof (cases "map_of (rooms hb) rid")
    case None
    then show ?thesis using "2.IH"(1) [OF None] by simp
  next
    case (Some r)
    let ?z = "map fst (filter (\<lambda>(uid, p). is_zombie now t (deref (heap hb) p)) (participants r))"
    obtain reaped hb1 where u: "reap_users rid ?z hb = (reaped, hb1)" by fastforce
    obtain more hb2 where m: "reap_rooms now t rids hb1 = (more, hb2)" by fastforce
    have "talks_kept hb hb1" using reap_users_talks [of hb rid ?z] by (simp add: u)
    moreover have "talks_kept hb1 hb2" using "2.IH"(2) [OF Some refl u [symmetric] refl] by (simp add: m)
    ultimately show ?thesis using talks_kept_trans by (simp add: Some u m Let_def)
  qed
qed simp

text \<open>The notices of a sweep, one member after another.\<close>

definition reaped_events :: "'c env \<Rightarrow> 'c app \<Rightarrow> string \<times> pref \<Rightarrow> effect list" where
  "reaped_events e s z =
     (case z of (rid, p) \<Rightarrow> (case room_of s rid of
        None \<Rightarrow> []
      | Some r \<Rightarrow> left_events e s rid (p_user_id (pt s p)) (tracks (pt s p)) (participants r)))"

lemma reaped_events_plain: "x \<in> set (reaped_events e s z) \<Longrightarrow> plain x \<and> effect_ok n x"
  by (cases z) (auto simp: reaped_events_def left_events_def dest: event_for_plain split: option.splits if_splits)

lemma notify_reaped_net: "notify_reaped e z s = says (reaped_events e s z) s"
  by (cases z) (simp add: notify_reaped_says notify_left_says reaped_events_def get_tracks_def split: option.split)

lemma reaped_events_says [simp]: "reaped_events e (says es s) z = reaped_events e s z"
  by (simp add: reaped_events_def split: prod.split option.split)

lemma notify_all_reaped: "fold (notify_reaped e) zs s = says (concat (map (reaped_events e s) zs)) s"
proof (induction zs arbitrary: s)
  case (Cons z zs)
  show ?case using Cons [of "notify_reaped e z s"] by (simp add: notify_reaped_net)
qed simp

lemma reap_good:
  assumes "on_hub (reap_zombies now t) s = (reaped, s1)" and ok: "state_ok s"
  shows "good_step s s1" "out s1 = out s" "talks_kept (hub s) (hub s1)"
    "reap_zombies now t (hub s) = (reaped, hub s1)" "pt s1 p = pt s p"
proof -
  obtain hb where h: "reap_zombies now t (hub s) = (reaped, hb)" "s1 = s\<lparr>hub := hb\<rparr>"
    using assms by (auto simp: on_hub_def split: prod.splits)
  note A = state_okD(1) [OF ok]
  have R: "hub_ok hb \<and> heap hb = heap (hub s)"
    using reap_rooms_ok [OF app_okD(1) [OF A], of now t "map fst (rooms (hub s))"] h(1) by (simp add: reap_zombies_def)
  have T: "talks_kept (hub s) hb"
    using reap_rooms_talks [of "hub s" now t "map fst (rooms (hub s))"] h(1) by (simp add: reap_zombies_def)
  show "out s1 = out s" "talks_kept (hub s) (hub s1)" "reap_zombies now t (hub s) = (reaped, hub s1)"
    using h T by simp_all
  show "pt s1 p = pt s p" using R h by (simp add: pt_def)
  have "floor_synced r'" if "map_of (rooms hb) k = Some r'" for k r'
  proof -
    have "rel_option same_talk (room_of s k) (Some r')" using T that by (simp add: talks_kept_def room_of_def) metis
    then show ?thesis using app_okD(3) [OF A, of k] by (auto simp: same_talk_def floor_synced_def elim!: option.rel_cases)
  qed
  then show "good_step s s1" unfolding h(2) using R by (intro good_hub) auto
qed

lemma reaper_good:
  assumes ok: "state_ok s"
  shows "good_step s (reaper_tick e now s)"
proof -
  obtain reaped s1 where z: "on_hub (reap_zombies now ZOMBIE_TIMEOUT_MS) s = (reaped, s1)" by fastforce
  have "good_step s1 (says es s1)" if "set es \<subseteq> \<Union> (set ` reaped_events e s1 ` set reaped)" for es
    by (rule good_says) (use that in \<open>auto dest!: subsetD reaped_events_plain\<close>)
  then show ?thesis using good_trans [OF reap_good(1) [OF z ok]]
    by (simp add: reaper_tick_def z notify_all_reaped)
qed

text \<open>
  C21: the reaper. A tick removes exactly the members with a sign of life at some time but
  none within the last two minutes, and tells those that remain in their rooms, for one
  removed member after another, which tracks are gone (when there were any) and who left.
  It sends nothing else, and it changes neither the floor nor the rewriters of any room:
  a removed speaker still holds the floor.
\<close>

theorem reaper_spec:
  assumes ok: "state_ok s" and z: "on_hub (reap_zombies now ZOMBIE_TIMEOUT_MS) s = (reaped, s1)"
  shows "state_ok (reaper_tick e now s) \<and>
    (\<forall>rid uid. member (hub (reaper_tick e now s)) rid uid =
       (case member (hub s) rid uid of None \<Rightarrow> None
        | Some p \<Rightarrow> if 0 < last_seen (pt s p) \<and> unat (last_seen (pt s p)) + 120000 < unat now then None else Some p)) \<and>
    (\<forall>rid. rel_option same_talk (room_of s rid) (room_of (reaper_tick e now s) rid)) \<and>
    set reaped = {(rid, p) |rid uid p. member (hub s) rid uid = Some p \<and>
      0 < last_seen (pt s p) \<and> unat (last_seen (pt s p)) + 120000 < unat now} \<and>
    out (reaper_tick e now s) = out s @ concat (map (\<lambda>(rid, p). case room_of s1 rid of
        None \<Rightarrow> []
      | Some r \<Rightarrow> left_events e s rid (p_user_id (pt s p)) (tracks (pt s p)) (participants r)) reaped)"
proof -
  note R = reap_good [OF z ok]
  have t: "reaper_tick e now s = says (concat (map (reaped_events e s1) reaped)) s1"
    by (simp add: reaper_tick_def z notify_all_reaped)
  have sec: "unat ZOMBIE_TIMEOUT_MS = 120000" by (simp add: config_defs)
  have le: "left_events e s1 rid uid ts ps = left_events e s rid uid ts ps" for rid uid ts ps
    by (rule left_events_cong) (rule R(5))
  have ev: "reaped_events e s1 = (\<lambda>(rid, p). case room_of s1 rid of None \<Rightarrow> []
      | Some r \<Rightarrow> left_events e s rid (p_user_id (pt s p)) (tracks (pt s p)) (participants r))"
    unfolding reaped_events_def R(5) le ..
  have "state_ok (reaper_tick e now s)" using good_stepD(1) [OF reaper_good [OF ok] ok] .
  moreover have "\<forall>rid. rel_option same_talk (room_of s rid) (room_of (reaper_tick e now s) rid)"
    using R(3) by (simp add: t talks_kept_def) (simp add: room_of_def)
  moreover note reap_zombies_spec [OF app_okD(1) [OF state_okD(1) [OF ok]] R(4), unfolded sec, folded pt_def]
  ultimately show ?thesis unfolding t says_simps R(2) ev by blast
qed

theorem reaper_spec_witness:
  "member (hub (reaper_tick demo_env 500000 (on_pt 0 (touch 9) (demo_app Ptt (Taken ''a'' 100 200))))) ''r'' ''a'' = None \<and>
   (\<exists>r. room_of (reaper_tick demo_env 500000 (on_pt 0 (touch 9) (demo_app Ptt (Taken ''a'' 100 200)))) ''r'' = Some r \<and>
      current_speaker (r_floor r) = Some ''a'')"
proof -
  let ?s0 = "demo_app Ptt (Taken ''a'' 100 200)"
  let ?s = "on_pt 0 (touch 9) ?s0"
  have ok: "state_ok ?s" by (rule good_stepD(1) [OF good_media [OF touch_step]]) simp
  obtain reaped s1 where z: "on_hub (reap_zombies 500000 ZOMBIE_TIMEOUT_MS) ?s = (reaped, s1)" by fastforce
  have r: "room_of ?s ''r'' = Some (demo_room Ptt (Taken ''a'' 100 200))" using demo_room_of by simp
  then have m: "member (hub ?s) ''r'' ''a'' = Some 0"
    by (simp add: member_def room_of_def get_participant_def)
  have l: "last_seen (pt ?s 0) = 9"
    by (simp add: pt_on_pt touch_def demo_app_def)
  note S = reaper_spec [OF ok z, of demo_env]
  have "rel_option same_talk (Some (demo_room Ptt (Taken ''a'' 100 200))) (room_of (reaper_tick demo_env 500000 ?s) ''r'')"
    using conjunct1 [OF conjunct2 [OF conjunct2 [OF S]], rule_format, of "''r''"] unfolding r .
  then have "\<exists>r. room_of (reaper_tick demo_env 500000 ?s) ''r'' = Some r \<and> current_speaker (r_floor r) = Some ''a''"
    by (auto simp: same_talk_def elim!: option.rel_cases)
  moreover have "member (hub (reaper_tick demo_env 500000 ?s)) ''r'' ''a'' = None"
    using conjunct1 [OF conjunct2 [OF S], rule_format, of "''r''" "''a''"] m l by simp
  ultimately show ?thesis by blast
qed

end
