(* ===== verification/System.thy ===== *)
theory System
  imports Server
begin

text \<open>
  The server as a whole: the shared state, the workers, the DTLS tasks, the egress and
  keyframe tasks, the connections and the timers, and the steps they take in any order.
  A step is one turn of a loop, so the locks of a turn are taken to make it atomic. The
  surroundings choose the inputs: datagrams, frames, clocks, random numbers, the outcome
  of handshakes.
\<close>

section \<open>The state of the system\<close>

text \<open>What does not change: the environment, the settings, and whether trace lines are logged.\<close>

record 'c world =
  w_env :: "'c env"
  w_server :: server
  w_dec :: decoders
  w_order :: "(u32 \<times> bytes list) list \<Rightarrow> (u32 \<times> bytes list) list"
  w_tracing :: bool

text \<open>A DTLS task: in its handshake, keeping the session alive, or gone.\<close>

datatype task_phase = Handshaking | Established | Ended

text \<open>A worker that panicked is \<open>None\<close>, and so is a connection that was closed.\<close>

record 'c sys =
  sy_app :: "'c app"
  sy_workers :: "worker option list"
  sy_dtls :: "nat \<Rightarrow> task_phase"
  sy_conns :: "connection option list"

definition system_start :: "u64 \<Rightarrow> (string \<times> u32 \<times> u32) list \<Rightarrow> nat \<Rightarrow> bwe_mode \<Rightarrow> u64 \<Rightarrow> 'c sys" where
  "system_start now seeds worker_count mode bitrate =
     \<lparr>sy_app = create_default_rooms now seeds app_new, sy_workers = map Some (start_workers worker_count mode bitrate),
      sy_dtls = (\<lambda>_. Handshaking), sy_conns = []\<rparr>"

definition has_sender :: "'c sys \<Rightarrow> nat \<Rightarrow> bool" where
  "has_sender \<sigma> c \<longleftrightarrow> (\<exists>w a. Some w \<in> set (sy_workers \<sigma>) \<and> dtls_map w a = Some c)"

definition set_worker :: "nat \<Rightarrow> worker option \<Rightarrow> 'c sys \<Rightarrow> 'c sys" where
  "set_worker i w \<sigma> = \<sigma>\<lparr>sy_workers := (sy_workers \<sigma>)[i := w]\<rparr>"

definition set_phase :: "nat \<Rightarrow> task_phase \<Rightarrow> 'c sys \<Rightarrow> 'c sys" where
  "set_phase c ph \<sigma> = \<sigma>\<lparr>sy_dtls := (sy_dtls \<sigma>)(c := ph)\<rparr>"

text \<open>The end of a DTLS task drops its receiver.\<close>

definition end_task :: "nat \<Rightarrow> 'c sys \<Rightarrow> 'c sys" where
  "end_task c \<sigma> = set_phase c Ended (\<sigma>\<lparr>sy_app := dtls_task_end c (sy_app \<sigma>)\<rparr>)"

section \<open>Steps\<close>

text \<open>
  The key material has the length that the exporter was asked for; this is the one thing
  assumed of the handshake.
\<close>

fun sound_handshake :: "handshake \<Rightarrow> bool" where
  "sound_handshake (HandshakeOk (Inr material)) = (length material = SRTP_KEY_MATERIAL_LEN)"
| "sound_handshake _ = True"

text \<open>The tasks of the process. The stopwatch adds a measured duration to the metrics.\<close>

datatype task = Worker nat | DtlsTask nat | EgressTask pref | KeyframeTask pref | Acceptor | Connection nat
  | Stopwatch | FloorTimer | ZombieReaper

inductive task_step :: "'c world \<Rightarrow> task \<Rightarrow> 'c sys \<Rightarrow> 'c sys \<Rightarrow> bool" for W :: "'c world" where
  datagram:
    "i < length (sy_workers \<sigma>) \<Longrightarrow> sy_workers \<sigma> ! i = Some w \<Longrightarrow>
     udp_turn (w_env W) (w_order W) (w_tracing W) now arrival data remote w (sy_app \<sigma>) = Finished (w', s') \<Longrightarrow>
     task_step W (Worker i) \<sigma> (set_worker i (Some w') (\<sigma>\<lparr>sy_app := s'\<rparr>))"
| datagram_panics:
    "i < length (sy_workers \<sigma>) \<Longrightarrow> sy_workers \<sigma> ! i = Some w \<Longrightarrow>
     udp_turn (w_env W) (w_order W) (w_tracing W) now arrival data remote w (sy_app \<sigma>) = Panicked \<Longrightarrow>
     task_step W (Worker i) \<sigma> (set_worker i None \<sigma>)"
| metrics_timer:
    "i < length (sy_workers \<sigma>) \<Longrightarrow> sy_workers \<sigma> ! i = Some w \<Longrightarrow> is_primary w \<Longrightarrow>
     task_step W (Worker i) \<sigma> (\<sigma>\<lparr>sy_app := flush_metrics (w_env W) env_json tokio_json avg (sy_app \<sigma>)\<rparr>)"
| bwe_timer:
    "i < length (sy_workers \<sigma>) \<Longrightarrow> sy_workers \<sigma> ! i = Some w \<Longrightarrow> is_primary w \<Longrightarrow>
     task_step W (Worker i) \<sigma> (case bwe_tick (w_env W) w (sy_app \<sigma>) of
       Some s' \<Rightarrow> \<sigma>\<lparr>sy_app := s'\<rparr> | None \<Rightarrow> set_worker i None \<sigma>)"
| handshake_over:
    "SpawnDtls remote p pc c \<in> set (out (sy_app \<sigma>)) \<Longrightarrow> sy_dtls \<sigma> c = Handshaking \<Longrightarrow> sound_handshake result \<Longrightarrow>
     handshake_done (w_env W) result p pc (sy_app \<sigma>) = Some s' \<Longrightarrow>
     task_step W (DtlsTask c) \<sigma> (case result of HandshakeOk _ \<Rightarrow> set_phase c Established (\<sigma>\<lparr>sy_app := s'\<rparr>)
       | _ \<Rightarrow> end_task c (\<sigma>\<lparr>sy_app := s'\<rparr>))"
| dtls_read:
    "c < length (channels (sy_app \<sigma>)) \<Longrightarrow> sy_dtls \<sigma> c \<noteq> Ended \<Longrightarrow>
     demux_recv (has_sender \<sigma> c) buf_len (channels (sy_app \<sigma>) ! c) = Some (r, ch) \<Longrightarrow>
     task_step W (DtlsTask c) \<sigma> (\<sigma>\<lparr>sy_app := on_channel c (\<lambda>_. ch) (sy_app \<sigma>)\<rparr>)"
| dtls_write:
    "SpawnDtls remote p pc c \<in> set (out (sy_app \<sigma>)) \<Longrightarrow> sy_dtls \<sigma> c \<noteq> Ended \<Longrightarrow>
     task_step W (DtlsTask c) \<sigma> (\<sigma>\<lparr>sy_app := snd (demux_send (w_env W) remote buf (sy_app \<sigma>))\<rparr>)"
| dtls_closed:
    "c < length (channels (sy_app \<sigma>)) \<Longrightarrow> sy_dtls \<sigma> c = Established \<Longrightarrow> task_step W (DtlsTask c) \<sigma> (end_task c \<sigma>)"
| egress_turn:
    "SpawnEgress p \<in> set (out (sy_app \<sigma>)) \<Longrightarrow>
     task_step W (EgressTask p) \<sigma> (\<sigma>\<lparr>sy_app := egress_step (w_env W) p (sy_app \<sigma>)\<rparr>)"
| keyframe_turn:
    "SpawnPli p ssrc addr \<in> set (out (sy_app \<sigma>)) \<Longrightarrow>
     task_step W (KeyframeTask p) \<sigma> (\<sigma>\<lparr>sy_app := snd (pli_attempt (w_env W) p ssrc addr (sy_app \<sigma>))\<rparr>)"
| connected:
    "connection_open (w_env W) socket_ok (length (sy_conns \<sigma>)) instant (sy_app \<sigma>) = (cn, s') \<Longrightarrow>
     task_step W Acceptor \<sigma> (\<sigma>\<lparr>sy_app := s', sy_conns := sy_conns \<sigma> @ [cn]\<rparr>)"
| connection_event:
    "n < length (sy_conns \<sigma>) \<Longrightarrow> sy_conns \<sigma> ! n = Some cn \<Longrightarrow>
     connection_turn (w_env W) (w_server W) (w_dec W) fr socket_ok instant ev cn (sy_app \<sigma>) = Some (cn', s') \<Longrightarrow>
     task_step W (Connection n) \<sigma> (\<sigma>\<lparr>sy_app := s', sy_conns := (sy_conns \<sigma>)[n := cn']\<rparr>)"
| duration_measured:
    "task_step W Stopwatch \<sigma> (\<sigma>\<lparr>sy_app := (sy_app \<sigma>)\<lparr>metrics := (metrics (sy_app \<sigma>))\<lparr>timings :=
       (timings (metrics (sy_app \<sigma>)))(t := timing_record (timings (metrics (sy_app \<sigma>)) t) us)\<rparr>\<rparr>\<rparr>)"
| floor_timer:
    "task_step W FloorTimer \<sigma> (\<sigma>\<lparr>sy_app := floor_timer_tick (w_env W) now (sy_app \<sigma>)\<rparr>)"
| reaper:
    "task_step W ZombieReaper \<sigma> (\<sigma>\<lparr>sy_app := reaper_tick (w_env W) now (sy_app \<sigma>)\<rparr>)"

definition sys_step :: "'c world \<Rightarrow> 'c sys \<Rightarrow> 'c sys \<Rightarrow> bool" where
  "sys_step W \<sigma> \<sigma>' \<longleftrightarrow> (\<exists>\<tau>. task_step W \<tau> \<sigma> \<sigma>')"

lemma sys_stepI: "task_step W \<tau> \<sigma> \<sigma>' \<Longrightarrow> sys_step W \<sigma> \<sigma>'"
  by (auto simp: sys_step_def)

inductive reachable :: "'c world \<Rightarrow> 'c sys \<Rightarrow> bool" for W :: "'c world" where
  start: "reachable W (system_start now seeds worker_count mode bitrate)"
| step: "reachable W \<sigma> \<Longrightarrow> sys_step W \<sigma> \<sigma>' \<Longrightarrow> reachable W \<sigma>'"

section \<open>The invariant of the system\<close>

definition sys_ok :: "'c world \<Rightarrow> 'c sys \<Rightarrow> bool" where
  "sys_ok W \<sigma> \<longleftrightarrow> state_ok (sy_app \<sigma>) \<and> chans_bounded (sy_app \<sigma>) \<and>
     (\<forall>w. Some w \<in> set (sy_workers \<sigma>) \<longrightarrow> worker_ok w (sy_app \<sigma>)) \<and>
     (w_tracing W \<or> None \<notin> set (sy_workers \<sigma>)) \<and>
     (\<forall>c. if c < length (channels (sy_app \<sigma>)) then chan_open (channels (sy_app \<sigma>) ! c) = (sy_dtls \<sigma> c \<noteq> Ended)
          else sy_dtls \<sigma> c = Handshaking) \<and>
     (\<forall>n < length (sy_conns \<sigma>). \<forall>cn. sy_conns \<sigma> ! n = Some cn \<longrightarrow> su_tx (cn_session cn) = n)"

lemma sys_okD:
  assumes "sys_ok W \<sigma>"
  shows "state_ok (sy_app \<sigma>)" "i < length (sy_workers \<sigma>) \<Longrightarrow> sy_workers \<sigma> ! i = Some w \<Longrightarrow> worker_ok w (sy_app \<sigma>)"
    "w_tracing W \<or> None \<notin> set (sy_workers \<sigma>)"
    "c < length (channels (sy_app \<sigma>)) \<Longrightarrow> chan_open (channels (sy_app \<sigma>) ! c) = (sy_dtls \<sigma> c \<noteq> Ended)"
    "n < length (sy_conns \<sigma>) \<Longrightarrow> sy_conns \<sigma> ! n = Some cn \<Longrightarrow> su_tx (cn_session cn) = n"
    "chans_bounded (sy_app \<sigma>)"
  using assms by (auto simp: sys_ok_def) (metis nth_mem)+

lemma sys_ok_app:
  assumes ok: "sys_ok W \<sigma>" and g: "good_step (sy_app \<sigma>) s'"
  shows "sys_ok W (\<sigma>\<lparr>sy_app := s'\<rparr>)"
proof -
  note K = chans_keptD [OF good_stepD(5) [OF g]]
  have "if c < length (channels s') then chan_open (channels s' ! c) = (sy_dtls \<sigma> c \<noteq> Ended)
      else sy_dtls \<sigma> c = Handshaking" for c
    using ok K(1,2) [of c] by (cases "c < length (channels (sy_app \<sigma>))") (auto simp: sys_ok_def not_less)
  then show ?thesis
    using ok good_stepD(1) [OF g] K(3) worker_ok_step [OF _ g] by (auto simp: sys_ok_def)
qed

lemma sys_ok_worker:
  assumes "sys_ok W \<sigma>" and "\<And>w. x = Some w \<Longrightarrow> worker_ok w (sy_app \<sigma>)" and "x = None \<Longrightarrow> w_tracing W"
  shows "sys_ok W (set_worker i x \<sigma>)"
  using assms by (auto simp: sys_ok_def set_worker_def dest!: set_update_subset_insert [THEN subsetD])

lemma sys_ok_phase:
  assumes ok: "sys_ok W \<sigma>" and "c < length (channels (sy_app \<sigma>))" and "sy_dtls \<sigma> c \<noteq> Ended" and "ph \<noteq> Ended"
  shows "sys_ok W (set_phase c ph \<sigma>)"
  using assms by (simp add: sys_ok_def set_phase_def)

lemma sys_ok_end:
  assumes ok: "sys_ok W \<sigma>" and c: "c < length (channels (sy_app \<sigma>))"
  shows "sys_ok W (end_task c \<sigma>)"
proof -
  let ?s = "dtls_task_end c (sy_app \<sigma>)"
  have ch: "channels ?s = (channels (sy_app \<sigma>))[c := \<lparr>chan_queue = [], chan_open = False\<rparr>]"
    by (simp add: dtls_task_end_def on_channel_def)
  have s: "state_ok ?s" unfolding dtls_task_end_def by (rule channel_state_ok [OF sys_okD(1) [OF ok]])
  then show ?thesis using ok c
    by (auto simp: sys_ok_def end_task_def set_phase_def ch nth_list_update worker_ok_def chans_bounded_def dest!: set_update_subset_insert [THEN subsetD])
qed

lemma sys_ok_conns:
  assumes "sys_ok W \<sigma>" and "\<And>n cn. n < length cs \<Longrightarrow> cs ! n = Some cn \<Longrightarrow> su_tx (cn_session cn) = n"
  shows "sys_ok W (\<sigma>\<lparr>sy_conns := cs\<rparr>)"
  using assms by (simp add: sys_ok_def)

lemma connection_turn_tx:
  assumes "connection_turn e sv dec fr b now ev cn s = Some (Some cn', s')"
  shows "su_tx (cn_session cn') = su_tx (cn_session cn)"
proof (cases "\<exists>json x. ev = WsText json \<and> dec_packet dec json = Some x")
  case False
  then show ?thesis using assms
    by (cases ev) (auto simp: connection_turn_def split: option.splits if_splits)
next
  case True
  then obtain json x where x: "ev = WsText json" "dec_packet dec json = Some x" by blast
  obtain resp ss s1 where D: "dispatch e sv dec fr x (cn_session cn) s = Some (resp, ss, s1)" "su_tx ss = su_tx (cn_session cn)"
    using dispatch_good by blast
  then show ?thesis using assms x
    by (auto simp: connection_turn_def Let_def split: option.splits prod.splits bool.splits)
qed

text \<open>The tasks that the log speaks of belong to participants and channels that exist.\<close>

lemma logged_tasks:
  assumes "state_ok s"
  shows "SpawnDtls a p pc c \<in> set (out s) \<Longrightarrow> p < length (heap (hub s)) \<and> c < length (channels s)"
proof -
  note log = state_okD(2) [OF assms, unfolded log_ok_def]
  assume m: "SpawnDtls a p pc c \<in> set (out s)"
  then have "c \<in> set (dtls_spawns s)"
    by (force simp: dtls_spawns_def List.map_filter_def)
  then show ?thesis using log m by fastforce
qed

lemma pli_attempt_good: "good_step s (snd (pli_attempt e p ssrc addr s))"
proof -
  obtain r s1 where w: "with_outbound (encrypt_rtcp (srtp e)) Publish p (build_pli ssrc) s = (r, s1)" by fastforce
  show ?thesis
    using with_srtp_step(3) [OF w] media_step_trans [OF with_srtp_step(3) [OF w] send_to_step]
    by (auto simp: pli_attempt_def w intro!: good_media split: sum.splits)
qed

text \<open>The cases of a step that say more than that the shared state takes a good step.\<close>

lemma sys_ok_datagram:
  assumes ok: "sys_ok W \<sigma>" and w: "i < length (sy_workers \<sigma>)" "sy_workers \<sigma> ! i = Some w"
    and t: "udp_turn (w_env W) (w_order W) (w_tracing W) now arrival data remote w (sy_app \<sigma>) = t"
  shows "t = Finished (w', s') \<Longrightarrow> sys_ok W (set_worker i (Some w') (\<sigma>\<lparr>sy_app := s'\<rparr>))"
    and "t = Panicked \<Longrightarrow> sys_ok W (set_worker i None \<sigma>)"
proof -
  note T = udp_turn_good [OF sys_okD(1) [OF ok] sys_okD(2) [OF ok w], where e = "w_env W" and order = "w_order W"
      and tracing = "w_tracing W" and now = now and arrival = arrival and data = data and remote = remote]
  assume "t = Finished (w', s')"
  then have "good_step (sy_app \<sigma>) s'" "worker_ok w' s'" using T t by simp_all
  then show "sys_ok W (set_worker i (Some w') (\<sigma>\<lparr>sy_app := s'\<rparr>))"
    using sys_ok_app [OF ok] by (intro sys_ok_worker) simp_all
next
  assume "t = Panicked"
  then show "sys_ok W (set_worker i None \<sigma>)"
    using ok t udp_turn_good [OF sys_okD(1) [OF ok] sys_okD(2) [OF ok w], where e = "w_env W" and order = "w_order W"
      and tracing = "w_tracing W" and now = now and arrival = arrival and data = data and remote = remote]
    by (intro sys_ok_worker) simp_all
qed

lemma sys_ok_handshake:
  assumes ok: "sys_ok W \<sigma>" and sp: "SpawnDtls remote p pc c \<in> set (out (sy_app \<sigma>))" and ph: "sy_dtls \<sigma> c = Handshaking"
    and r: "sound_handshake result" "handshake_done (w_env W) result p pc (sy_app \<sigma>) = Some s'"
  shows "sys_ok W (case result of HandshakeOk _ \<Rightarrow> set_phase c Established (\<sigma>\<lparr>sy_app := s'\<rparr>)
    | _ \<Rightarrow> end_task c (\<sigma>\<lparr>sy_app := s'\<rparr>))"
proof -
  note L = logged_tasks [OF sys_okD(1) [OF ok] sp]
  have "\<exists>t. handshake_done (w_env W) result p pc (sy_app \<sigma>) = Some t \<and> good_step (sy_app \<sigma>) t"
    using L r(1) by (intro handshake_done_good) auto
  then have g: "good_step (sy_app \<sigma>) s'" using r(2) by simp
  have "c < length (channels s')" using good_stepD(3) [OF g] L by blast
  then show ?thesis using sys_ok_app [OF ok g] ph by (cases result) (auto intro: sys_ok_phase sys_ok_end)
qed

lemma sys_ok_read:
  assumes ok: "sys_ok W \<sigma>" and r: "demux_recv b buf_len (channels (sy_app \<sigma>) ! c) = Some (r, ch)"
  shows "sys_ok W (\<sigma>\<lparr>sy_app := on_channel c (\<lambda>_. ch) (sy_app \<sigma>)\<rparr>)"
proof -
  have "chan_open ch = chan_open (channels (sy_app \<sigma>) ! c)"
      "length (chan_queue ch) \<le> length (chan_queue (channels (sy_app \<sigma>) ! c))"
    using r by (auto simp: demux_recv_def split: list.splits if_splits)
  then show ?thesis by (intro sys_ok_app [OF ok] good_channel) auto
qed

lemma sys_ok_opened:
  assumes ok: "sys_ok W \<sigma>" and o: "connection_open (w_env W) socket_ok (length (sy_conns \<sigma>)) instant (sy_app \<sigma>) = (cn, s')"
  shows "sys_ok W (\<sigma>\<lparr>sy_app := s', sy_conns := sy_conns \<sigma> @ [cn]\<rparr>)"
proof -
  have "good_step (sy_app \<sigma>) s'" using connection_open_good [of "sy_app \<sigma>" "w_env W" socket_ok "length (sy_conns \<sigma>)" instant] o by simp
  moreover have "su_tx (cn_session c) = length (sy_conns \<sigma>)" if "cn = Some c" for c
    using that o by (auto simp: connection_open_def next_pid_def session_new_def split: prod.splits bool.splits)
  ultimately show ?thesis using sys_okD(5) [OF ok]
    by (intro sys_ok_conns sys_ok_app [OF ok]) (auto simp: nth_append less_Suc_eq)
qed

lemma sys_ok_event:
  assumes ok: "sys_ok W \<sigma>" and n: "n < length (sy_conns \<sigma>)" "sy_conns \<sigma> ! n = Some cn"
    and t: "connection_turn (w_env W) (w_server W) (w_dec W) fr socket_ok instant ev cn (sy_app \<sigma>) = Some (cn', s')"
  shows "sys_ok W (\<sigma>\<lparr>sy_app := s', sy_conns := (sy_conns \<sigma>)[n := cn']\<rparr>)"
proof -
  have g: "good_step (sy_app \<sigma>) s'"
    using connection_turn_good [of "w_env W" "w_server W" "w_dec W" fr socket_ok instant ev cn "sy_app \<sigma>"] t by auto
  have "su_tx (cn_session c) = m" if m: "m < length ((sy_conns \<sigma>)[n := cn'])" "(sy_conns \<sigma>)[n := cn'] ! m = Some c" for m c
    using m t n sys_okD(5) [OF ok, of m c] connection_turn_tx [of "w_env W" "w_server W" "w_dec W" fr socket_ok instant ev cn "sy_app \<sigma>"]
      sys_okD(5) [OF ok n] by (cases "m = n") auto
  then have "sys_ok W ((\<sigma>\<lparr>sy_app := s'\<rparr>)\<lparr>sy_conns := (sy_conns \<sigma>)[n := cn']\<rparr>)"
    by (rule sys_ok_conns [OF sys_ok_app [OF ok g]])
  then show ?thesis by simp
qed

lemma task_step_ok: "task_step W \<tau> \<sigma> \<sigma>' \<Longrightarrow> sys_ok W \<sigma> \<Longrightarrow> sys_ok W \<sigma>'"
proof (induction rule: task_step.induct)
  case (metrics_timer i \<sigma> w env_json tokio_json avg)
  then show ?case by (intro sys_ok_app flush_metrics_good)
next
  case (bwe_timer i \<sigma> w)
  then show ?case using bwe_tick_good [OF sys_okD(1) [OF bwe_timer(4)], of "w_env W" w] sys_ok_app [OF bwe_timer(4)] by auto
next
  case (dtls_write remote p pc c \<sigma> buf)
  then show ?case by (intro sys_ok_app) (simp_all add: demux_send_def good_media [OF send_to_step])
next
  case (egress_turn p \<sigma>)
  then show ?case by (intro sys_ok_app good_media [OF egress_step_media])
next
  case (keyframe_turn p ssrc addr \<sigma>)
  then show ?case by (intro sys_ok_app pli_attempt_good)
next
  case (duration_measured \<sigma> t us)
  then show ?case by (intro sys_ok_app good_metrics)
next
  case (floor_timer \<sigma> now)
  then show ?case by (intro sys_ok_app floor_timer_good) (auto dest: sys_okD)
next
  case (reaper \<sigma> now)
  then show ?case by (intro sys_ok_app reaper_good) (auto dest: sys_okD)
qed (auto intro: sys_ok_datagram sys_ok_handshake sys_ok_read sys_ok_end sys_ok_opened sys_ok_event)

lemma sys_step_ok: "sys_step W \<sigma> \<sigma>' \<Longrightarrow> sys_ok W \<sigma> \<Longrightarrow> sys_ok W \<sigma>'"
  by (auto simp: sys_step_def intro: task_step_ok)

lemma sys_ok_start: "sys_ok W (system_start now seeds worker_count mode bitrate :: 'c sys)"
proof -
  let ?s = "create_default_rooms now seeds app_new :: 'c app"
  have "state_ok ?s" by (rule good_stepD(1) [OF create_default_rooms_good]) simp
  moreover have ch: "channels ?s = []" by (simp add: create_default_rooms_def app_new_def)
  moreover have "worker_ok w ?s" if "w \<in> set (start_workers worker_count mode bitrate)" for w
    using that by (auto simp: start_workers_def)
  ultimately show ?thesis by (auto simp: sys_ok_def system_start_def chans_bounded_def)
qed

lemma reachable_ok: "reachable W \<sigma> \<Longrightarrow> sys_ok W \<sigma>"
  by (induction rule: reachable.induct) (auto intro: sys_ok_start sys_step_ok)

section \<open>What holds of every run\<close>

text \<open>
  C1: the server is safe in every reachable state, in whatever order its tasks take their
  steps and whatever the clients send. The members of a room are participants of this user
  and this room, and there are never more than its capacity. An address that is found leads
  to a current member whose session is latched to it. Both rewriters of a room speak for
  the holder of its floor, and a conference room has none. No egress queue is longer than
  its bound, no participant has two tracks with one SSRC or two egress tasks, and no worker
  has died unless the trace level is logged.
\<close>

theorem system_safe:
  assumes "reachable W \<sigma>"
  shows "(\<forall>rid uid p. member (hub (sy_app \<sigma>)) rid uid = Some p \<longrightarrow>
      p_user_id (pt (sy_app \<sigma>) p) = uid \<and> p_room_id (pt (sy_app \<sigma>) p) = rid) \<and>
    (\<forall>rid r. room_of (sy_app \<sigma>) rid = Some r \<longrightarrow> length (participants r) \<le> r_capacity r \<and>
      rw_speaker (rw_state (audio_rewriter r)) = current_speaker (r_floor r) \<and>
      rw_speaker (rw_state (video_rewriter r)) = current_speaker (r_floor r) \<and>
      (r_mode r = Conference \<longrightarrow> current_speaker (r_floor r) = None)) \<and>
    (\<forall>a p pc rid. find_by_addr (hub (sy_app \<sigma>)) a = Some (p, pc, rid) \<longrightarrow>
      member (hub (sy_app \<sigma>)) rid (p_user_id (pt (sy_app \<sigma>) p)) = Some p \<and>
      ms_address (session (pt (sy_app \<sigma>) p) pc) = Some a) \<and>
    (\<forall>p < length (heap (hub (sy_app \<sigma>))). length (egress_queue (pt (sy_app \<sigma>) p)) \<le> EGRESS_QUEUE_SIZE \<and>
      distinct (map t_ssrc (tracks (pt (sy_app \<sigma>) p)))) \<and>
    distinct (egress_spawns (sy_app \<sigma>)) \<and> (w_tracing W \<or> None \<notin> set (sy_workers \<sigma>))"
proof -
  let ?s = "sy_app \<sigma>"
  have ok: "sys_ok W \<sigma>" by (rule reachable_ok [OF assms])
  note S = sys_okD(1) [OF ok] and A = state_okD(1) [OF sys_okD(1) [OF ok]]
  note H = app_okD(1) [OF A]
  have "p_user_id (pt ?s p) = uid \<and> p_room_id (pt ?s p) = rid" if "member (hub ?s) rid uid = Some p" for rid uid p
    using member_ok(2,3) [OF H that] by (simp add: pt_def)
  moreover have "length (participants r) \<le> r_capacity r \<and>
      rw_speaker (rw_state (audio_rewriter r)) = current_speaker (r_floor r) \<and>
      rw_speaker (rw_state (video_rewriter r)) = current_speaker (r_floor r) \<and>
      (r_mode r = Conference \<longrightarrow> current_speaker (r_floor r) = None)" if "room_of ?s rid = Some r" for rid r
    using app_okD(3) [OF A that] room_okD(3) [OF app_okD(4) [OF A that]] by (simp add: floor_synced_def)
  moreover have "member (hub ?s) rid (p_user_id (pt ?s p)) = Some p \<and> ms_address (session (pt ?s p) pc) = Some a"
    if "find_by_addr (hub ?s) a = Some (p, pc, rid)" for a p pc rid
    using found_by_addr [OF H that] by (simp add: pt_def)
  moreover have "length (egress_queue (pt ?s p)) \<le> EGRESS_QUEUE_SIZE \<and> distinct (map t_ssrc (tracks (pt ?s p)))"
    if "p < length (heap (hub ?s))" for p
    using app_okD(2) [OF A that] by (simp add: wf_pt_def wf_tracks_def)
  moreover have "distinct (egress_spawns ?s)" using state_okD(2) [OF S] by (simp add: log_ok_def)
  moreover note sys_okD(3) [OF ok]
  ultimately show ?thesis by blast
qed

text \<open>
  C2: no dead ends. In every reachable state a connection can take its next turn for
  whatever it receives: no handler panics. And when a worker waits in the send of a DTLS
  packet, the task that owns the full channel is alive and can read, and once it has read
  one packet the turn of the worker finishes.
\<close>

theorem system_responsive:
  assumes "reachable W \<sigma>"
  shows "(\<forall>n cn fr b now ev. n < length (sy_conns \<sigma>) \<longrightarrow> sy_conns \<sigma> ! n = Some cn \<longrightarrow>
      (\<exists>cn' s'. connection_turn (w_env W) (w_server W) (w_dec W) fr b now ev cn (sy_app \<sigma>) = Some (cn', s') \<and>
         sys_step W \<sigma> (\<sigma>\<lparr>sy_app := s', sy_conns := (sy_conns \<sigma>)[n := cn']\<rparr>))) \<and>
    (\<forall>i w now arrival data remote. i < length (sy_workers \<sigma>) \<longrightarrow> sy_workers \<sigma> ! i = Some w \<longrightarrow>
      udp_turn (w_env W) (w_order W) (w_tracing W) now arrival data remote w (sy_app \<sigma>) = Waits \<longrightarrow>
      (\<exists>c pkt ch. dtls_map w remote = Some c \<and> demux_recv (has_sender \<sigma> c) len (channels (sy_app \<sigma>) ! c) = Some (Inr pkt, ch) \<and>
         sys_step W \<sigma> (\<sigma>\<lparr>sy_app := on_channel c (\<lambda>_. ch) (sy_app \<sigma>)\<rparr>) \<and>
         (\<exists>w' s'. udp_turn (w_env W) (w_order W) (w_tracing W) now arrival data remote w
            (on_channel c (\<lambda>_. ch) (sy_app \<sigma>)) = Finished (w', s'))))"
proof (intro conjI allI impI)
  fix n cn fr b now ev
  assume n: "n < length (sy_conns \<sigma>)" "sy_conns \<sigma> ! n = Some cn"
  show "\<exists>cn' s'. connection_turn (w_env W) (w_server W) (w_dec W) fr b now ev cn (sy_app \<sigma>) = Some (cn', s') \<and>
         sys_step W \<sigma> (\<sigma>\<lparr>sy_app := s', sy_conns := (sy_conns \<sigma>)[n := cn']\<rparr>)"
    using connection_turn_good [of "w_env W" "w_server W" "w_dec W" fr b now ev cn "sy_app \<sigma>"] sys_stepI [OF connection_event [OF n]] by blast
next
  fix i w now arrival data remote
  let ?s = "sy_app \<sigma>"
  assume i: "i < length (sy_workers \<sigma>)" "sy_workers \<sigma> ! i = Some w"
    and t: "udp_turn (w_env W) (w_order W) (w_tracing W) now arrival data remote w ?s = Waits"
  have ok: "sys_ok W \<sigma>" by (rule reachable_ok [OF assms])
  note wok = sys_okD(2) [OF ok i]
  have st: "classify data = Dtls_Packet" "dtls_stalled w remote ?s"
    using udp_turn_good [OF sys_okD(1) [OF ok] wok, where e = "w_env W" and order = "w_order W" and tracing = "w_tracing W"
        and now = now and arrival = arrival and data = data and remote = remote] t by simp_all
  then obtain c where c: "dtls_map w remote = Some c" "chan_open (channels ?s ! c)"
      "DTLS_CHANNEL_SIZE \<le> length (chan_queue (channels ?s ! c))"
    by (auto simp: dtls_stalled_def)
  have len: "c < length (channels ?s)" using wok c(1) by (auto simp: worker_ok_def)
  then have full: "length (chan_queue (channels ?s ! c)) \<le> DTLS_CHANNEL_SIZE"
    using sys_okD(6) [OF ok] by (simp add: chans_bounded_def)
  obtain x rest where q: "chan_queue (channels ?s ! c) = x # rest"
    using c(3) by (cases "chan_queue (channels ?s ! c)") (simp_all add: DTLS_CHANNEL_SIZE_def)
  let ?ch = "(channels ?s ! c)\<lparr>chan_queue := rest\<rparr>"
  let ?t = "on_channel c (\<lambda>_. ?ch) ?s"
  have r: "demux_recv (has_sender \<sigma> c) len (channels ?s ! c) = Some (Inr (take (min (length x) len) x), ?ch)" for len
    by (simp add: demux_recv_def q)
  have "sy_dtls \<sigma> c \<noteq> Ended" using sys_okD(4) [OF ok len] c(2) by simp
  then have step: "sys_step W \<sigma> (\<sigma>\<lparr>sy_app := ?t\<rparr>)" using sys_stepI [OF dtls_read [OF len _ r]] by blast
  have ch: "channels ?t ! c = ?ch" using len by (simp add: on_channel_def)
  have "handle_dtls data remote w ?t \<noteq> Waits \<and> handle_dtls data remote w ?t \<noteq> Panicked"
    using handle_dtls_room [of w ?t remote c data] c(1,2) full q wok
    by (simp add: ch worker_ok_def on_channel_def)
  then obtain w' s' where "handle_dtls data remote w ?t = Finished (w', s')" by (cases "handle_dtls data remote w ?t") auto
  then have "\<exists>w' s'. udp_turn (w_env W) (w_order W) (w_tracing W) now arrival data remote w ?t = Finished (w', s')"
    by (simp add: udp_turn_def st(1))
  then show "\<exists>c pkt ch. dtls_map w remote = Some c \<and> demux_recv (has_sender \<sigma> c) len (channels ?s ! c) = Some (Inr pkt, ch) \<and>
         sys_step W \<sigma> (\<sigma>\<lparr>sy_app := on_channel c (\<lambda>_. ch) ?s\<rparr>) \<and>
         (\<exists>w' s'. udp_turn (w_env W) (w_order W) (w_tracing W) now arrival data remote w (on_channel c (\<lambda>_. ch) ?s) = Finished (w', s'))"
    using c(1) r step by blast
qed

section \<open>A small run\<close>

definition demo_world :: "nat world" where
  "demo_world = \<lparr>w_env = demo_env, w_server = demo_server, w_dec = demo_dec, w_order = (\<lambda>x. x), w_tracing = False\<rparr>"

definition demo_start :: "nat sys" where
  "demo_start = system_start 5 [(''a'', 1, 2), (''b'', 3, 4), (''c'', 5, 6)] 2 Twcc 500000"

definition demo_connected :: "nat sys" where
  "demo_connected = demo_start\<lparr>sy_app := snd (connection_open demo_env True 0 7 (sy_app demo_start)),
     sy_conns := [fst (connection_open demo_env True 0 7 (sy_app demo_start))]\<rparr>"

lemma demo_conns: "sy_conns demo_start = []"
  by (simp add: demo_start_def system_start_def)

lemma demo_reachable: "reachable demo_world demo_start" "reachable demo_world demo_connected"
proof -
  show r: "reachable demo_world demo_start" unfolding demo_start_def by (rule start)
  have "sys_step demo_world demo_start demo_connected"
    using sys_stepI [OF connected [of demo_world True demo_start 7]] unfolding demo_connected_def
    by (simp add: demo_conns demo_world_def)
  then show "reachable demo_world demo_connected" using step r by blast
qed

lemma demo_rooms: "\<exists>r. room_of (sy_app demo_start) ''c'' = Some r \<and> r_mode r = Conference"
  by (simp add: demo_start_def system_start_def create_default_rooms_def default_rooms_def app_new_def hub_new_def
      hub_create_def room_of_def put_room_def room_new_def Let_def)

theorem system_safe_witness:
  "\<exists>r. room_of (sy_app demo_start) ''c'' = Some r \<and> length (participants r) \<le> r_capacity r \<and> current_speaker (r_floor r) = None"
  using system_safe [OF demo_reachable(1)] demo_rooms by blast

theorem system_responsive_witness:
  "\<exists>cn' s'. connection_turn demo_env demo_server demo_dec demo_fresh True 9 (WsText ''{}'')
     \<lparr>cn_session = snd (next_pid (session_new 0)), cn_last_activity = 7\<rparr> (sy_app demo_connected) = Some (cn', s')"
proof -
  have "sy_conns demo_connected = [Some \<lparr>cn_session = snd (next_pid (session_new 0)), cn_last_activity = 7\<rparr>]"
    by (simp add: demo_connected_def connection_open_def next_pid_def send_packet_def demo_env_def)
  then show ?thesis
    using conjunct1 [OF system_responsive [OF demo_reachable(2), of 0], rule_format, of 0 _ demo_fresh True 9 "WsText ''{}''"]
    by (auto simp: demo_world_def)
qed

end
