(* ===== verification/Protocol.thy ===== *)
theory Protocol
  imports Server
begin

text \<open>
  The types of the signaling protocol: what the JSON of every event, answer and message to
  the administrators looks like, as a schema per opcode, and the proof that whatever the
  handlers build has its type. The schemas are the contract that \<open>src/signaling/message.rs\<close>
  and the opcodes document; the builders are those of \<open>src/signaling/handler.rs\<close> and of the
  timers in \<open>src/lib.rs\<close>.
\<close>

section \<open>Types of JSON values\<close>

text \<open>
  A record has exactly the listed fields, each at most once, and those marked required; an
  open record may have others.
\<close>

datatype jtype =
    TAny | TBool | TStr | TInt
  | TBelow nat
  | TOneOf "string list"
  | TCode "int list"
  | TOr jtype jtype
  | TArr jtype
  | TRec "(string \<times> bool \<times> jtype) list"
  | TOpen "(string \<times> bool \<times> jtype) list"

fun has_type :: "jtype \<Rightarrow> json \<Rightarrow> bool" where
  "has_type TAny j = True"
| "has_type TBool j = (case j of JBool b \<Rightarrow> True | _ \<Rightarrow> False)"
| "has_type TStr j = (case j of JStr s \<Rightarrow> True | _ \<Rightarrow> False)"
| "has_type TInt j = (case j of JNum n \<Rightarrow> True | _ \<Rightarrow> False)"
| "has_type (TBelow b) j = (case j of JNum n \<Rightarrow> 0 \<le> n \<and> n < int b | _ \<Rightarrow> False)"
| "has_type (TOneOf ss) j = (case j of JStr s \<Rightarrow> s \<in> set ss | _ \<Rightarrow> False)"
| "has_type (TCode ns) j = (case j of JNum n \<Rightarrow> n \<in> set ns | _ \<Rightarrow> False)"
| "has_type (TOr s t) j = (has_type s j \<or> has_type t j)"
| "has_type (TArr t) j = (case j of JArr js \<Rightarrow> list_all (has_type t) js | _ \<Rightarrow> False)"
| "has_type (TRec fs) j =
     (case j of JObj kvs \<Rightarrow>
        distinct (map fst kvs) \<and> set (map fst kvs) \<subseteq> set (map fst fs) \<and>
        list_all (\<lambda>(k, req, t). case map_of kvs k of None \<Rightarrow> \<not> req | Some v \<Rightarrow> has_type t v) fs
      | _ \<Rightarrow> False)"
| "has_type (TOpen fs) j =
     (case j of JObj kvs \<Rightarrow>
        list_all (\<lambda>(k, req, t). case map_of kvs k of None \<Rightarrow> \<not> req | Some v \<Rightarrow> has_type t v) fs
      | _ \<Rightarrow> False)"

section \<open>The schemas\<close>

definition T_kind :: jtype where "T_kind = TOneOf [''audio'', ''video'']"
definition T_mode :: jtype where "T_mode = TOneOf [''conference'', ''ptt'']"
definition T_u32 :: jtype where "T_u32 = TBelow (2 ^ 32)"

definition T_track :: jtype where
  "T_track = TRec [(''user_id'', True, TStr), (''kind'', True, T_kind), (''ssrc'', True, T_u32),
     (''track_id'', True, TStr), (''rtx_ssrc'', False, T_u32)]"

text \<open>Events, which carry the packet identifier \<open>0\<close>; the greeting is the only exception.\<close>

definition event_schema :: "u16 \<Rightarrow> jtype option" where
  "event_schema = [
     HELLO \<mapsto> TRec [(''heartbeat_interval'', True, TInt)],
     ROOM_EVENT \<mapsto> TRec [(''type'', True, TOneOf [''participant_joined'', ''participant_left'']),
       (''room_id'', True, TStr), (''user_id'', True, TStr)],
     TRACKS_UPDATE \<mapsto> TRec [(''action'', True, TOneOf [''add'', ''remove'']), (''tracks'', True, TArr T_track)],
     TRACK_STATE \<mapsto> TRec [(''user_id'', True, TStr), (''ssrc'', True, T_u32), (''kind'', True, T_kind), (''muted'', True, TBool)],
     MESSAGE_EVENT \<mapsto> TRec [(''room_id'', True, TStr), (''user_id'', True, TStr), (''content'', True, TStr)],
     FLOOR_TAKEN \<mapsto> TRec [(''room_id'', True, TStr), (''speaker'', True, TStr)],
     FLOOR_IDLE \<mapsto> TRec [(''room_id'', True, TStr), (''prev_speaker'', True, TStr), (''cause'', False, TStr)],
     FLOOR_REVOKE \<mapsto> TRec [(''room_id'', True, TStr), (''cause'', True, TStr)]]"

definition T_join :: jtype where
  "T_join = TRec [(''room_id'', True, TStr), (''mode'', True, T_mode), (''participants'', True, TArr TStr),
     (''server_config'', True, TRec [
        (''ice'', True, TRec [(''publish_ufrag'', True, TStr), (''publish_pwd'', True, TStr), (''subscribe_ufrag'', True, TStr),
          (''subscribe_pwd'', True, TStr), (''ip'', True, TStr), (''port'', True, TInt)]),
        (''dtls'', True, TRec [(''fingerprint'', True, TStr), (''setup'', True, TOneOf [''passive''])]),
        (''codecs'', True, TArr (TOpen [(''kind'', True, T_kind), (''name'', True, TStr), (''pt'', True, TBelow 128),
          (''clockrate'', True, TInt), (''rtcp_fb'', True, TArr TStr)])),
        (''extmap'', True, TArr (TRec [(''id'', True, TBelow 15), (''uri'', True, TStr)])),
        (''max_bitrate_bps'', True, TInt)]),
     (''tracks'', True, TArr T_track),
     (''ptt_virtual_ssrc'', False, TRec [(''audio'', True, T_u32), (''video'', True, T_u32)])]"

text \<open>The answers that report success, by opcode.\<close>

definition reply_schema :: "u16 \<Rightarrow> jtype option" where
  "reply_schema = [
     HEARTBEAT \<mapsto> TRec [],
     IDENTIFY \<mapsto> TRec [(''user_id'', True, TStr)],
     ROOM_LIST \<mapsto> TRec [(''rooms'', True, TArr (TRec [(''room_id'', True, TStr), (''name'', True, TStr), (''capacity'', True, TInt),
       (''mode'', True, T_mode), (''participants'', True, TInt)]))],
     ROOM_CREATE \<mapsto> TRec [(''room_id'', True, TStr), (''name'', True, TStr), (''capacity'', True, TInt), (''mode'', True, T_mode)],
     ROOM_JOIN \<mapsto> T_join,
     ROOM_LEAVE \<mapsto> TRec [],
     PUBLISH_TRACKS \<mapsto> TRec [(''registered'', True, TInt)],
     MUTE_UPDATE \<mapsto> TRec [(''ssrc'', True, T_u32), (''muted'', True, TBool)],
     MESSAGE \<mapsto> TRec [(''msg_id'', True, TStr)],
     FLOOR_REQUEST \<mapsto> TRec [(''granted'', True, TBool), (''speaker'', True, TStr)],
     FLOOR_RELEASE \<mapsto> TRec [],
     FLOOR_PING \<mapsto> TRec []]"

text \<open>Every code that an error can have.\<close>

definition T_error :: jtype where
  "T_error = TRec [(''code'', True, TCode [1001, 1002, 1003, 2001, 2002, 2003, 2004, 2005, 2010, 2020, 2021,
     3001, 3002, 3003, 4001, 4002, 4003, 9001]), (''msg'', True, TStr)]"

text \<open>What administrators read: snapshots, relayed telemetry, metrics.\<close>

definition T_admin :: jtype where
  "T_admin =
     TOr (TRec [(''type'', True, TOneOf [''snapshot'']), (''rooms'', True, TArr (TRec [
            (''room_id'', True, TStr), (''name'', True, TStr), (''capacity'', True, TInt), (''mode'', True, T_mode),
            (''participants'', True, TArr (TRec [(''user_id'', True, TStr), (''pub_ready'', True, TBool),
               (''sub_ready'', True, TBool), (''tracks'', True, TArr (TRec [(''kind'', True, T_kind), (''ssrc'', True, T_u32),
                 (''track_id'', True, TStr), (''muted'', True, TBool), (''rtx_ssrc'', False, T_u32)]))])),
            (''ptt'', False, TRec [(''floor_speaker'', True, TAny), (''audio_virtual_ssrc'', True, TStr),
               (''video_virtual_ssrc'', True, TStr)])]))])
    (TOr (TRec [(''type'', True, TOneOf [''client_telemetry'']), (''user_id'', True, TStr), (''room_id'', True, TStr),
            (''data'', True, TAny)])
         (TOpen [(''type'', True, TOneOf [''server_metrics'']), (''ptt'', True, TOpen []), (''fan_out'', True, TOpen []),
            (''env'', True, TAny), (''tokio_runtime'', True, TAny)]))"

section \<open>Typed packets and effects\<close>

definition event_packet :: "packet \<Rightarrow> bool" where
  "event_packet x \<longleftrightarrow> \<not> is_response x \<and> (op x \<noteq> HELLO \<longrightarrow> pid x = 0) \<and>
     (case event_schema (op x) of None \<Rightarrow> False | Some t \<Rightarrow> has_type t (d x))"

definition reply_packet :: "packet \<Rightarrow> bool" where
  "reply_packet x \<longleftrightarrow>
     (case ok x of
        None \<Rightarrow> op x = HELLO \<and> event_packet x
      | Some True \<Rightarrow> (case reply_schema (op x) of None \<Rightarrow> False | Some t \<Rightarrow> has_type t (d x))
      | Some False \<Rightarrow> has_type T_error (d x))"

text \<open>
  A text that is queued for a connection is an event, a text that is written to it an
  answer; only a notice of revocation that cannot be printed is the empty text.
\<close>

fun polite :: "'c env \<Rightarrow> effect \<Rightarrow> bool" where
  "polite e (WsSend tx j) = (\<exists>x. event_packet x \<and> op x \<noteq> HELLO \<and>
      (packet_string e x = Some j \<or> op x = FLOOR_REVOKE \<and> packet_string e x = None \<and> j = []))"
| "polite e (WsReply tx j) = (\<exists>x. reply_packet x \<and> packet_string e x = Some j)"
| "polite e (AdminSend j) = (\<exists>v. has_type T_admin v \<and> j = json_string e v)"
| "polite e _ = True"

section \<open>The builders are typed\<close>

lemmas type_defs = T_kind_def T_mode_def T_u32_def T_track_def

lemma jword_u32 [simp]: "has_type T_u32 (jword (w :: u32))"
  using uint_lt2p [of w] by (simp add: T_u32_def jword_def)

lemma kind_typed [simp]: "has_type T_kind (JStr (show_track_kind k))" "has_type T_mode (JStr (show_room_mode m))"
  by (cases k; simp add: T_kind_def show_track_kind_def) (cases m; simp add: T_mode_def show_room_mode_def)

lemma track_json_typed [simp]: "has_type T_track (track_json u t)"
  by (simp add: T_track_def track_json_def track_fields_def rtx_field_def split: option.split)

lemma list_all_map_typed [simp]: "(\<And>x. x \<in> set xs \<Longrightarrow> has_type t (f x)) \<Longrightarrow> list_all (has_type t) (map f xs)"
  by (simp add: list_all_iff)

lemma publish_items_typed: "publish_items u p n ts s = (js, s') \<Longrightarrow> list_all (has_type T_track) js"
proof (induction u p n ts s arbitrary: js s' rule: publish_items.induct)
  case (2 u p n t ts s)
  have k: "has_type T_kind (JStr (pti_kind t))" if "parse_kind (pti_kind t) = Some k" for k
    using that by (auto simp: parse_kind_def T_kind_def split: if_splits)
  have "has_type T_track (JObj ([(''user_id'', JStr u), (''kind'', JStr (pti_kind t)), (''ssrc'', jword (pti_ssrc t)),
      (''track_id'', JStr i)] @ rtx_field r))" if "parse_kind (pti_kind t) = Some k" for k i r
    using k [OF that] by (simp add: T_track_def rtx_field_def split: option.split)
  then show ?case using 2
    by (auto simp: Let_def apfst_def map_prod_def split: option.splits prod.splits)
qed simp

text \<open>The events.\<close>

named_theorems typed

lemma event_typed [typed]:
  "event_packet (hello n)"
  "event_packet (room_event ''participant_joined'' rid u)" "event_packet (room_event ''participant_left'' rid u)"
  "list_all (has_type T_track) js \<Longrightarrow> event_packet (tracks_update ''add'' js)"
  "list_all (has_type T_track) js \<Longrightarrow> event_packet (tracks_update ''remove'' js)"
  "event_packet (track_state u ssrc k b)"
  "event_packet (packet_new MESSAGE_EVENT 0 (JObj [(''room_id'', JStr rid), (''user_id'', JStr u), (''content'', JStr c)]))"
  "event_packet (floor_taken rid v)" "event_packet (floor_idle rid v cause)" "event_packet (floor_revoke rid c)"
  by (simp_all add: event_packet_def is_response_def packet_new_def event_schema_def opcode_defs hello_def room_event_def
      tracks_update_def track_state_def floor_taken_def floor_idle_def floor_revoke_def split: option.split)

lemma event_op [simp]:
  "op (room_event a rid u) = ROOM_EVENT" "op (tracks_update a js) = TRACKS_UPDATE" "op (track_state u ssrc k b) = TRACK_STATE"
  "op (floor_taken rid v) = FLOOR_TAKEN" "op (floor_idle rid v cause) = FLOOR_IDLE" "op (floor_revoke rid c) = FLOOR_REVOKE"
  "op (packet_new o' n j) = o'"
  by (simp_all add: packet_new_def room_event_def tracks_update_def track_state_def floor_taken_def floor_idle_def floor_revoke_def)

lemma not_hello [simp]:
  "ROOM_EVENT \<noteq> HELLO" "TRACKS_UPDATE \<noteq> HELLO" "TRACK_STATE \<noteq> HELLO" "MESSAGE_EVENT \<noteq> HELLO"
  "FLOOR_TAKEN \<noteq> HELLO" "FLOOR_IDLE \<noteq> HELLO" "FLOOR_REVOKE \<noteq> HELLO"
  by (simp_all add: opcode_defs)

lemma polite_event_for [typed]:
  assumes "event_packet x" and "op x \<noteq> HELLO"
  shows "list_all (polite e) (event_for e s x ps)"
  using assms by (auto simp: event_for_def to_members_def list_all_iff split: option.split)

lemma polite_tracks [typed]:
  "ts \<noteq> [] \<longrightarrow> list_all (polite e) (event_for e s (tracks_update ''remove'' (map (track_json u) ts)) ps)"
  by (intro impI polite_event_for typed) simp_all

lemma polite_revoke [typed]:
  "packet_string e (floor_revoke rid cause) = Some j \<Longrightarrow> polite e (WsSend tx j)"
  "packet_string e (floor_revoke rid cause) = None \<Longrightarrow> polite e (WsSend tx [])"
proof -
  have "event_packet (floor_revoke rid cause)" "op (floor_revoke rid cause) \<noteq> HELLO"
    by (rule typed) simp
  then show "packet_string e (floor_revoke rid cause) = Some j \<Longrightarrow> polite e (WsSend tx j)"
    "packet_string e (floor_revoke rid cause) = None \<Longrightarrow> polite e (WsSend tx [])"
    by (auto intro!: exI [of _ "floor_revoke rid cause"])
qed

lemma polite_floor_events [typed]: "list_all (polite e) (floor_events e s action r u)"
  by (cases action)
     (auto simp del: polite.simps split: option.split intro: polite_revoke intro!: polite_event_for event_typed)

lemma polite_left_events [typed]: "list_all (polite e) (left_events e s rid u ts ps)"
  by (auto simp: left_events_def intro!: polite_event_for typed polite_tracks [rule_format])

lemma polite_revoke_events [typed]: "list_all (polite e) (revoke_events e s now r)"
  by (auto simp: revoke_events_def simp del: polite.simps split: option.split
      intro: polite_revoke intro!: polite_event_for event_typed)

text \<open>The messages to the administrators.\<close>

lemma snapshot_typed: "has_type T_admin (build_rooms_snapshot s)"
proof -
  have t: "has_type (TRec [(''kind'', True, T_kind), (''ssrc'', True, T_u32),
      (''track_id'', True, TStr), (''muted'', True, TBool), (''rtx_ssrc'', False, T_u32)]) (snapshot_track t)" for t
    by (simp add: snapshot_track_def track_fields_def rtx_field_def split: option.split)
  show ?thesis
    by (simp add: T_admin_def build_rooms_snapshot_def snapshot_room_def snapshot_participant_def list_all_iff split_beta
        t [simplified])
qed

lemma metrics_typed: "has_type T_admin (fst (metrics_flush env_json tokio_json avg m))"
  by (simp add: T_admin_def metrics_flush_def)

lemma polite_admin [typed]:
  "polite e (AdminSend (json_string e (build_rooms_snapshot s)))"
  "polite e (AdminSend (json_string e (fst (metrics_flush env_json tokio_json avg m))))"
  "polite e (AdminSend (json_string e (JObj [(''type'', JStr ''client_telemetry''), (''user_id'', JStr u),
     (''room_id'', JStr rid), (''data'', v)])))"
proof -
  have "polite e (AdminSend (json_string e v))" if "has_type T_admin v" for v using that by auto
  moreover have "has_type T_admin (JObj [(''type'', JStr ''client_telemetry''), (''user_id'', JStr u), (''room_id'', JStr rid), (''data'', v)])"
    by (simp add: T_admin_def)
  ultimately show "polite e (AdminSend (json_string e (build_rooms_snapshot s)))"
    "polite e (AdminSend (json_string e (fst (metrics_flush env_json tokio_json avg m))))"
    "polite e (AdminSend (json_string e (JObj [(''type'', JStr ''client_telemetry''), (''user_id'', JStr u), (''room_id'', JStr rid), (''data'', v)])))"
    using snapshot_typed metrics_typed by blast+
qed

section \<open>The answers are typed\<close>

lemma err_typed [typed]:
  "code \<in> {1001, 2001, 2004, 2005, 2010, 2020, 2021, 3001, 3002} \<Longrightarrow> reply_packet (packet_err o' n code msg)"
  "reply_packet (packet_err o' n (error_code err) msg)"
  by (auto simp: reply_packet_def packet_err_def T_error_def) (cases err; simp)

lemma ok_typed: "reply_packet (packet_ok o' n j) = (case reply_schema o' of None \<Rightarrow> False | Some t \<Rightarrow> has_type t j)"
  by (simp add: reply_packet_def packet_ok_def split: option.split)

lemma empty_typed [typed]:
  "reply_packet (packet_ok HEARTBEAT n (JObj []))" "reply_packet (packet_ok ROOM_LEAVE n (JObj []))"
  "reply_packet (packet_ok FLOOR_RELEASE n (JObj []))" "reply_packet (packet_ok FLOOR_PING n (JObj []))"
  by (simp_all add: ok_typed reply_schema_def opcode_defs)

lemma reply_typed [typed]:
  "reply_packet (packet_ok IDENTIFY n (JObj [(''user_id'', JStr u)]))"
  "reply_packet (handle_room_list x s)"
  "reply_packet (packet_ok PUBLISH_TRACKS n (JObj [(''registered'', JNum k)]))"
  "reply_packet (packet_ok MUTE_UPDATE n (JObj [(''ssrc'', jword (w :: u32)), (''muted'', JBool b)]))"
  "reply_packet (packet_ok MESSAGE n (JObj [(''msg_id'', JStr u)]))"
  "reply_packet (packet_ok FLOOR_REQUEST n (JObj [(''granted'', JBool b), (''speaker'', JStr u)]))"
  "reply_packet (fst (handle_room_create dec fr x s))" "reply_packet (fst (handle_identify dec fr x ss))"
  by (auto simp: ok_typed reply_schema_def opcode_defs handle_room_list_def room_list_item_def handle_room_create_def
      handle_identify_def list_all_iff Let_def typed split: option.split prod.split)

lemma join_typed [typed]:
  assumes "list_all (has_type T_track) existing"
  shows "reply_packet (packet_ok ROOM_JOIN n (join_response sv rid r pi si existing))"
  using assms
  by (simp add: ok_typed reply_schema_def opcode_defs T_join_def join_response_def server_codec_policy_def
      server_extmap_policy_def T_kind_def)

lemma existing_typed: "list_all (has_type T_track) (existing_tracks s r u)"
  by (auto simp: existing_tracks_def list_all_iff)

lemma join_reply: "handle_room_join e sv dec fr x ss s = Some (resp, ss', s') \<Longrightarrow> reply_packet resp"
  by (cases "su_user ss")
     (auto simp: handle_room_join_def Let_def bind_eq_Some_conv intro!: typed existing_typed
        split: option.split_asm prod.split_asm sum.split_asm)

lemma leave_reply: "handle_room_leave e dec x ss s = Some (resp, ss', s') \<Longrightarrow> reply_packet resp"
  by (cases "su_user ss")
     (auto simp: handle_room_leave_def Let_def intro!: typed split: option.split_asm prod.split_asm sum.split_asm)

lemma own_seat_code: "own_seat ss u s = Inl (code, msg) \<Longrightarrow> code \<in> {2001, 2004}"
  by (auto simp: own_seat_def split: option.splits sum.splits)

lemma publish_reply: "handle_publish_tracks e dec x ss s = Some (resp, s') \<Longrightarrow> reply_packet resp"
  using own_seat_code
  by (cases "su_user ss")
     (fastforce simp: handle_publish_tracks_def Let_def intro!: typed split: option.split_asm prod.split_asm sum.split_asm)+

lemma mute_reply: "handle_mute_update e dec x ss s = Some (resp, s') \<Longrightarrow> reply_packet resp"
  using own_seat_code
  by (cases "su_user ss")
     (fastforce simp: handle_mute_update_def Let_def intro!: typed split: option.split_asm prod.split_asm sum.split_asm)+

lemma message_reply: "handle_message e dec fr x ss s = Some (resp, s') \<Longrightarrow> reply_packet resp"
  by (cases "su_user ss") (auto simp: handle_message_def Let_def intro!: typed split: option.split_asm)

lemma floor_reply:
  "\<lbrakk>action = Granted v \<or> (\<exists>reason w. action = Denied reason w)\<rbrakk> \<Longrightarrow>
     reply_packet (fst (apply_floor_action e FLOOR_REQUEST n action r u s))"
  "\<nexists>v. action = Granted v \<Longrightarrow> reply_packet (fst (apply_floor_action e FLOOR_RELEASE n action r u s))"
  by (cases action; auto simp: apply_floor_action_def intro!: typed)+

lemma floor_request_reply: "handle_floor_request e dec fr x ss s = Some (resp, s') \<Longrightarrow> reply_packet resp"
proof -
  assume h: "handle_floor_request e dec fr x ss s = Some (resp, s')"
  have *: "reply_packet p" if "floor_request f u now = (action, f')" "apply_floor_action e FLOOR_REQUEST n action r u t = (p, t')"
    for f u now action f' n r t p t'
    using floor_reply(1) [of action u e n r u t] fc.request_cases [OF that(1)] that(2) by auto
  show ?thesis using h *
    by (cases "su_user ss")
       (fastforce simp: handle_floor_request_def Let_def intro!: typed
          split: option.split_asm prod.split_asm sum.split_asm if_split_asm)+
qed

lemma floor_release_reply: "handle_floor_release e dec x ss s = Some (resp, s') \<Longrightarrow> reply_packet resp"
proof -
  assume h: "handle_floor_release e dec x ss s = Some (resp, s')"
  have *: "reply_packet p" if "floor_release f u = (action, f')" "apply_floor_action e FLOOR_RELEASE n action r u t = (p, t')"
    for f u action f' n r t p t'
    using floor_reply(2) [of action e n r u t] fc.release_cases [OF that(1)] that(2) by auto
  show ?thesis using h *
    by (cases "su_user ss")
       (fastforce simp: handle_floor_release_def Let_def intro!: typed
          split: option.split_asm prod.split_asm sum.split_asm if_split_asm)+
qed

lemma floor_ping_reply: "handle_floor_ping dec fr x ss s = Some (resp, s') \<Longrightarrow> reply_packet resp"
  by (cases "su_user ss")
     (auto simp: handle_floor_ping_def Let_def intro!: typed
        split: option.split_asm prod.split_asm sum.split_asm floor_action.split_asm)

definition well_answered :: "(packet option \<times> 'q \<times> 'c app) option \<Rightarrow> bool" where
  "well_answered y \<longleftrightarrow> (\<forall>r q s'. y = Some (Some r, q, s') \<longrightarrow> reply_packet r)"

lemma well_answered_intros:
  "reply_packet r \<Longrightarrow> well_answered (Some (Some r, q, s'))" "well_answered (Some (None, q, s'))"
  "(\<And>r s'. y = Some (r, s') \<Longrightarrow> reply_packet r) \<Longrightarrow> well_answered (keep_session ss y)"
  "(\<And>r q s'. z = Some (r, q, s') \<Longrightarrow> reply_packet r) \<Longrightarrow> well_answered (map_option (apfst Some) z)"
  "(c \<Longrightarrow> well_answered v) \<Longrightarrow> (\<not> c \<Longrightarrow> well_answered w) \<Longrightarrow> well_answered (if c then v else w)"
  by (auto simp: well_answered_def keep_session_def)

lemma dispatch_typed: "well_answered (dispatch e sv dec fr x ss s)"
proof -
  have id: "well_answered (case handle_identify dec fr x ss of (resp, ss) \<Rightarrow> Some (Some resp, ss, s))"
    using reply_typed(8) [of dec fr x ss] by (cases "handle_identify dec fr x ss") (simp add: well_answered_def)
  have c: "well_answered (case handle_room_create dec fr x s of (resp, s) \<Rightarrow> Some (Some resp, ss, s))"
    using reply_typed(7) [of dec fr x s] by (cases "handle_room_create dec fr x s") (simp add: well_answered_def)
  show ?thesis unfolding dispatch_def
    by (intro well_answered_intros(5) id c)
       (auto intro!: well_answered_intros(1-4) typed intro: join_reply leave_reply publish_reply mute_reply message_reply
          floor_request_reply floor_release_reply floor_ping_reply)
qed

end
