(* ===== verification/Frames.thy ===== *)
theory Frames
  imports System Protocol
begin

text \<open>
  One walk through every handler and every task, for all frame properties of the server. A
  frame is a relation between the states before and after a step, indexed by who acts. The
  locale \<open>step_frame\<close> asks for its laws at the six places where rooms change; everything
  else a step does is quiet. Its theorem says that every step of the system is in the frame
  for its actor. The properties that rest on it interpret the locale.
\<close>

section \<open>Actors\<close>

text \<open>
  A client acts by a frame with an opcode, or, without one, by an acknowledgement or by the
  end of its connection.
\<close>

datatype actor = Background | FloorClock | Reaper | Client "u16 option" string

text \<open>The user on whose behalf a turn acts: an identify request takes effect at once.\<close>

definition turn_user :: "decoders \<Rightarrow> fresh \<Rightarrow> ws_event \<Rightarrow> ws_session \<Rightarrow> string option" where
  "turn_user dec fr ev ss =
     (case ev of
        WsText json \<Rightarrow>
          (case dec_packet dec json of
             None \<Rightarrow> su_user ss
           | Some x \<Rightarrow> if \<not> is_response x \<and> op x = IDENTIFY then su_user (snd (handle_identify dec fr x ss)) else su_user ss)
      | _ \<Rightarrow> su_user ss)"

definition turn_code :: "decoders \<Rightarrow> ws_event \<Rightarrow> u16 option" where
  "turn_code dec ev =
     (case ev of
        WsText json \<Rightarrow>
          (case dec_packet dec json of None \<Rightarrow> None | Some x \<Rightarrow> if is_response x then None else Some (op x))
      | _ \<Rightarrow> None)"

definition client :: "u16 option \<Rightarrow> string option \<Rightarrow> actor" where
  "client c u = (case u of None \<Rightarrow> Background | Some v \<Rightarrow> Client c v)"

text \<open>Who acted in a step.\<close>

definition acts :: "'c world \<Rightarrow> 'c sys \<Rightarrow> 'c sys \<Rightarrow> actor \<Rightarrow> bool" where
  "acts W \<sigma> \<sigma>' a \<longleftrightarrow>
     (case a of
        Background \<Rightarrow> True
      | FloorClock \<Rightarrow> \<exists>now. sy_app \<sigma>' = floor_timer_tick (w_env W) now (sy_app \<sigma>)
      | Reaper \<Rightarrow> \<exists>now. sy_app \<sigma>' = reaper_tick (w_env W) now (sy_app \<sigma>)
      | Client c v \<Rightarrow> \<exists>n cn fr b now ev cn'. n < length (sy_conns \<sigma>) \<and> sy_conns \<sigma> ! n = Some cn \<and>
          turn_code (w_dec W) ev = c \<and> turn_user (w_dec W) fr ev (cn_session cn) = Some v \<and>
          connection_turn (w_env W) (w_server W) (w_dec W) fr b now ev cn (sy_app \<sigma>) = Some (cn', sy_app \<sigma>'))"

text \<open>As whom a task acts: only a connection acts for a client, and only a timer as itself.\<close>

fun plays :: "task \<Rightarrow> actor \<Rightarrow> bool" where
  "plays _ Background = True"
| "plays \<tau> FloorClock = (\<tau> = FloorTimer)"
| "plays \<tau> Reaper = (\<tau> = ZombieReaper)"
| "plays \<tau> (Client c v) = (\<exists>n. \<tau> = Connection n)"

lemma background_acts [simp]: "acts W \<sigma> \<sigma>' Background" "\<exists>a. acts W \<sigma> \<sigma>' a"
proof -
  show "acts W \<sigma> \<sigma>' Background" by (simp add: acts_def)
  then show "\<exists>a. acts W \<sigma> \<sigma>' a" by blast
qed

lemma set_simps [simp]: "sy_app (set_worker i w \<sigma>) = sy_app \<sigma>" "sy_app (set_phase c ph \<sigma>) = sy_app \<sigma>"
  "sy_app (end_task c \<sigma>) = dtls_task_end c (sy_app \<sigma>)"
  by (simp_all add: set_worker_def set_phase_def end_task_def)

section \<open>The laws\<close>

lemma publish_items_quiet: "publish_items v p n ts s = (js, s') \<Longrightarrow> rooms (hub s') = rooms (hub s) \<and> out s' = out s"
proof (induction v p n ts s arbitrary: js s' rule: publish_items.induct)
  case (2 v p n t ts s)
  show ?case
  proof (cases "parse_kind (pti_kind t)")
    case (Some k)
    let ?s = "on_pt p (add_track (pti_ssrc t) k (v @ ''_'' @ show_nat n)) s"
    obtain js2 where "publish_items v p (n + 1) ts ?s = (js2, s')"
      using 2(3) Some by (auto simp: Let_def apfst_def map_prod_def split: prod.splits)
    then show ?thesis using 2(2) [OF Some refl refl refl refl] by simp
  qed (use 2 in auto)
qed simp

text \<open>What is visible of a room: its members, its mode, its capacity and its speaker.\<close>

definition same_hall :: "room \<Rightarrow> room \<Rightarrow> bool" where
  "same_hall r r' \<longleftrightarrow> participants r' = participants r \<and> r_mode r' = r_mode r \<and> r_capacity r' = r_capacity r \<and>
     current_speaker (r_floor r') = current_speaker (r_floor r)"

lemma same_hall_refl [simp]: "same_hall r r"
  by (simp add: same_hall_def)

text \<open>Only an identify request changes the name of a session, and it changes nothing else.\<close>

definition names :: "string option \<Rightarrow> ('r \<times> ws_session \<times> 'c app) option \<Rightarrow> bool" where
  "names u y \<longleftrightarrow> (\<forall>r ss' s'. y = Some (r, ss', s') \<longrightarrow> su_user ss' = u)"

lemma names_intros:
  "su_user ss = u \<Longrightarrow> names u (Some (r, ss, s'))" "su_user ss = u \<Longrightarrow> names u (keep_session ss y)"
  "(\<And>r q s'. z = Some (r, q, s') \<Longrightarrow> su_user q = u) \<Longrightarrow> names u (map_option (apfst Some) z)"
  "(c \<Longrightarrow> names u v) \<Longrightarrow> (\<not> c \<Longrightarrow> names u w) \<Longrightarrow> names u (if c then v else w)"
  by (auto simp: names_def keep_session_def)

lemma session_user:
  "handle_room_join e sv dec fr x ss s = Some (resp, ss', s') \<Longrightarrow> su_user ss' = su_user ss"
  "handle_room_leave e dec x ss s = Some (resp, ss', s') \<Longrightarrow> su_user ss' = su_user ss"
  by (cases "su_user ss";
      auto simp: handle_room_join_def handle_room_leave_def Let_def bind_eq_Some_conv
        split: option.split_asm prod.split_asm sum.split_asm)+

lemma dispatch_user:
  assumes "dispatch e sv dec fr x ss s = Some (resp, ss', s')"
  shows "su_user ss' = (if \<not> is_response x \<and> op x = IDENTIFY then su_user (snd (handle_identify dec fr x ss)) else su_user ss)"
    "op x = IDENTIFY \<or> su_user ss = None \<Longrightarrow> s' = s"
proof -
  have "names (if \<not> is_response x \<and> op x = IDENTIFY then su_user (snd (handle_identify dec fr x ss)) else su_user ss)
      (dispatch e sv dec fr x ss s)"
  proof (cases "\<not> is_response x \<and> op x = IDENTIFY")
    case True
    then show ?thesis by (auto simp: dispatch_def names_def opcode_defs split: prod.splits)
  next
    case False
    have c: "names (su_user ss) (case handle_room_create dec fr x s of (resp, s) \<Rightarrow> Some (Some resp, ss, s))"
      by (simp add: names_def split: prod.split)
    have i: "names (su_user ss) (case handle_identify dec fr x ss of (resp, ss) \<Rightarrow> Some (Some resp, ss, s))"
      if "\<not> is_response x" "op x = IDENTIFY"
      using False that by simp
    have "names (su_user ss) (dispatch e sv dec fr x ss s)" unfolding dispatch_def
      by (intro names_intros(4) c i) (auto intro!: names_intros(1-3) dest: session_user)
    then show ?thesis using False by auto
  qed
  then show "su_user ss' = (if \<not> is_response x \<and> op x = IDENTIFY then su_user (snd (handle_identify dec fr x ss)) else su_user ss)"
    using assms by (simp add: names_def)
  show "op x = IDENTIFY \<or> su_user ss = None \<Longrightarrow> s' = s"
    using assms by (auto simp: dispatch_def is_authenticated_def heartbeat_touch_def opcode_defs split: if_splits prod.splits option.splits)
qed

locale step_frame =
  fixes e :: "'c env"
    and F :: "actor \<Rightarrow> 'c app \<Rightarrow> 'c app \<Rightarrow> bool"
  assumes compose: "F a s1 s2 \<Longrightarrow> F a s2 s3 \<Longrightarrow> F a s1 s3"
    and quiet: "(\<And>rid. rel_option same_hall (room_of s rid) (room_of s' rid)) \<Longrightarrow>
      out s' = out s @ es \<Longrightarrow> list_all (polite e) es \<Longrightarrow> F a s s'"
    and opens: "F (Client (Some ROOM_CREATE) v) s (s\<lparr>hub := snd (hub_create rid vs1 vs2 nm cap mode now (hub s))\<rparr>)"
    and enters: "on_hub (add_participant rid p) s = (res, s') \<Longrightarrow> F (Client (Some ROOM_JOIN) (p_user_id (pt s p))) s s'"
    and leaves: "a = Client c v \<or> a = Reaper \<Longrightarrow> on_hub (remove_participant rid v) s = (gone, s') \<Longrightarrow> F a s s'"
    and takes: "room_of s rid = Some r \<Longrightarrow> r_mode r = Ptt \<Longrightarrow> current_speaker (r_floor r) \<in> {None, Some v} \<Longrightarrow>
      current_speaker f = Some v \<Longrightarrow> F (Client (Some FLOOR_REQUEST) v) s (set_floor rid f s)"
    and frees: "a = Client c v \<or> a = FloorClock \<Longrightarrow> room_of s rid = Some r \<Longrightarrow>
      current_speaker (r_floor r) = Some v \<Longrightarrow> current_speaker f = None \<Longrightarrow> F a s (set_floor rid f s)"
begin

section \<open>Quiet steps\<close>

lemma rooms_quiet: "rooms (hub s') = rooms (hub s) \<Longrightarrow> out s' = out s \<Longrightarrow> F a s s'"
  by (rule quiet [where es = "[]"]) (simp_all add: room_of_def option.rel_refl)

lemma same [simp]: "F a s s"
  by (rule rooms_quiet) simp_all

lemma media: "media_step s s' \<Longrightarrow> F a s s'"
proof -
  assume m: "media_step s s'"
  then obtain es where es: "out s' = out s @ es" "udp_only es" by (auto simp: media_step_def)
  have "rel_option same_hall (room_of s rid) (room_of s' rid)" for rid
  proof -
    have "rel_option same_room (room_of s rid) (room_of s' rid)" using m by (simp add: media_step_def)
    then show ?thesis by (auto simp: same_hall_def same_roomD elim!: option.rel_cases)
  qed
  moreover have "list_all (polite e) es" using es(2) by (fastforce simp: udp_only_def list_all_iff)
  ultimately show ?thesis using quiet es(1) by blast
qed

lemma says: "list_all (polite e) es \<Longrightarrow> F a s (says es s)"
  by (rule quiet [where es = es]) (simp_all add: option.rel_refl)

lemma simple [simp]:
  "F a s (bump c n s)" "F a s (on_pt p f s)" "F a s (s\<lparr>metrics := m\<rparr>)"
  by (rule rooms_quiet; simp)+

lemma speaks: "polite e x \<Longrightarrow> F a s (emit x s)"
  unfolding emit_says by (rule says) simp

lemma room_quiet:
  assumes "room_of s rid = Some r" and "same_hall r r'"
  shows "F a s (set_room rid r' s)"
  by (rule quiet [where es = "[]"]) (use assms in \<open>simp_all add: option.rel_refl\<close>)

lemma rewriters [simp]: "F a s (on_rewriters rid f s)"
  by (auto simp: on_rewriters_def same_hall_def intro: room_quiet split: option.split)

lemma floor_quiet:
  assumes "room_of s rid = Some r" and "current_speaker f = current_speaker (r_floor r)"
  shows "F a s (set_floor rid f s)"
  unfolding set_floor_room [OF assms(1)] by (rule room_quiet [OF assms(1)]) (simp add: same_hall_def assms(2))

lemma tells [simp]:
  "event_packet x \<Longrightarrow> op x \<noteq> HELLO \<Longrightarrow> F a s (broadcast_to_others e r u x s)"
  "event_packet x \<Longrightarrow> op x \<noteq> HELLO \<Longrightarrow> F a s (broadcast_to_room e r x s)"
  "F a s (push_admin_snapshot e s)" "F a s (notify_left_room e r rid u ts s)" "F a s (notify_left_others e r rid u ts s)"
  unfolding broadcast_others_says broadcast_room_says push_admin_snapshot_def emit_says notify_left_says
  by (auto intro!: says typed simp del: polite.simps)

lemma answers [simp]: "F a s (snd (apply_floor_action e code n action r u s))"
  unfolding apply_floor_says by (rule says) (rule typed)

section \<open>The handlers\<close>

lemma leave_floor_frame: "a = Client c v \<Longrightarrow> F a s (leave_floor e rid v s)"
proof (cases "\<exists>r. room_of s rid = Some r \<and> r_mode r = Ptt")
  case False
  then show ?thesis by (auto simp: leave_floor_def hub_get_room split: option.splits)
next
  case True
  assume a: "a = Client c v"
  obtain r where r: "room_of s rid = Some r" "r_mode r = Ptt" using True by blast
  obtain res f where l: "on_participant_leave (r_floor r) v = (res, f)" by fastforce
  have "F a s (set_floor rid f s)"
    using fc.leave_cases [OF l] frees [of a c v s rid r f] floor_quiet [OF r(1), of f] a r by auto
  then show ?thesis
    using compose [OF compose [OF _ answers] rewriters] by (cases res) (simp_all add: leave_floor_def hub_get_room r l)
qed

lemma join_frame:
  assumes h: "handle_room_join e sv dec fr x ss s = Some (resp, ss', s')" and u: "su_user ss = Some v"
  shows "F (Client (Some ROOM_JOIN) v) s s'"
proof -
  let ?a = "Client (Some ROOM_JOIN) v"
  have add: "F ?a s s2"
    if q: "on_hub (alloc_participant q) s = (p, s1)" "p_user_id q = v" and a: "on_hub (add_participant rid p) s1 = (res, s2)"
    for q p s1 rid res s2
  proof -
    have "F ?a s s1" by (rule rooms_quiet) (use q in \<open>auto simp: on_hub_def alloc_participant_def\<close>)
    moreover have "p_user_id (pt s1 p) = v"
      using q by (auto simp: on_hub_def alloc_participant_def pt_def deref_def)
    ultimately show ?thesis using compose enters [OF a] by blast
  qed
  have new: "p_user_id (participant_new v rid a b c d tx t) = v" for rid a b c d tx t
    by (simp add: participant_new_def)
  have tell: "F ?a s (push_admin_snapshot e (broadcast_to_others e r v (room_event ''participant_joined'' rid v) s2))"
    if "F ?a s s2" for s2 r rid
    by (rule compose [OF compose [OF that tells(1)] tells(3)]) (simp_all add: typed)
  show ?thesis using h u add [OF _ new] tell
    by (fastforce simp: handle_room_join_def Let_def bind_eq_Some_conv split: option.split_asm prod.split_asm sum.split_asm)
qed

lemma leave_frame:
  assumes h: "handle_room_leave e dec x ss s = Some (resp, ss', s')" and u: "su_user ss = Some v"
  shows "F (Client c v) s s'"
proof -
  have *: "F (Client c v) s s2" if "on_hub (remove_participant rid v) (leave_floor e rid v s) = (res, s2)" for rid res s2
    using compose [OF leave_floor_frame [OF refl] leaves [OF _ that]] by simp
  have "F (Client c v) s (push_admin_snapshot e (notify_left_room e r rid v ts s2))" "F (Client c v) s (push_admin_snapshot e s2)"
    if "F (Client c v) s s2" for r rid ts s2
    using compose [OF compose [OF that tells(4)] tells(3)] compose [OF that tells(3)] by blast+
  then show ?thesis using h u *
    by (auto simp: handle_room_leave_def Let_def split: option.split_asm prod.split_asm sum.split_asm)
qed

lemma cleanup_frame: "F (client c (su_user ss)) s (cleanup e ss s)"
proof (cases "su_room ss = None \<or> su_user ss = None")
  case False
  then obtain rid v where u: "su_room ss = Some rid" "su_user ss = Some v" by auto
  let ?a = "Client c v" and ?s1 = "leave_floor e rid v s"
  define s2 where "s2 = (case hub_get (hub ?s1) rid of Inl _ \<Rightarrow> ?s1
    | Inr r \<Rightarrow> notify_left_others e r rid v
        (case get_participant r v of Some p \<Rightarrow> get_tracks (pt ?s1 p) | None \<Rightarrow> []) ?s1)"
  have "F ?a s s2"
    unfolding s2_def using compose [OF leave_floor_frame [OF refl] tells(5)] leave_floor_frame by (auto split: sum.split)
  moreover obtain res s3 where r: "on_hub (remove_participant rid v) s2 = (res, s3)" by fastforce
  ultimately have "F ?a s (push_admin_snapshot e s3)"
    using compose [OF compose [OF _ leaves [OF _ r]] tells(3)] by blast
  then show ?thesis by (simp add: cleanup_def u Let_def r s2_def [symmetric] client_def)
qed (auto simp: cleanup_def split: option.splits)

lemma create_frame: "F (Client (Some ROOM_CREATE) v) s (snd (handle_room_create dec fr x s))"
proof (cases "dec_create dec (d x)")
  case (Some req)
  show ?thesis
    by (simp add: handle_room_create_def Some on_hub_def Let_def split: prod.split) (metis opens snd_conv)
qed (simp add: handle_room_create_def)

lemma publish_frame: "handle_publish_tracks e dec x ss s = Some (resp, s') \<Longrightarrow> F a s s'"
proof -
  assume h: "handle_publish_tracks e dec x ss s = Some (resp, s')"
  have "F a s (broadcast_to_others e r v (tracks_update ''add'' js) s1)" "F a s s1"
    if p: "publish_items w p n ts s = (js, s1)" for r v w p n ts js s1
  proof -
    show q: "F a s s1" by (rule rooms_quiet) (use publish_items_quiet [OF p] in simp_all)
    show "F a s (broadcast_to_others e r v (tracks_update ''add'' js) s1)"
      by (rule compose [OF q tells(1)]) (use publish_items_typed [OF p] in \<open>simp_all add: typed\<close>)
  qed
  then show ?thesis using h
    by (cases "su_user ss")
       (auto simp: handle_publish_tracks_def Let_def simp del: publish_items.simps
        split: option.split_asm prod.split_asm sum.split_asm if_split_asm)
qed

lemma mute_frame: "handle_mute_update e dec x ss s = Some (resp, s') \<Longrightarrow> F a s s'"
proof -
  assume h: "handle_mute_update e dec x ss s = Some (resp, s')"
  have key: "F a t (request_keyframe e p ssrc t)" for p ssrc t
    by (auto simp: request_keyframe_def intro!: media send_to_publisher_step split: option.splits)
  have "F a s (broadcast_to_others e r v (track_state v ssrc k m) (on_pt p f s))" for r v ssrc k m p f
    by (rule compose [OF simple(2) tells(1)]) (simp_all add: typed)
  then show ?thesis using h compose [OF _ key]
    by (cases "su_user ss")
       (auto simp: handle_mute_update_def Let_def split: option.split_asm prod.split_asm sum.split_asm)
qed

lemma message_frame: "handle_message e dec fr x ss s = Some (resp, s') \<Longrightarrow> F a s s'"
  by (cases "su_user ss")
     (auto simp: handle_message_def Let_def typed intro!: tells(1) split: option.split_asm sum.split_asm)

lemma telemetry_frame: "F a s (handle_telemetry e x ss s)"
  by (auto simp: handle_telemetry_def intro!: speaks typed simp del: polite.simps split: option.split)

lemma heartbeat_frame: "F a s (heartbeat_touch fr ss s)"
  by (auto simp: heartbeat_touch_def split: option.split sum.split)

lemma floor_request_frame:
  assumes h: "handle_floor_request e dec fr x ss s = Some (resp, s')" and u: "su_user ss = Some v"
  shows "F (Client (Some FLOOR_REQUEST) v) s s'"
proof -
  let ?a = "Client (Some FLOOR_REQUEST) v"
  have pli: "F ?a t (spawn_floor_pli r w t)" for t r w
    by (auto simp: spawn_floor_pli_def intro: speaks split: option.split)
  have step: "F ?a s (snd (apply_floor_action e FLOOR_REQUEST n action r v (set_floor rid f s)))"
    if "room_of s rid = Some r" "r_mode r = Ptt" "floor_request (r_floor r) v now = (action, f)" for n action r rid f now
  proof -
    have "F ?a s (set_floor rid f s)"
      using fc.request_cases [OF that(3)] takes [OF that(1,2)] floor_quiet [OF that(1)] by auto
    then show ?thesis using compose answers by blast
  qed
  have grant: "F ?a s (spawn_floor_pli r w (on_rewriters rid g (bump c1 n1 (bump c2 n2 t))))" if "F ?a s t"
    for r w rid g c1 n1 c2 n2 t
    by (rule compose [OF compose [OF compose [OF compose [OF that simple(1)] simple(1)] rewriters] pli])
  show ?thesis using h u step grant
    by (auto simp: handle_floor_request_def hub_get_room Let_def
        split: option.split_asm prod.split_asm floor_action.split_asm if_split_asm) (metis snd_conv)+
qed

lemma floor_release_frame:
  assumes h: "handle_floor_release e dec x ss s = Some (resp, s')" and u: "su_user ss = Some v"
  shows "F (Client c v) s s'"
proof (cases "\<exists>req r. dec_floor_release dec (d x) = Some req \<and> room_of s (rq_room_id req) = Some r \<and> r_mode r = Ptt")
  case True
  then obtain req r where w: "dec_floor_release dec (d x) = Some req" "room_of s (rq_room_id req) = Some r" "r_mode r = Ptt"
    by blast
  obtain action f where a: "floor_release (r_floor r) v = (action, f)" by fastforce
  let ?s1 = "set_floor (rq_room_id req) f s"
  have 1: "F (Client c v) s ?s1"
    using fc.release_cases [OF a] frees [of "Client c v" c v s _ r f] floor_quiet [OF w(2), of f] w(2) by auto
  have "s' = snd (apply_floor_action e FLOOR_RELEASE (pid x) action r v
      (case action of Released _ \<Rightarrow> on_rewriters (rq_room_id req) clear_speaker (bump Ptt_floor_released 1 ?s1) | _ \<Rightarrow> ?s1))"
    using h u w a by (simp add: handle_floor_release_def hub_get_room Let_def)
  then show ?thesis
    using compose [OF 1 answers] compose [OF compose [OF compose [OF 1 simple(1)] rewriters] answers]
    by (simp split: floor_action.split)
next
  case False
  then have "s' = s" using h u
    by (auto simp: handle_floor_release_def hub_get_room split: option.split_asm if_split_asm)
  then show ?thesis by simp
qed

lemma floor_ping_frame: "handle_floor_ping dec fr x ss s = Some (resp, s') \<Longrightarrow> F a s s'"
proof -
  assume h: "handle_floor_ping dec fr x ss s = Some (resp, s')"
  have "F a s (set_floor rid f s)"
    if "room_of s rid = Some r" "floor_ping (r_floor r) w now = (action, f)" for w action r rid f now
    using fc.ping_cases [OF that(2)] by (intro floor_quiet [OF that(1)]) simp
  then show ?thesis using h
    by (cases "su_user ss")
       (auto simp: handle_floor_ping_def hub_get_room Let_def split: option.split_asm prod.split_asm floor_action.split_asm)
qed

section \<open>The dispatcher and the connection\<close>

definition framed :: "actor \<Rightarrow> 'c app \<Rightarrow> ('r \<times> 'q \<times> 'c app) option \<Rightarrow> bool" where
  "framed a s y \<longleftrightarrow> (\<forall>r q s'. y = Some (r, q, s') \<longrightarrow> F a s s')"

lemma framed_intros:
  "F a s s' \<Longrightarrow> framed a s (Some (r, q, s'))"
  "(\<And>r s'. y = Some (r, s') \<Longrightarrow> F a s s') \<Longrightarrow> framed a s (keep_session ss y)"
  "(\<And>r q s'. z = Some (r, q, s') \<Longrightarrow> F a s s') \<Longrightarrow> framed a s (map_option (apfst Some) z)"
  "(c \<Longrightarrow> framed a s v) \<Longrightarrow> (\<not> c \<Longrightarrow> framed a s w) \<Longrightarrow> framed a s (if c then v else w)"
  by (auto simp: framed_def keep_session_def)

lemma dispatch_named:
  assumes "su_user ss = Some v"
  shows "framed (Client (if is_response x then None else Some (op x)) v) s (dispatch e sv dec fr x ss s)"
proof (cases "is_response x")
  case True
  then show ?thesis by (simp add: dispatch_def framed_def)
next
  case False
  let ?a = "Client (Some (op x)) v"
  have id: "framed ?a s (case handle_identify dec fr x ss of (resp, ss) \<Rightarrow> Some (Some resp, ss, s))"
    by (auto simp: framed_def split: prod.split)
  have c: "framed ?a s (case handle_room_create dec fr x s of (resp, s) \<Rightarrow> Some (Some resp, ss, s))" if "op x = ROOM_CREATE"
    using create_frame [of v s dec fr x] that by (auto simp: framed_def split: prod.split)
  have "framed ?a s (dispatch e sv dec fr x ss s)" unfolding dispatch_def
    by (intro framed_intros(4) id c)
       (auto intro!: framed_intros(1-3) heartbeat_frame telemetry_frame
          dest: join_frame [OF _ assms] leave_frame [OF _ assms] publish_frame mute_frame message_frame
            floor_request_frame [OF _ assms] floor_release_frame [OF _ assms] floor_ping_frame simp: False)
  then show ?thesis by (simp add: False)
qed

lemma dispatch_frame:
  assumes d: "dispatch e sv dec fr x ss s = Some (resp, ss', s')"
  shows "F (client (if is_response x then None else Some (op x)) (su_user ss')) s s'"
proof (cases "op x = IDENTIFY \<or> su_user ss = None")
  case True
  then show ?thesis using dispatch_user(2) [OF d] by simp
next
  case False
  then obtain v where v: "su_user ss = Some v" by auto
  then have "su_user ss' = Some v" using dispatch_user(1) [OF d] False by simp
  then show ?thesis using dispatch_named [OF v] d by (auto simp: framed_def client_def)
qed

lemma send_packet_frame: "reply_packet x \<Longrightarrow> F a s (snd (send_packet e b tx x s))"
  by (auto simp: send_packet_def intro!: speaks split: option.split)

lemma connection_open_frame: "connection_open e b tx now s = (cn, s') \<Longrightarrow> F a s s'"
proof -
  have "reply_packet (hello n)" for n
    using typed(1) [of n] by (simp add: reply_packet_def hello_def packet_new_def)
  then show "connection_open e b tx now s = (cn, s') \<Longrightarrow> F a s s'"
    using send_packet_frame [of "hello n" a s b tx for n]
    by (auto simp: connection_open_def Let_def split: prod.splits bool.splits) (metis snd_conv)+
qed

lemma connection_turn_frame:
  assumes t: "connection_turn e sv dec fr b now ev cn s = Some (cn', s')"
  shows "F (client (turn_code dec ev) (turn_user dec fr ev (cn_session cn))) s s'"
proof (cases "\<exists>json x. ev = WsText json \<and> dec_packet dec json = Some x")
  case False
  have "F (client c (su_user (cn_session cn))) s (cleanup e (cn_session cn) s)" for c
    by (rule cleanup_frame)
  then show ?thesis using t False
    by (cases ev) (auto simp: connection_turn_def turn_code_def turn_user_def split: option.splits if_splits)
next
  case True
  then obtain json x where x: "ev = WsText json" "dec_packet dec json = Some x" by blast
  obtain resp ss s1 where D: "dispatch e sv dec fr x (cn_session cn) s = Some (resp, ss, s1)"
    using dispatch_good by blast
  let ?a = "client (turn_code dec ev) (turn_user dec fr ev (cn_session cn))"
  have a: "?a = client (if is_response x then None else Some (op x)) (su_user ss)"
    using dispatch_user(1) [OF D] by (simp add: turn_code_def turn_user_def x)
  have 1: "F ?a s s1" unfolding a by (rule dispatch_frame [OF D])
  have cl: "F ?a s2 (cleanup e ss s2)" for s2 unfolding a by (rule cleanup_frame)
  show ?thesis
  proof (cases resp)
    case None
    then show ?thesis using t 1 by (simp add: connection_turn_def x D Let_def)
  next
    case (Some r)
    have "reply_packet r" using dispatch_typed [of e sv dec fr x "cn_session cn" s] D Some by (simp add: well_answered_def)
    obtain k s2 where P: "send_packet e b (su_tx ss) r s1 = (k, s2)" by fastforce
    have "F ?a s s2" using compose [OF 1] send_packet_frame [OF \<open>reply_packet r\<close>, of ?a s1 b "su_tx ss"] P by simp
    then show ?thesis using t compose [OF _ cl]
      by (cases k) (auto simp: connection_turn_def x D Some P Let_def)
  qed
qed

section \<open>The tasks\<close>

lemma latch_frame: "on_hub (latch_by_ufrag uf addr) s = (res, s') \<Longrightarrow> F a s s'"
proof -
  assume l: "on_hub (latch_by_ufrag uf addr) s = (res, s')"
  show ?thesis
  proof (cases "\<exists>rid r. ufrag_index (hub s) uf = Some rid \<and> map_of (rooms (hub s)) rid = Some r")
    case True
    then obtain rid r where r: "ufrag_index (hub s) uf = Some rid" "map_of (rooms (hub s)) rid = Some r" by blast
    obtain x h' r' where x: "room_latch (heap (hub s)) uf addr r = (x, h', r')" by (cases "room_latch (heap (hub s)) uf addr r")
    then have "same_hall r r'"
      by (auto simp: room_latch_def same_hall_def Let_def split: option.splits prod.splits)
    then show ?thesis using l r x
      by (intro quiet [where es = "[]"])
         (auto simp: on_hub_def latch_by_ufrag_def room_of_def Let_def option.rel_refl
            split: option.split_asm prod.split_asm)
  next
    case False
    then have "s' = s" using l by (auto simp: on_hub_def latch_by_ufrag_def split: option.splits)
    then show ?thesis by simp
  qed
qed

lemma channel_frames [simp]: "F a s (on_channel c f s)" "F a s (dtls_task_end c s)"
  by (rule rooms_quiet; simp add: on_channel_def dtls_task_end_def)+

lemma start_dtls_frame: "start_dtls_handshake remote p pc (w, s) = (w', s') \<Longrightarrow> F a s s'"
  by (rule quiet [where es = "[SpawnDtls remote p pc (length (channels s))]"])
     (auto simp: start_dtls_handshake_def demux_new_def room_of_def option.rel_refl)

definition opt_framed :: "actor \<Rightarrow> 'c app \<Rightarrow> ('q \<times> 'c app) option \<Rightarrow> bool" where
  "opt_framed a s y \<longleftrightarrow> (\<forall>q s'. y = Some (q, s') \<longrightarrow> F a s s')"

lemma opt_framed_intros:
  "F a s s' \<Longrightarrow> opt_framed a s (Some (q, s'))"
  "(\<And>x. m = Some x \<Longrightarrow> opt_framed a s (f x)) \<Longrightarrow> opt_framed a s (Option.bind m f)"
  "(m = None \<Longrightarrow> opt_framed a s y) \<Longrightarrow> (\<And>x. m = Some x \<Longrightarrow> opt_framed a s (f x)) \<Longrightarrow> opt_framed a s (case_option y f m)"
  "(\<And>x z. t = (x, z) \<Longrightarrow> opt_framed a s (g x z)) \<Longrightarrow> opt_framed a s (case_prod g t)"
  "(c \<Longrightarrow> opt_framed a s v) \<Longrightarrow> (\<not> c \<Longrightarrow> opt_framed a s w) \<Longrightarrow> opt_framed a s (if c then v else w)"
  by (cases m; cases t; auto simp: opt_framed_def)+

lemma handle_stun_frame: "opt_framed a s (handle_stun e now buf remote w s)"
proof -
  have *: "F a s (on_pt p (touch now) s1)" if "on_hub (latch_by_ufrag uf remote) s = (r, s1)" for uf r s1 p
    using compose [OF latch_frame [OF that] simple(2)] .
  have send: "F a s (snd (send_to e remote b t))" if "F a s t" for b t
    using compose [OF that media [OF send_to_step]] .
  have st: "opt_framed a s (Some (if c then start_dtls_handshake remote p pc (w, t) else (w, t)))" if "F a s t" for c p pc t
    using that compose [OF that start_dtls_frame [of remote p pc w t]]
    by (auto simp: opt_framed_def split: if_splits)
  show ?thesis unfolding handle_stun_def Let_def
    by (intro opt_framed_intros(2-5) st send)
       (auto intro!: opt_framed_intros(1) intro: latch_frame *)
qed

lemma inject_frame: "dtls_inject m remote data s = Some (b, s') \<Longrightarrow> F a s s'"
  by (auto simp: dtls_inject_def split: option.splits if_splits prod.splits bool.splits)

lemma handle_dtls_frame: "handle_dtls data remote w s = Finished (w', s') \<Longrightarrow> F a s s'"
proof -
  assume h: "handle_dtls data remote w s = Finished (w', s')"
  have "F a s s3"
    if "dtls_inject m remote data s = Some (b1, s1)" "start_dtls_handshake remote p pc (w, s1) = (w2, s2)"
      "dtls_inject m2 remote data s2 = Some (b2, s3)" for m b1 s1 p pc w2 s2 m2 b2 s3
    by (rule compose [OF compose [OF inject_frame [OF that(1)] start_dtls_frame [OF that(2)]] inject_frame [OF that(3)]])
  then show ?thesis using h
    by (auto simp: handle_dtls_def split: option.split_asm prod.split_asm bool.split_asm intro: inject_frame)
qed

lemma udp_turn_frame:
  assumes "state_ok s" and "worker_ok w s"
    and "udp_turn e order tracing now arrival data remote w s = Finished (w', s')"
  shows "F a s s'"
proof (cases "classify data")
  case Srtp_Packet
  then show ?thesis using assms(3) handle_srtp_safe [OF state_okD(1) [OF assms(1)], of e order now arrival data remote]
    by (auto simp: udp_turn_def safe_def intro!: media)
next
  case Stun_Packet
  then show ?thesis using assms(3) handle_stun_frame [of a s now data remote w]
    by (auto simp: udp_turn_def opt_framed_def split: option.splits)
qed (use assms(3) in \<open>auto simp: udp_turn_def intro: handle_dtls_frame split: turn.splits if_splits\<close>)

lemma handshake_frame:
  assumes "handshake_done e result p pc s = Some s'"
  shows "F a s s'"
proof -
  have sp: "F a s (spawn_egress p t)" if "F a s t" for t
    using that compose [OF that compose [OF simple(2) speaks]] by (simp add: spawn_egress_def)
  have pli: "F a s (send_pli_to_publishers e r v t)" if "F a s t" for r v t
    using compose [OF that media [OF send_pli_step]] .
  show ?thesis
  proof (cases "\<exists>material. result = HandshakeOk (Inr material)")
    case True
    then obtain material where m: "result = HandshakeOk (Inr material)" by blast
    then show ?thesis using assms sp pli
      by (auto simp: handshake_done_def Let_def bind_eq_Some_conv split: if_split_asm sum.split_asm)
  next
    case False
    then have "s' = s" using assms by (cases result) (auto simp: handshake_done_def split: sum.splits)
    then show ?thesis by simp
  qed
qed

lemma floor_timer_room_frame: "F FloorClock s (floor_timer_room e now rid s)"
proof (cases "\<exists>r. room_of s rid = Some r \<and> r_mode r = Ptt")
  case False
  then show ?thesis by (auto simp: floor_timer_room_def split: option.split)
next
  case True
  then obtain r where r: "room_of s rid = Some r" "r_mode r = Ptt" by blast
  obtain res f where c: "check_timers (r_floor r) now = (res, f)" by fastforce
  have "F FloorClock s (set_floor rid f s)"
    using fc.check_cases [OF c] frees [of FloorClock _ _ s rid r f] floor_quiet [OF r(1), of f] r by auto
  moreover have "F FloorClock t (send_revoke e r v cause t)" for v cause t
    by (auto simp: send_revoke_def ws_send_def intro!: speaks typed simp del: polite.simps split: option.split)
  moreover have "F FloorClock t (broadcast_to_room_all e r (floor_idle (r_id r) v None) t)" for v t
    unfolding broadcast_all_room by (rule tells) (simp_all add: typed)
  ultimately have "F FloorClock s (broadcast_to_room_all e r (floor_idle (r_id r) v None)
      (send_revoke e r v cause (on_rewriters rid clear_speaker (bump Ptt_floor_revoked 1 (set_floor rid f s)))))" for v cause
    using compose simple(1) rewriters by metis
  then show ?thesis using \<open>F FloorClock s (set_floor rid f s)\<close> r
    by (simp add: floor_timer_room_def c Let_def split: option.split floor_action.split)
qed

lemma floor_timer_frame: "F FloorClock s (floor_timer_tick e now s)"
proof -
  have "F FloorClock s (fold (floor_timer_room e now) rids s)" for rids
    by (induction rids arbitrary: s) (auto intro: compose floor_timer_room_frame)
  then show ?thesis by (simp add: floor_timer_tick_def)
qed

lemma reap_users_frame: "F Reaper s (s\<lparr>hub := snd (reap_users rid uids (hub s))\<rparr>)"
proof (induction uids arbitrary: s)
  case (Cons u uids)
  obtain res hb1 where r: "remove_participant rid u (hub s) = (res, hb1)" by fastforce
  have 1: "F Reaper s (s\<lparr>hub := hb1\<rparr>)" using leaves [of Reaper _ u rid s res "s\<lparr>hub := hb1\<rparr>"] r by (simp add: on_hub_def)
  then show ?case using compose [OF 1] Cons [of "s\<lparr>hub := hb1\<rparr>"] by (cases res) (simp_all add: r)
qed simp

lemma reap_rooms_frame: "F Reaper s (s\<lparr>hub := snd (reap_rooms now t rids (hub s))\<rparr>)"
proof (induction rids arbitrary: s)
  case (Cons rid rids)
  show ?case
  proof (cases "map_of (rooms (hub s)) rid")
    case (Some r)
    let ?z = "map fst (filter (\<lambda>(uid, p). is_zombie now t (deref (heap (hub s)) p)) (participants r))"
    obtain reaped hb1 where u: "reap_users rid ?z (hub s) = (reaped, hb1)" by fastforce
    obtain more hb2 where m: "reap_rooms now t rids hb1 = (more, hb2)" by fastforce
    have "F Reaper s (s\<lparr>hub := hb1\<rparr>)" using reap_users_frame [of s rid ?z] by (simp add: u)
    moreover have "F Reaper (s\<lparr>hub := hb1\<rparr>) (s\<lparr>hub := hb2\<rparr>)" using Cons [of "s\<lparr>hub := hb1\<rparr>"] by (simp add: m)
    ultimately show ?thesis using compose by (simp add: Some u m Let_def)
  qed (use Cons in simp)
qed simp

lemma reaper_frame: "F Reaper s (reaper_tick e now s)"
proof -
  obtain reaped hb where z: "reap_zombies now ZOMBIE_TIMEOUT_MS (hub s) = (reaped, hb)" by fastforce
  have "F Reaper s (s\<lparr>hub := hb\<rparr>)"
    using reap_rooms_frame [of s now ZOMBIE_TIMEOUT_MS "map fst (rooms (hub s))"] z by (simp add: reap_zombies_def)
  moreover have "list_all (polite e) (concat (map (reaped_events e t) zs))" for t zs
    by (induction zs) (auto simp: reaped_events_def typed split: option.split)
  ultimately show ?thesis
    using compose says by (simp add: reaper_tick_def on_hub_def z notify_all_reaped)
qed

lemma metrics_frame: "F a s (flush_metrics e env_json tokio_json avg s)"
proof -
  obtain j m where j: "metrics_flush env_json tokio_json avg (metrics s) = (j, m)" by fastforce
  then have "polite e (AdminSend (json_string e j))" using polite_admin(2) [of e env_json tokio_json avg "metrics s"] by simp
  then show ?thesis unfolding flush_metrics_def j prod.case by (rule compose [OF simple(3) speaks])
qed

lemma bwe_frame: "state_ok s \<Longrightarrow> bwe_tick e w s = Some s' \<Longrightarrow> F a s s'"
  using send_twcc_safe [OF state_okD(1), of s e]
  by (cases "w_bwe_mode w") (auto simp: bwe_tick_def safe_def intro!: media send_remb_step)

lemma pli_attempt_frame: "F a s (snd (pli_attempt e p ssrc addr s))"
proof -
  obtain r s1 where w: "with_outbound (encrypt_rtcp (srtp e)) Publish p (build_pli ssrc) s = (r, s1)" by fastforce
  show ?thesis
    using with_srtp_step(3) [OF w] media_step_trans [OF with_srtp_step(3) [OF w] send_to_step]
    by (auto simp: pli_attempt_def w intro!: media split: sum.splits)
qed

section \<open>Every step is in the frame of its actor\<close>

lemma background:
  "F Background (sy_app \<sigma>) (sy_app \<sigma>') \<Longrightarrow> \<exists>a. acts W \<sigma> \<sigma>' a \<and> plays \<tau> a \<and> F a (sy_app \<sigma>) (sy_app \<sigma>')"
  by (rule exI [of _ Background]) simp

lemma task_framed:
  assumes "task_step W \<tau> \<sigma> \<sigma>'" and "sys_ok W \<sigma>" and "w_env W = e"
  shows "\<exists>a. acts W \<sigma> \<sigma>' a \<and> plays \<tau> a \<and> F a (sy_app \<sigma>) (sy_app \<sigma>')"
  using assms
proof (induction rule: task_step.induct)
  case (datagram i \<sigma> w now arrival data remote w' s')
  have "F Background (sy_app \<sigma>) s'"
    using udp_turn_frame [OF sys_okD(1) [OF datagram(4)] sys_okD(2) [OF datagram(4,1,2)]] datagram(3,5) by blast
  then show ?case by (intro background) simp
next
  case (bwe_timer i \<sigma> w)
  then show ?case using bwe_frame [OF sys_okD(1) [OF bwe_timer(4)]] by (intro background) (auto split: option.split)
next
  case (handshake_over remote p pc c \<sigma> result s')
  have "F Background (sy_app \<sigma>) s'" using handshake_frame handshake_over(4,6) by blast
  then have "F Background (sy_app \<sigma>) s'" "F Background (sy_app \<sigma>) (dtls_task_end c s')"
    using compose [OF _ channel_frames(2)] by blast+
  then show ?case by (intro background) (cases result; simp)
next
  case (connected socket_ok \<sigma> instant cn s')
  have "F Background (sy_app \<sigma>) s'" using connection_open_frame connected(1,3) by blast
  then show ?case by (intro background) simp
next
  case (connection_event n \<sigma> cn fr socket_ok instant ev cn' s')
  let ?a = "client (turn_code (w_dec W) ev) (turn_user (w_dec W) fr ev (cn_session cn))"
  have "F ?a (sy_app \<sigma>) s'" using connection_turn_frame connection_event(3,5) by blast
  moreover have "acts W \<sigma> (\<sigma>\<lparr>sy_app := s', sy_conns := (sy_conns \<sigma>)[n := cn']\<rparr>) ?a"
    using connection_event(1-3) by (cases "turn_user (w_dec W) fr ev (cn_session cn)") (simp_all add: acts_def client_def, blast)
  moreover have "plays (Connection n) ?a" by (simp add: client_def split: option.split)
  ultimately show ?case by (intro exI [of _ ?a]) simp
next
  case (floor_timer \<sigma> now)
  then have "F FloorClock (sy_app \<sigma>) (floor_timer_tick (w_env W) now (sy_app \<sigma>))" using floor_timer_frame by blast
  moreover have "acts W \<sigma> (\<sigma>\<lparr>sy_app := floor_timer_tick (w_env W) now (sy_app \<sigma>)\<rparr>) FloorClock" by (auto simp: acts_def)
  ultimately show ?case by (intro exI [of _ FloorClock]) simp
next
  case (reaper \<sigma> now)
  then have "F Reaper (sy_app \<sigma>) (reaper_tick (w_env W) now (sy_app \<sigma>))" using reaper_frame by blast
  moreover have "acts W \<sigma> (\<sigma>\<lparr>sy_app := reaper_tick (w_env W) now (sy_app \<sigma>)\<rparr>) Reaper" by (auto simp: acts_def)
  ultimately show ?case by (intro exI [of _ Reaper]) simp
qed (rule background, simp add: metrics_frame pli_attempt_frame media [OF send_to_step] media [OF egress_step_media]
    demux_send_def)+

lemma step_framed:
  assumes "sys_step W \<sigma> \<sigma>'" and "sys_ok W \<sigma>" and "w_env W = e"
  shows "\<exists>a. acts W \<sigma> \<sigma>' a \<and> F a (sy_app \<sigma>) (sy_app \<sigma>')"
  using task_framed assms by (fastforce simp: sys_step_def)

end

end
