(* ===== verification/Authority.thy ===== *)
theory Authority
  imports Frames
begin

text \<open>
  Who can get the floor: a frame property of every step of the system. Only the request of
  a connection makes somebody a speaker, and then the user of that connection.
\<close>

section \<open>Steps that make nobody else a speaker\<close>

definition speaker_in :: "'c app \<Rightarrow> string \<Rightarrow> string option" where
  "speaker_in s rid = (case room_of s rid of None \<Rightarrow> None | Some r \<Rightarrow> current_speaker (r_floor r))"

definition calm :: "string option \<Rightarrow> 'c app \<Rightarrow> 'c app \<Rightarrow> bool" where
  "calm u s s' \<longleftrightarrow> (\<forall>rid. speaker_in s' rid \<in> {None, u, speaker_in s rid})"

lemma calm_refl [simp]: "calm u s s"
  by (simp add: calm_def)

lemma calm_trans: "calm u s1 s2 \<Longrightarrow> calm u s2 s3 \<Longrightarrow> calm u s1 s3"
  by (simp add: calm_def) metis

lemma calm_same: "(\<And>rid. speaker_in s' rid = speaker_in s rid) \<Longrightarrow> calm u s s'"
  by (simp add: calm_def)

lemma calm_room:
  assumes "\<And>k. k \<noteq> rid \<Longrightarrow> room_of s' k = room_of s k" and "speaker_in s' rid \<in> {None, u, speaker_in s rid}"
  shows "calm u s s'"
  unfolding calm_def
proof
  fix k
  show "speaker_in s' k \<in> {None, u, speaker_in s k}"
    using assms by (cases "k = rid") (simp_all add: speaker_in_def)
qed

lemma calm_talks: "talks_kept (hub s) (hub s') \<Longrightarrow> calm u s s'"
proof (rule calm_same)
  fix rid
  assume "talks_kept (hub s) (hub s')"
  then have "rel_option same_talk (room_of s rid) (room_of s' rid)" by (simp add: talks_kept_def room_of_def)
  then show "speaker_in s' rid = speaker_in s rid"
    by (auto simp: speaker_in_def same_talk_def elim!: option.rel_cases)
qed

lemma calm_set_floor:
  assumes "current_speaker f \<in> {None, u, speaker_in s rid}"
  shows "calm u s (set_floor rid f s)"
proof (cases "room_of s rid")
  case (Some r)
  then show ?thesis using assms
    by (intro calm_room [where rid = rid]) (simp_all add: set_floor_room speaker_in_def)
qed (simp add: set_floor_def)

lemma calm_add: "on_hub (add_participant rid p) s = (res, s') \<Longrightarrow> calm u s s'"
proof -
  assume a: "on_hub (add_participant rid p) s = (res, s')"
  show ?thesis
  proof (cases "room_of s rid")
    case (Some r)
    obtain x r' where x: "room_add_participant (heap (hub s)) p r = (x, r')" by fastforce
    then have "r_floor r' = r_floor r" by (auto simp: room_add_participant_def split: if_splits)
    then show ?thesis using a Some x
      by (intro calm_room [where rid = rid])
         (auto simp: on_hub_def add_participant_def hub_get_room speaker_in_def room_of_def split: sum.splits)
  qed (use a in \<open>auto simp: on_hub_def add_participant_def hub_get_room\<close>)
qed

lemma calm_remove: "on_hub (remove_participant rid v) s = (res, s') \<Longrightarrow> calm u s s'"
  using remove_talks [of "hub s" rid v] by (intro calm_talks) (auto simp: on_hub_def split: prod.splits)

section \<open>The frame\<close>

text \<open>The user whom an actor may make a speaker.\<close>

definition asks :: "actor \<Rightarrow> string option" where
  "asks a = (case a of Client c v \<Rightarrow> if c = Some FLOOR_REQUEST then Some v else None | _ \<Rightarrow> None)"

interpretation calmf: step_frame e "\<lambda>a. calm (asks a)" for e :: "'c env"
proof
  show "calm (asks a) s1 s2 \<Longrightarrow> calm (asks a) s2 s3 \<Longrightarrow> calm (asks a) s1 s3" for a and s1 s2 s3 :: "'c app"
    by (rule calm_trans)
next
  fix s s' :: "'c app" and es a
  assume "\<And>rid. rel_option same_hall (room_of s rid) (room_of s' rid)"
  note rel = this
  have "speaker_in s' rid = speaker_in s rid" for rid
    using rel [of rid] by (auto simp: speaker_in_def same_hall_def elim!: option.rel_cases)
  then show "calm (asks a) s s'" by (rule calm_same)
next
  fix v and s :: "'c app" and rid vs1 vs2 nm cap mode now
  show "calm (asks (Client (Some ROOM_CREATE) v)) s (s\<lparr>hub := snd (hub_create rid vs1 vs2 nm cap mode now (hub s))\<rparr>)"
    by (rule calm_room [where rid = rid])
       (simp_all add: hub_create_def Let_def room_of_def speaker_in_def room_new_def floor_new_def)
next
  fix rid p and s s' :: "'c app" and res
  show "on_hub (add_participant rid p) s = (res, s') \<Longrightarrow> calm (asks (Client (Some ROOM_JOIN) (p_user_id (pt s p)))) s s'"
    by (rule calm_add)
next
  fix a c v rid and s s' :: "'c app" and gone
  show "on_hub (remove_participant rid v) s = (gone, s') \<Longrightarrow> calm (asks a) s s'"
    by (rule calm_remove)
next
  fix s :: "'c app" and rid r v f
  assume "current_speaker f = Some v"
  then show "calm (asks (Client (Some FLOOR_REQUEST) v)) s (set_floor rid f s)"
    by (intro calm_set_floor) (simp add: asks_def)
next
  fix a c v and s :: "'c app" and rid r f
  assume "current_speaker f = None"
  then show "calm (asks a) s (set_floor rid f s)"
    by (intro calm_set_floor) simp
qed

text \<open>
  C6: only those who ask get the floor. Whatever step the running server takes, when a user
  holds the floor of a room after it who did not hold it before, then the step was a turn of
  a connection that had identified itself as this very user, and the frame it handled was
  a floor request. No timer, datagram, handshake, join, or request of somebody else makes a
  user the speaker.
\<close>

theorem floor_only_on_request:
  assumes "reachable W \<sigma>" and "sys_step W \<sigma> \<sigma>'"
    and "room_of (sy_app \<sigma>') rid = Some r'" and "current_speaker (r_floor r') = Some v"
    and "\<forall>r. room_of (sy_app \<sigma>) rid = Some r \<longrightarrow> current_speaker (r_floor r) \<noteq> Some v"
  shows "\<exists>n cn fr b now json x cn'. n < length (sy_conns \<sigma>) \<and> sy_conns \<sigma> ! n = Some cn \<and>
     su_user (cn_session cn) = Some v \<and> dec_packet (w_dec W) json = Some x \<and> \<not> is_response x \<and> op x = FLOOR_REQUEST \<and>
     connection_turn (w_env W) (w_server W) (w_dec W) fr b now (WsText json) cn (sy_app \<sigma>) = Some (cn', sy_app \<sigma>')"
proof -
  have new: "speaker_in (sy_app \<sigma>') rid = Some v" "speaker_in (sy_app \<sigma>) rid \<noteq> Some v"
    using assms(3-5) by (auto simp: speaker_in_def split: option.split)
  obtain a where a: "acts W \<sigma> \<sigma>' a" "calm (asks a) (sy_app \<sigma>) (sy_app \<sigma>')"
    using calmf.step_framed [OF assms(2) reachable_ok [OF assms(1)] refl] by blast
  have "asks a = Some v" using a(2) new by (auto simp: calm_def dest!: spec [of _ rid])
  then have "a = Client (Some FLOOR_REQUEST) v" by (auto simp: asks_def split: actor.splits if_splits)
  then obtain n cn fr b now ev cn' where t: "n < length (sy_conns \<sigma>)" "sy_conns \<sigma> ! n = Some cn"
      "turn_code (w_dec W) ev = Some FLOOR_REQUEST" "turn_user (w_dec W) fr ev (cn_session cn) = Some v"
      "connection_turn (w_env W) (w_server W) (w_dec W) fr b now ev cn (sy_app \<sigma>) = Some (cn', sy_app \<sigma>')"
    using a(1) by (auto simp: acts_def)
  then obtain json x where "ev = WsText json" "dec_packet (w_dec W) json = Some x" "\<not> is_response x" "op x = FLOOR_REQUEST"
      "su_user (cn_session cn) = Some v"
    by (auto simp: turn_code_def turn_user_def opcode_defs split: ws_event.splits option.splits if_splits)
  then show ?thesis using t by blast
qed

section \<open>A run with a speaker\<close>

definition talk_dec :: decoders where
  "talk_dec = demo_dec\<lparr>dec_packet := (\<lambda>json.
     if json = ''i'' then Some \<lparr>op = IDENTIFY, pid = 1, ok = None, d = JObj [(''user_id'', JStr ''u'')]\<rparr>
     else if json = ''j'' then Some (room_packet ROOM_JOIN ''a'')
     else if json = ''f'' then Some (room_packet FLOOR_REQUEST ''a'') else None)\<rparr>"

definition talk_world :: "nat world" where
  "talk_world = demo_world\<lparr>w_dec := talk_dec\<rparr>"

definition talk_session :: ws_session where
  "talk_session = (snd (next_pid (session_new 0)))\<lparr>su_user := Some ''u''\<rparr>"

definition talk_conn :: connection where
  "talk_conn = \<lparr>cn_session = talk_session, cn_last_activity = 9\<rparr>"

lemma talk_world_simps [simp]: "w_env talk_world = demo_env" "w_server talk_world = demo_server" "w_dec talk_world = talk_dec"
  by (simp_all add: talk_world_def demo_world_def)

lemma demo_env_prints: "\<exists>j. packet_string demo_env x = Some j"
  by (simp add: demo_env_def)

lemma demo_send_packet:
  "\<exists>s'. send_packet demo_env True tx x s = (True, s') \<and> hub s' = hub s \<and> (\<forall>rid. room_of s' rid = room_of s rid)"
  using demo_env_prints [of x] by (auto simp: send_packet_def)

text \<open>After the connection has identified itself.\<close>

lemma talk_identified:
  "\<exists>\<sigma> r. reachable talk_world \<sigma> \<and> sy_conns \<sigma> = [Some talk_conn] \<and> sy_workers \<sigma> = sy_workers demo_start \<and>
     room_of (sy_app \<sigma>) ''a'' = Some r \<and> r_mode r = Ptt \<and> r_floor r = Idle \<and> participants r = [] \<and> r_capacity r = 10"
proof -
  let ?cn = "\<lparr>cn_session = snd (next_pid (session_new 0)), cn_last_activity = 7\<rparr>"
  obtain s1 where c: "connection_open demo_env True 0 7 (sy_app demo_start) = (Some ?cn, s1)"
      "\<forall>rid. room_of s1 rid = room_of (sy_app demo_start) rid"
    using demo_send_packet [of 0 "hello 1" "sy_app demo_start"] by (auto simp: connection_open_def next_pid_def session_new_def)
  let ?t1 = "demo_start\<lparr>sy_app := s1, sy_conns := sy_conns demo_start @ [Some ?cn]\<rparr>"
  have r0: "reachable talk_world demo_start" unfolding demo_start_def by (rule start)
  have r1: "reachable talk_world ?t1"
    by (rule step [OF r0 sys_stepI [OF connected [where socket_ok = True and instant = 7]]]) (simp add: c demo_conns)
  have "dispatch demo_env demo_server talk_dec demo_fresh
      \<lparr>op = IDENTIFY, pid = 1, ok = None, d = JObj [(''user_id'', JStr ''u'')]\<rparr> (cn_session ?cn) s1 =
      Some (Some (packet_ok IDENTIFY 1 (JObj [(''user_id'', JStr ''u'')])), talk_session, s1)"
    by (simp add: dispatch_def is_response_def opcode_defs handle_identify_def talk_dec_def demo_dec_def field_def
        as_string_def bytes_of_def between_def talk_session_def Let_def)
  then obtain s2 where t: "connection_turn demo_env demo_server talk_dec demo_fresh True 9 (WsText ''i'') ?cn s1 = Some (Some talk_conn, s2)"
      "\<forall>rid. room_of s2 rid = room_of s1 rid"
    using demo_send_packet [of "su_tx talk_session" "packet_ok IDENTIFY 1 (JObj [(''user_id'', JStr ''u'')])" s1]
    by (auto simp: connection_turn_def talk_dec_def talk_conn_def)
  let ?t2 = "?t1\<lparr>sy_app := s2, sy_conns := (sy_conns ?t1)[0 := Some talk_conn]\<rparr>"
  have "reachable talk_world ?t2"
    by (rule step [OF r1 sys_stepI [OF connection_event [where fr = demo_fresh and socket_ok = True and instant = 9 and ev = "WsText ''i''" and cn = ?cn]]])
       (simp_all add: demo_conns t)
  moreover have "\<exists>r. room_of (sy_app demo_start) ''a'' = Some r \<and> r_mode r = Ptt \<and> r_floor r = Idle \<and>
      participants r = [] \<and> r_capacity r = 10"
    by (simp add: config_defs demo_start_def system_start_def create_default_rooms_def default_rooms_def app_new_def hub_new_def
        hub_create_def room_of_def put_room_def room_new_def floor_new_def Let_def)
  ultimately show ?thesis by (intro exI [of _ ?t2]) (simp add: demo_conns t c)
qed

theorem floor_only_on_request_witness:
  "\<exists>\<sigma> s' cn'. reachable talk_world \<sigma> \<and> sy_conns \<sigma> = [Some talk_conn] \<and>
     connection_turn demo_env demo_server talk_dec demo_fresh True 10 (WsText ''f'') talk_conn (sy_app \<sigma>) = Some (cn', s') \<and>
     (\<exists>n cn. sy_conns \<sigma> ! n = Some cn \<and> su_user (cn_session cn) = Some ''u'')"
proof -
  obtain \<sigma> r where S: "reachable talk_world \<sigma>" "sy_conns \<sigma> = [Some talk_conn]"
      "room_of (sy_app \<sigma>) ''a'' = Some r" "r_mode r = Ptt" "r_floor r = Idle"
    using talk_identified by blast
  have req: "dec_floor_request talk_dec (d (room_packet FLOOR_REQUEST ''a'')) = Some \<lparr>rq_room_id = ''a''\<rparr>"
    by (simp add: talk_dec_def)
  have u: "su_user talk_session = Some ''u''" by (simp add: talk_session_def)
  obtain resp s1 r1 where H: "handle_floor_request demo_env talk_dec demo_fresh (room_packet FLOOR_REQUEST ''a'') talk_session (sy_app \<sigma>) = Some (resp, s1)"
      "room_of s1 ''a'' = Some r1" "current_speaker (r_floor r1) = Some ''u''"
    using floor_request_outcome [OF u req, where e = demo_env and fr = demo_fresh and s = "sy_app \<sigma>" and r = r] S(3-5) by auto
  have D: "dispatch demo_env demo_server talk_dec demo_fresh (room_packet FLOOR_REQUEST ''a'') talk_session (sy_app \<sigma>) =
      Some (Some resp, talk_session, s1)"
    using H(1) u
    by (simp add: dispatch_def room_packet_def is_response_def is_authenticated_def opcode_defs keep_session_def)
  obtain cn' s' where T: "connection_turn demo_env demo_server talk_dec demo_fresh True 10 (WsText ''f'') talk_conn (sy_app \<sigma>) = Some (cn', s')"
      "\<forall>rid. room_of s' rid = room_of s1 rid"
    using demo_send_packet [of "su_tx talk_session" resp s1] D
    by (auto simp: connection_turn_def talk_dec_def talk_conn_def)
  let ?t = "\<sigma>\<lparr>sy_app := s', sy_conns := (sy_conns \<sigma>)[0 := cn']\<rparr>"
  have st: "sys_step talk_world \<sigma> ?t"
    by (rule sys_stepI [OF connection_event [where fr = demo_fresh and socket_ok = True and instant = 10 and ev = "WsText ''f''" and cn = talk_conn]])
       (simp_all add: S(2) T(1))
  have "\<forall>r. room_of (sy_app \<sigma>) ''a'' = Some r \<longrightarrow> current_speaker (r_floor r) \<noteq> Some ''u''" using S(3,5) by simp
  from floor_only_on_request [OF S(1) st _ H(3) this]
  have "\<exists>n cn. sy_conns \<sigma> ! n = Some cn \<and> su_user (cn_session cn) = Some ''u''" using T(2) H(2) by auto
  then show ?thesis using S(1,2) T(1) by blast
qed

end
