(* ===== verification/Halls.thy ===== *)
theory Halls
  imports Authority
begin

text \<open>
  What the server promises about its rooms, as an abstract machine, and the proof that the
  system refines it. A hall is a room without identifiers of sessions, tracks, addresses,
  clocks and rewriters: a mode, a capacity, a set of names and at most one speaker. Each
  step of the system is a sequence of events of the halls, and each event is one that the
  actor of the step may cause.
\<close>

section \<open>The abstract machine\<close>

record hall =
  h_mode :: room_mode
  h_capacity :: nat
  h_speaker :: "string option"
  h_members :: "string set"

type_synonym halls = "string \<Rightarrow> hall option"

datatype hall_event =
    Opened string | Entered string string | Left string string | Took string string | Freed string string

text \<open>
  The speaker need not be a member, and a speaker who leaves keeps the floor unless it is
  freed by an event of its own. A hall whose identifier is drawn again starts anew.
\<close>

inductive hall_step :: "halls \<Rightarrow> hall_event \<Rightarrow> halls \<Rightarrow> bool" where
  opened: "h_members h = {} \<Longrightarrow> h_speaker h = None \<Longrightarrow> hall_step H (Opened rid) (H(rid \<mapsto> h))"
| entered: "H rid = Some h \<Longrightarrow> u \<notin> h_members h \<Longrightarrow> card (h_members h) < h_capacity h \<Longrightarrow>
     hall_step H (Entered rid u) (H(rid \<mapsto> h\<lparr>h_members := insert u (h_members h)\<rparr>))"
| left: "H rid = Some h \<Longrightarrow> u \<in> h_members h \<Longrightarrow>
     hall_step H (Left rid u) (H(rid \<mapsto> h\<lparr>h_members := h_members h - {u}\<rparr>))"
| took: "H rid = Some h \<Longrightarrow> h_mode h = Ptt \<Longrightarrow> h_speaker h = None \<Longrightarrow>
     hall_step H (Took rid u) (H(rid \<mapsto> h\<lparr>h_speaker := Some u\<rparr>))"
| freed: "H rid = Some h \<Longrightarrow> h_speaker h = Some u \<Longrightarrow>
     hall_step H (Freed rid u) (H(rid \<mapsto> h\<lparr>h_speaker := None\<rparr>))"

inductive_cases openedE: "hall_step H (Opened rid) H'"
inductive_cases enteredE: "hall_step H (Entered rid u) H'"
inductive_cases leftE: "hall_step H (Left rid u) H'"
inductive_cases tookE: "hall_step H (Took rid u) H'"
inductive_cases freedE: "hall_step H (Freed rid u) H'"

fun hall_run :: "hall_event list \<Rightarrow> halls \<Rightarrow> halls \<Rightarrow> bool" where
  "hall_run [] H H' = (H' = H)"
| "hall_run (x # xs) H H' = (\<exists>H1. hall_step H x H1 \<and> hall_run xs H1 H')"

lemma hall_run_append: "hall_run (xs @ ys) H H' \<longleftrightarrow> (\<exists>H1. hall_run xs H H1 \<and> hall_run ys H1 H')"
  by (induction xs arbitrary: H) auto

lemma hall_run_single: "hall_step H x H' \<Longrightarrow> hall_run [x] H H'"
  by simp

subsection \<open>What holds of every abstract run\<close>

text \<open>No hall is overfull, and only push-to-talk halls have speakers.\<close>

definition hall_ok :: "hall \<Rightarrow> bool" where
  "hall_ok h \<longleftrightarrow> finite (h_members h) \<and> card (h_members h) \<le> h_capacity h \<and> (h_speaker h \<noteq> None \<longrightarrow> h_mode h = Ptt)"

definition halls_ok :: "halls \<Rightarrow> bool" where
  "halls_ok H \<longleftrightarrow> (\<forall>rid h. H rid = Some h \<longrightarrow> hall_ok h)"

lemma hall_step_ok: "hall_step H x H' \<Longrightarrow> halls_ok H \<Longrightarrow> halls_ok H'"
proof (induction rule: hall_step.induct)
  case (left H rid h u)
  then have "finite (h_members h)" "card (h_members h - {u}) \<le> card (h_members h)"
    by (auto simp: halls_ok_def hall_ok_def intro: card_mono)
  then show ?case using left by (fastforce simp: halls_ok_def hall_ok_def)
qed (auto simp: halls_ok_def hall_ok_def)

lemma hall_run_ok: "hall_run xs H H' \<Longrightarrow> halls_ok H \<Longrightarrow> halls_ok H'"
  by (induction xs arbitrary: H) (auto intro: hall_step_ok)

text \<open>A name appears by entering and goes by leaving or with its hall.\<close>

definition in_hall :: "halls \<Rightarrow> string \<Rightarrow> string \<Rightarrow> bool" where
  "in_hall H rid u \<longleftrightarrow> (\<exists>h. H rid = Some h \<and> u \<in> h_members h)"

definition speaks_in :: "halls \<Rightarrow> string \<Rightarrow> string \<Rightarrow> bool" where
  "speaks_in H rid u \<longleftrightarrow> (\<exists>h. H rid = Some h \<and> h_speaker h = Some u)"

lemma hall_step_changes:
  assumes "hall_step H x H'"
  shows "in_hall H' rid u \<Longrightarrow> \<not> in_hall H rid u \<Longrightarrow> x = Entered rid u"
    "in_hall H rid u \<Longrightarrow> \<not> in_hall H' rid u \<Longrightarrow> x = Left rid u \<or> x = Opened rid"
    "speaks_in H' rid u \<Longrightarrow> \<not> speaks_in H rid u \<Longrightarrow> x = Took rid u"
    "speaks_in H rid u \<Longrightarrow> \<not> speaks_in H' rid u \<Longrightarrow> x = Freed rid u \<or> x = Opened rid"
  using assms
  by (cases rule: hall_step.cases; auto simp: in_hall_def speaks_in_def split: if_splits)+

lemma hall_run_changes:
  "hall_run xs H H' \<Longrightarrow> in_hall H' rid u \<Longrightarrow> \<not> in_hall H rid u \<Longrightarrow> Entered rid u \<in> set xs"
  "hall_run xs H H' \<Longrightarrow> in_hall H rid u \<Longrightarrow> \<not> in_hall H' rid u \<Longrightarrow> Left rid u \<in> set xs \<or> Opened rid \<in> set xs"
  "hall_run xs H H' \<Longrightarrow> speaks_in H rid u \<Longrightarrow> \<not> speaks_in H' rid u \<Longrightarrow> Freed rid u \<in> set xs \<or> Opened rid \<in> set xs"
proof (induction xs arbitrary: H)
  case (Cons x xs)
  { case 1 then show ?case using Cons.IH(1) hall_step_changes(1) by fastforce }
  { case 2 then show ?case using Cons.IH(2) hall_step_changes(2) by fastforce }
  { case 3 then show ?case using Cons.IH(3) hall_step_changes(4) by fastforce }
qed auto

section \<open>The abstraction\<close>

definition hall_of :: "room \<Rightarrow> hall" where
  "hall_of r = \<lparr>h_mode = r_mode r, h_capacity = r_capacity r, h_speaker = current_speaker (r_floor r),
     h_members = fst ` set (participants r)\<rparr>"

definition halls_of :: "'c app \<Rightarrow> halls" where
  "halls_of s rid = map_option hall_of (room_of s rid)"

text \<open>What an actor may cause: a client only what concerns its own name.\<close>

fun permits :: "actor \<Rightarrow> hall_event \<Rightarrow> bool" where
  "permits (Client c v) (Opened rid) = (c = Some ROOM_CREATE)"
| "permits (Client c v) (Entered rid u) = (u = v \<and> c = Some ROOM_JOIN)"
| "permits (Client c v) (Took rid u) = (u = v \<and> c = Some FLOOR_REQUEST)"
| "permits (Client c v) (Left rid u) = (u = v)"
| "permits (Client c v) (Freed rid u) = (u = v)"
| "permits FloorClock (Freed rid u) = True"
| "permits Reaper (Left rid u) = True"
| "permits a x = False"

definition simulated :: "actor \<Rightarrow> 'c app \<Rightarrow> 'c app \<Rightarrow> bool" where
  "simulated a s s' \<longleftrightarrow> (\<exists>xs. hall_run xs (halls_of s) (halls_of s') \<and> list_all (permits a) xs)"

lemma simulated_same: "(\<And>rid. halls_of s' rid = halls_of s rid) \<Longrightarrow> simulated a s s'"
  unfolding simulated_def by (rule exI [of _ "[]"]) (simp add: fun_eq_iff)

lemma simulated_step: "hall_step (halls_of s) x (halls_of s') \<Longrightarrow> permits a x \<Longrightarrow> simulated a s s'"
  unfolding simulated_def by (rule exI [of _ "[x]"]) simp

lemma simulated_trans: "simulated a s1 s2 \<Longrightarrow> simulated a s2 s3 \<Longrightarrow> simulated a s1 s3"
  unfolding simulated_def by (elim exE conjE, rule_tac x = "xs @ xsa" in exI) (auto simp: hall_run_append)

text \<open>The halls after an update of one room.\<close>

lemma halls_room:
  assumes "\<And>k. room_of s' k = (if k = rid then Some r' else room_of s k)"
  shows "halls_of s' = (halls_of s)(rid \<mapsto> hall_of r')"
  by (rule ext) (simp add: halls_of_def assms)

lemma halls_at: "room_of s rid = Some r \<Longrightarrow> halls_of s rid = Some (hall_of r)"
  by (simp add: halls_of_def)

lemma simulated_enter:
  assumes "on_hub (add_participant rid p) s = (res, s')"
  shows "simulated (Client (Some ROOM_JOIN) (p_user_id (pt s p))) s s'"
proof (cases "\<exists>r r'. room_of s rid = Some r \<and> room_add_participant (heap (hub s)) p r = (Inr (), r')")
  case True
  then obtain r r' where r: "room_of s rid = Some r" "room_add_participant (heap (hub s)) p r = (Inr (), r')" by blast
  let ?u = "p_user_id (pt s p)"
  have c: "length (participants r) < r_capacity r" "map_of (participants r) ?u = None"
    "hall_of r' = (hall_of r)\<lparr>h_members := insert ?u (h_members (hall_of r))\<rparr>"
    using r(2) by (auto simp: room_add_participant_def hall_of_def pt_def image_iff dom_update split: if_splits
        dest: arg_cong [where f = dom] simp flip: dom_map_of_conv_image_fst)
  have "room_of s' k = (if k = rid then Some r' else room_of s k)" for k
    using assms r by (auto simp: on_hub_def add_participant_def hub_get_room room_of_def)
  from halls_room [OF this] have h: "halls_of s' = (halls_of s)(rid \<mapsto> (hall_of r)\<lparr>h_members := insert ?u (h_members (hall_of r))\<rparr>)"
    by (simp add: c(3))
  have "card (fst ` set (participants r)) < r_capacity r"
    using c(1) card_image_le [of "set (participants r)" fst] card_length [of "participants r"] by simp
  moreover have "?u \<notin> fst ` set (participants r)" using c(2) by (simp add: map_of_eq_None_iff)
  ultimately have "hall_step (halls_of s) (Entered rid ?u) (halls_of s')"
    unfolding h by (intro entered halls_at r) (simp_all add: hall_of_def)
  then show ?thesis by (rule simulated_step) simp
next
  case False
  then have "room_of s' k = room_of s k" for k
    using assms
    by (cases "room_of s rid")
       (auto simp: on_hub_def add_participant_def hub_get_room room_of_def room_add_participant_def split: if_splits prod.splits)
  then show ?thesis by (intro simulated_same) (simp add: halls_of_def)
qed

lemma keys_delete: "fst ` set (AList.delete v ps) = fst ` set ps - {v}"
  unfolding AList.delete_eq by force

lemma simulated_leave:
  assumes "on_hub (remove_participant rid v) s = (gone, s')" and a: "permits a (Left rid v)"
  shows "simulated a s s'"
proof (cases "\<exists>r p r'. room_of s rid = Some r \<and> room_remove_participant (heap (hub s)) v r = (Inr p, r')")
  case True
  then obtain r p r' where r: "room_of s rid = Some r" "room_remove_participant (heap (hub s)) v r = (Inr p, r')" by blast
  have m: "map_of (participants r) v = Some p" "participants r' = AList.delete v (participants r)"
      "r_mode r' = r_mode r" "r_capacity r' = r_capacity r" "r_floor r' = r_floor r"
    using r(2) by (auto simp: room_remove_participant_def split: option.splits)
  have c: "v \<in> fst ` set (participants r)" "hall_of r' = (hall_of r)\<lparr>h_members := h_members (hall_of r) - {v}\<rparr>"
    using map_of_SomeD [OF m(1)] m(2-5) by (force, simp add: hall_of_def keys_delete)
  have "room_of s' k = (if k = rid then Some r' else room_of s k)" for k
    using assms(1) r by (auto simp: on_hub_def remove_participant_def hub_get_room room_of_def unindex_def split: prod.splits)
  from halls_room [OF this] have h: "halls_of s' = (halls_of s)(rid \<mapsto> (hall_of r)\<lparr>h_members := h_members (hall_of r) - {v}\<rparr>)"
    by (simp add: c(2))
  have "hall_step (halls_of s) (Left rid v) (halls_of s')"
    unfolding h by (intro left halls_at r) (simp add: hall_of_def c(1))
  then show ?thesis using a by (rule simulated_step)
next
  case False
  then have "room_of s' k = room_of s k" for k
    using assms(1)
    by (cases "room_of s rid")
       (auto simp: on_hub_def remove_participant_def hub_get_room room_of_def room_remove_participant_def split: prod.splits option.splits)
  then show ?thesis by (intro simulated_same) (simp add: halls_of_def)
qed

lemma simulated_floor:
  assumes r: "room_of s rid = Some r" and "hall_step (halls_of s) x ((halls_of s)(rid \<mapsto> (hall_of r)\<lparr>h_speaker := current_speaker f\<rparr>))"
    and "permits a x"
  shows "simulated a s (set_floor rid f s)"
proof -
  have "halls_of (set_floor rid f s) = (halls_of s)(rid \<mapsto> hall_of (r\<lparr>r_floor := f\<rparr>))"
    by (rule halls_room) (simp add: set_floor_room [OF r])
  also have "hall_of (r\<lparr>r_floor := f\<rparr>) = (hall_of r)\<lparr>h_speaker := current_speaker f\<rparr>" by (simp add: hall_of_def)
  finally have h: "halls_of (set_floor rid f s) = (halls_of s)(rid \<mapsto> (hall_of r)\<lparr>h_speaker := current_speaker f\<rparr>)" .
  show ?thesis by (rule simulated_step [OF _ assms(3)]) (simp only: h assms(2))
qed

section \<open>The simulation\<close>

interpretation sim: step_frame e simulated for e :: "'c env"
proof
  show "simulated a s1 s2 \<Longrightarrow> simulated a s2 s3 \<Longrightarrow> simulated a s1 s3" for a and s1 s2 s3 :: "'c app"
    by (rule simulated_trans)
next
  fix a and s s' :: "'c app" and es
  assume rel: "\<And>rid. rel_option same_hall (room_of s rid) (room_of s' rid)"
  have "halls_of s' rid = halls_of s rid" for rid
    using rel [of rid] by (auto simp: halls_of_def hall_of_def same_hall_def elim!: option.rel_cases)
  then show "simulated a s s'" by (rule simulated_same)
next
  fix v and s :: "'c app" and rid vs1 vs2 nm cap mode now
  let ?r = "room_new vs1 vs2 rid nm cap mode now" and ?s = "s\<lparr>hub := snd (hub_create rid vs1 vs2 nm cap mode now (hub s))\<rparr>"
  have h: "halls_of ?s = (halls_of s)(rid \<mapsto> hall_of ?r)"
    by (rule halls_room) (simp add: hub_create_def Let_def room_of_def)
  have "hall_step (halls_of s) (Opened rid) (halls_of ?s)"
    unfolding h by (rule opened) (simp_all add: hall_of_def room_new_def floor_new_def)
  then show "simulated (Client (Some ROOM_CREATE) v) s ?s" by (rule simulated_step) simp
next
  fix rid p and s s' :: "'c app" and res
  show "on_hub (add_participant rid p) s = (res, s') \<Longrightarrow> simulated (Client (Some ROOM_JOIN) (p_user_id (pt s p))) s s'"
    by (rule simulated_enter)
next
  fix a c v rid and s s' :: "'c app" and gone
  show "a = Client c v \<or> a = Reaper \<Longrightarrow> on_hub (remove_participant rid v) s = (gone, s') \<Longrightarrow> simulated a s s'"
    by (rule simulated_leave) auto
next
  fix s :: "'c app" and rid r v f
  assume r: "room_of s rid = Some r" "r_mode r = Ptt" "current_speaker (r_floor r) \<in> {None, Some v}" "current_speaker f = Some v"
  show "simulated (Client (Some FLOOR_REQUEST) v) s (set_floor rid f s)"
  proof (cases "current_speaker (r_floor r)")
    case None
    have "hall_step (halls_of s) (Took rid v) ((halls_of s)(rid \<mapsto> (hall_of r)\<lparr>h_speaker := Some v\<rparr>))"
      by (rule took [where H = "halls_of s" and rid = rid, OF halls_at [OF r(1)]]) (simp_all add: hall_of_def r(2) None)
    then show ?thesis by (intro simulated_floor [OF r(1), of "Took rid v"]) (simp_all add: r(4))
  next
    case (Some w)
    then show ?thesis using r
      by (intro simulated_same) (auto simp: halls_of_def set_floor_room hall_of_def)
  qed
next
  fix a c v and s :: "'c app" and rid r f
  assume a: "a = Client c v \<or> a = FloorClock" and r: "room_of s rid = Some r" "current_speaker (r_floor r) = Some v"
    and f: "current_speaker f = None"
  have "hall_step (halls_of s) (Freed rid v) ((halls_of s)(rid \<mapsto> (hall_of r)\<lparr>h_speaker := None\<rparr>))"
    by (rule freed [where H = "halls_of s" and rid = rid, OF halls_at [OF r(1)]]) (simp add: hall_of_def r(2))
  then show "simulated a s (set_floor rid f s)"
    using a by (intro simulated_floor [OF r(1), of "Freed rid v"]) (auto simp: f)
qed

lemma task_simulated:
  assumes "reachable W \<sigma>" and "task_step W \<tau> \<sigma> \<sigma>'"
  shows "\<exists>a. acts W \<sigma> \<sigma>' a \<and> plays \<tau> a \<and> simulated a (sy_app \<sigma>) (sy_app \<sigma>')"
  using sim.task_framed [OF assms(2) reachable_ok [OF assms(1)] refl] .

lemma step_simulated:
  assumes "reachable W \<sigma>" and "sys_step W \<sigma> \<sigma>'"
  shows "\<exists>a. acts W \<sigma> \<sigma>' a \<and> simulated a (sy_app \<sigma>) (sy_app \<sigma>')"
  using sim.step_framed [OF assms(2) reachable_ok [OF assms(1)] refl] .

lemma create_rooms_run:
  "\<exists>xs. hall_run xs (halls_of s) (halls_of (s\<lparr>hub := create_rooms now rs seeds (hub s)\<rparr>))"
proof (induction now rs seeds "hub s" arbitrary: s rule: create_rooms.induct)
  case (1 now nm cap mode rs rid a v seeds)
  let ?s = "s\<lparr>hub := snd (hub_create rid a v nm (Some cap) mode now (hub s))\<rparr>"
  have "\<exists>xs. hall_run xs (halls_of s) (halls_of ?s)"
    using sim.opens [of _ s rid a v nm "Some cap" mode now] by (auto simp: simulated_def)
  moreover have "\<exists>xs. hall_run xs (halls_of ?s) (halls_of (?s\<lparr>hub := create_rooms now rs seeds (hub ?s)\<rparr>))"
    using 1 [of ?s] by simp
  ultimately show ?case by (simp, metis hall_run_append)
qed (auto intro: exI [of _ "[]"])

lemma start_run: "\<exists>xs. hall_run xs Map.empty (halls_of (sy_app (system_start now seeds n mode bitrate :: 'c sys)))"
proof -
  have "halls_of (app_new :: 'c app) = Map.empty" by (rule ext) (simp add: halls_of_def room_of_def app_new_def hub_new_def)
  then show ?thesis using create_rooms_run [of "app_new :: 'c app" now default_rooms seeds]
    by (simp add: system_start_def create_default_rooms_def)
qed

lemma reachable_run: "reachable W \<sigma> \<Longrightarrow> \<exists>xs. hall_run xs Map.empty (halls_of (sy_app \<sigma>))"
proof (induction rule: reachable.induct)
  case (step \<sigma> \<sigma>')
  obtain xs where "hall_run xs Map.empty (halls_of (sy_app \<sigma>))" using step.IH by blast
  moreover obtain ys where "hall_run ys (halls_of (sy_app \<sigma>)) (halls_of (sy_app \<sigma>'))"
    using step_simulated [OF step(1,2)] by (auto simp: simulated_def)
  ultimately show ?case by (metis hall_run_append)
qed (rule start_run)

text \<open>
  C3: the system refines the halls. The rooms of every reachable state are reached by a run
  of the abstract machine from no halls at all, so no room ever has more members than its
  capacity and only a push-to-talk room has a speaker. Each further step of the system is a
  run of events that the actor of the step may cause: the floor timer only frees floors, the
  reaper only removes members, a client opens rooms on a create request, enters on a join
  request, takes the floor on a floor request, and enters, leaves, takes and frees in its
  own name only; media, handshakes and all other tasks cause no event.
\<close>

theorem system_refines_halls:
  assumes "reachable W \<sigma>"
  shows "(\<exists>xs. hall_run xs Map.empty (halls_of (sy_app \<sigma>))) \<and> halls_ok (halls_of (sy_app \<sigma>)) \<and>
    (\<forall>\<sigma>'. sys_step W \<sigma> \<sigma>' \<longrightarrow> (\<exists>a xs. acts W \<sigma> \<sigma>' a \<and> hall_run xs (halls_of (sy_app \<sigma>)) (halls_of (sy_app \<sigma>')) \<and>
       list_all (permits a) xs))"
proof -
  obtain xs where xs: "hall_run xs Map.empty (halls_of (sy_app \<sigma>))" using reachable_run [OF assms] by blast
  then have "halls_ok (halls_of (sy_app \<sigma>))" by (rule hall_run_ok) (simp add: halls_ok_def)
  then show ?thesis using xs step_simulated [OF assms] by (auto simp: simulated_def)
qed

theorem system_refines_halls_witness:
  "halls_ok (halls_of (sy_app demo_start)) \<and> (\<exists>xs. hall_run xs Map.empty (halls_of (sy_app demo_start))) \<and>
   halls_of (sy_app demo_start) ''c'' \<noteq> None"
  using system_refines_halls [OF demo_reachable(1)] demo_rooms by (auto simp: halls_of_def)

text \<open>The same with the task that took the step, from which the system theorem follows.\<close>

lemma task_authority:
  assumes "reachable W \<sigma>" and "task_step W \<tau> \<sigma> \<sigma>'"
  shows "in_hall (halls_of (sy_app \<sigma>')) rid u \<Longrightarrow> \<not> in_hall (halls_of (sy_app \<sigma>)) rid u \<Longrightarrow>
      acts W \<sigma> \<sigma>' (Client (Some ROOM_JOIN) u)"
    and "in_hall (halls_of (sy_app \<sigma>)) rid u \<Longrightarrow> \<not> in_hall (halls_of (sy_app \<sigma>')) rid u \<Longrightarrow>
      (\<exists>c. acts W \<sigma> \<sigma>' (Client c u)) \<or> \<tau> = ZombieReaper \<and> acts W \<sigma> \<sigma>' Reaper \<or> (\<exists>v. acts W \<sigma> \<sigma>' (Client (Some ROOM_CREATE) v))"
    and "speaks_in (halls_of (sy_app \<sigma>)) rid u \<Longrightarrow> \<not> speaks_in (halls_of (sy_app \<sigma>')) rid u \<Longrightarrow>
      (\<exists>c. acts W \<sigma> \<sigma>' (Client c u)) \<or> \<tau> = FloorTimer \<and> acts W \<sigma> \<sigma>' FloorClock \<or> (\<exists>v. acts W \<sigma> \<sigma>' (Client (Some ROOM_CREATE) v))"
proof -
  obtain a xs where a: "acts W \<sigma> \<sigma>' a" "plays \<tau> a" "hall_run xs (halls_of (sy_app \<sigma>)) (halls_of (sy_app \<sigma>'))"
      "list_all (permits a) xs"
    using task_simulated [OF assms] by (auto simp: simulated_def)
  have p: "x \<in> set xs \<Longrightarrow> permits a x" for x using a(4) by (simp add: list_all_iff)
  have who: "permits a (Entered rid u) \<Longrightarrow> a = Client (Some ROOM_JOIN) u"
    "permits a (Left rid u) \<Longrightarrow> (\<exists>c. a = Client c u) \<or> a = Reaper"
    "permits a (Freed rid u) \<Longrightarrow> (\<exists>c. a = Client c u) \<or> a = FloorClock"
    "permits a (Opened rid) \<Longrightarrow> \<exists>v. a = Client (Some ROOM_CREATE) v"
    by (cases a; simp)+
  have timers: "a = Reaper \<Longrightarrow> \<tau> = ZombieReaper" "a = FloorClock \<Longrightarrow> \<tau> = FloorTimer" using a(2) by auto
  note all = hall_run_changes [OF a(3), of rid u] p who timers a(1)
  show "in_hall (halls_of (sy_app \<sigma>')) rid u \<Longrightarrow> \<not> in_hall (halls_of (sy_app \<sigma>)) rid u \<Longrightarrow>
      acts W \<sigma> \<sigma>' (Client (Some ROOM_JOIN) u)" using all by blast
  show "in_hall (halls_of (sy_app \<sigma>)) rid u \<Longrightarrow> \<not> in_hall (halls_of (sy_app \<sigma>')) rid u \<Longrightarrow>
      (\<exists>c. acts W \<sigma> \<sigma>' (Client c u)) \<or> \<tau> = ZombieReaper \<and> acts W \<sigma> \<sigma>' Reaper \<or> (\<exists>v. acts W \<sigma> \<sigma>' (Client (Some ROOM_CREATE) v))"
    using all by blast
  show "speaks_in (halls_of (sy_app \<sigma>)) rid u \<Longrightarrow> \<not> speaks_in (halls_of (sy_app \<sigma>')) rid u \<Longrightarrow>
      (\<exists>c. acts W \<sigma> \<sigma>' (Client c u)) \<or> \<tau> = FloorTimer \<and> acts W \<sigma> \<sigma>' FloorClock \<or> (\<exists>v. acts W \<sigma> \<sigma>' (Client (Some ROOM_CREATE) v))"
    using all by blast
qed

text \<open>
  C5: nobody else decides about a membership. When a step of the running server makes a user
  a member of a room, it was a join request of a connection under this very name. When a
  step ends a membership, it was a turn of a connection under this name, the reaper, or a
  create request that drew the identifier of the room again. When a step takes the floor from a speaker, it was a turn under the name
  of the speaker, the floor timer, or again such a create request.
\<close>

theorem membership_authority:
  assumes "reachable W \<sigma>" and "sys_step W \<sigma> \<sigma>'"
  shows "(in_hall (halls_of (sy_app \<sigma>')) rid u \<and> \<not> in_hall (halls_of (sy_app \<sigma>)) rid u \<longrightarrow>
      acts W \<sigma> \<sigma>' (Client (Some ROOM_JOIN) u)) \<and>
    (in_hall (halls_of (sy_app \<sigma>)) rid u \<and> \<not> in_hall (halls_of (sy_app \<sigma>')) rid u \<longrightarrow>
      (\<exists>c. acts W \<sigma> \<sigma>' (Client c u)) \<or> acts W \<sigma> \<sigma>' Reaper \<or> (\<exists>v. acts W \<sigma> \<sigma>' (Client (Some ROOM_CREATE) v))) \<and>
    (speaks_in (halls_of (sy_app \<sigma>)) rid u \<and> \<not> speaks_in (halls_of (sy_app \<sigma>')) rid u \<longrightarrow>
      (\<exists>c. acts W \<sigma> \<sigma>' (Client c u)) \<or> acts W \<sigma> \<sigma>' FloorClock \<or> (\<exists>v. acts W \<sigma> \<sigma>' (Client (Some ROOM_CREATE) v)))"
  using assms(2) task_authority [OF assms(1), of _ \<sigma>' rid u] by (auto simp: sys_step_def)

text \<open>A connection that joins a room in a run of the server.\<close>

lemma talk_joins:
  "\<exists>\<sigma> \<sigma>' p. reachable talk_world \<sigma> \<and> sys_step talk_world \<sigma> \<sigma>' \<and>
     \<not> in_hall (halls_of (sy_app \<sigma>)) ''a'' ''u'' \<and> in_hall (halls_of (sy_app \<sigma>')) ''a'' ''u'' \<and>
     sy_workers \<sigma>' = sy_workers demo_start \<and> find_by_ufrag (hub (sy_app \<sigma>')) ''01'' = Some (p, Publish, ''a'')"
proof -
  obtain \<sigma> r where S: "reachable talk_world \<sigma>" "sy_conns \<sigma> = [Some talk_conn]" "room_of (sy_app \<sigma>) ''a'' = Some r"
      "participants r = []" "r_capacity r = 10" "sy_workers \<sigma> = sy_workers demo_start"
    using talk_identified by blast
  let ?x = "room_packet ROOM_JOIN ''a''"
  have req: "dec_join talk_dec (d ?x) = Some \<lparr>rq_room_id = ''a''\<rparr>" by (simp add: talk_dec_def)
  have u: "su_user talk_session = Some ''u''" by (simp add: talk_session_def)
  have ne: "ufrag (ice_credentials_new (fst (f_pub_ice demo_fresh)) (snd (f_pub_ice demo_fresh))) \<noteq>
      ufrag (ice_credentials_new (fst (f_sub_ice demo_fresh)) (snd (f_sub_ice demo_fresh)))"
    by (simp add: demo_fresh_def ice_credentials_new_def random_ice_string_def)
  have uf: "ufrag (ice_credentials_new (fst (f_pub_ice demo_fresh)) (snd (f_pub_ice demo_fresh))) = ''01''" by code_simp
  have R: "room_of (sy_app \<sigma>) (rq_room_id \<lparr>rq_room_id = ''a''\<rparr>) = Some r" "length (participants r) < r_capacity r"
      "map_of (participants r) ''u'' = None"
    using S(3-5) by simp_all
  obtain resp ss1 s1 p r1 where H0: "handle_room_join demo_env demo_server talk_dec demo_fresh ?x talk_session (sy_app \<sigma>) = Some (resp, ss1, s1)"
      "room_of s1 (rq_room_id \<lparr>rq_room_id = ''a''\<rparr>) = Some r1" "participants r1 = participants r @ [(''u'', p)]"
      "find_by_ufrag (hub s1) (ufrag (ice_credentials_new (fst (f_pub_ice demo_fresh)) (snd (f_pub_ice demo_fresh)))) =
        Some (p, Publish, rq_room_id \<lparr>rq_room_id = ''a''\<rparr>)"
    using join_outcome [OF sys_okD(1) [OF reachable_ok [OF S(1)]] u req R refl refl ne, of demo_env demo_server] by blast
  then have H: "handle_room_join demo_env demo_server talk_dec demo_fresh ?x talk_session (sy_app \<sigma>) = Some (resp, ss1, s1)"
      "room_of s1 ''a'' = Some r1" "participants r1 = [(''u'', p)]" "find_by_ufrag (hub s1) ''01'' = Some (p, Publish, ''a'')"
    using S(4) unfolding uf by simp_all
  have D: "dispatch demo_env demo_server talk_dec demo_fresh ?x talk_session (sy_app \<sigma>) = Some (Some resp, ss1, s1)"
    using H(1) u
    by (simp add: dispatch_def room_packet_def is_response_def is_authenticated_def opcode_defs)
  obtain cn' s' where T: "connection_turn demo_env demo_server talk_dec demo_fresh True 10 (WsText ''j'') talk_conn (sy_app \<sigma>) = Some (cn', s')"
      "\<forall>rid. room_of s' rid = room_of s1 rid" "hub s' = hub s1"
    using demo_send_packet [of "su_tx ss1" resp s1] D
    by (auto simp: connection_turn_def talk_dec_def talk_conn_def)
  let ?t = "\<sigma>\<lparr>sy_app := s', sy_conns := (sy_conns \<sigma>)[0 := cn']\<rparr>"
  have "sys_step talk_world \<sigma> ?t"
    by (rule sys_stepI [OF connection_event [where fr = demo_fresh and socket_ok = True and instant = 10 and ev = "WsText ''j''" and cn = talk_conn]])
       (simp_all add: S(2) T(1))
  moreover have "\<not> in_hall (halls_of (sy_app \<sigma>)) ''a'' ''u''" "in_hall (halls_of s') ''a'' ''u''"
    using S(3,4) T(2) H(2,3) by (simp_all add: in_hall_def halls_of_def hall_of_def)
  ultimately show ?thesis using S(1,6) H(4) T(3) by (intro exI [of _ \<sigma>] exI [of _ ?t] exI [of _ p]) simp
qed

theorem membership_authority_witness:
  "\<exists>\<sigma> \<sigma>'. reachable talk_world \<sigma> \<and> sys_step talk_world \<sigma> \<sigma>' \<and> in_hall (halls_of (sy_app \<sigma>')) ''a'' ''u'' \<and>
     acts talk_world \<sigma> \<sigma>' (Client (Some ROOM_JOIN) ''u'')"
proof -
  obtain \<sigma> \<sigma>' where s: "reachable talk_world \<sigma>" "sys_step talk_world \<sigma> \<sigma>'"
      "\<not> in_hall (halls_of (sy_app \<sigma>)) ''a'' ''u''" "in_hall (halls_of (sy_app \<sigma>')) ''a'' ''u''"
    using talk_joins by blast
  then show ?thesis using conjunct1 [OF membership_authority [OF s(1,2), of "''a''" "''u''"]] by blast
qed

end
