(* ===== verification/Wire.thy ===== *)
theory Wire
  imports Frames
begin

text \<open>
  Type safety of the signaling protocol: everything that any run of the server sends over a
  WebSocket is the text of a packet that matches its schema. This is the frame of
  \<open>Frames\<close> for the log of effects.
\<close>

section \<open>The frame\<close>

definition says_politely :: "'c env \<Rightarrow> 'c app \<Rightarrow> 'c app \<Rightarrow> bool" where
  "says_politely e s s' \<longleftrightarrow> (\<exists>es. out s' = out s @ es \<and> list_all (polite e) es)"

lemma says_politely_same: "out s' = out s \<Longrightarrow> says_politely e s s'"
  unfolding says_politely_def by (rule exI [of _ "[]"]) simp

lemma remove_out: "on_hub (remove_participant rid v) s = (gone, s') \<Longrightarrow> out s' = out s"
  by (rule remove_participant_good(3))

interpretation wire: step_frame e "\<lambda>a. says_politely e" for e :: "'c env"
proof
  fix s1 s2 s3 :: "'c app"
  show "says_politely e s1 s2 \<Longrightarrow> says_politely e s2 s3 \<Longrightarrow> says_politely e s1 s3"
    unfolding says_politely_def by (elim exE, rule_tac x = "es @ esa" in exI) auto
next
  fix s s' :: "'c app" and es
  show "out s' = out s @ es \<Longrightarrow> list_all (polite e) es \<Longrightarrow> says_politely e s s'"
    by (auto simp: says_politely_def)
next
  fix s :: "'c app" and rid p res s'
  show "on_hub (add_participant rid p) s = (res, s') \<Longrightarrow> says_politely e s s'"
    by (rule says_politely_same) (auto simp: on_hub_def split: prod.splits)
next
  fix s :: "'c app" and rid v gone s'
  show "on_hub (remove_participant rid v) s = (gone, s') \<Longrightarrow> says_politely e s s'"
    by (rule says_politely_same) (rule remove_out)
qed (auto intro!: says_politely_same simp: set_floor_def split: option.split)

lemma start_silent: "out (sy_app (system_start now seeds worker_count mode bitrate)) = []"
  by (simp add: system_start_def create_default_rooms_def app_new_def)

lemma reachable_polite: "reachable W \<sigma> \<Longrightarrow> list_all (polite (w_env W)) (out (sy_app \<sigma>))"
proof (induction rule: reachable.induct)
  case (step \<sigma> \<sigma>')
  then have "says_politely (w_env W) (sy_app \<sigma>) (sy_app \<sigma>')"
    using wire.step_framed [OF step(2) reachable_ok [OF step(1)] refl] by blast
  then show ?case using step.IH by (auto simp: says_politely_def)
qed (simp add: start_silent)

section \<open>What clients and administrators read\<close>

text \<open>
  C4: the protocol is typed. Whatever the clients send and in whatever order the tasks run,
  every text queued for a connection is the print of an event without an answer flag and
  with packet identifier 0 whose payload has the fields and types of its opcode (only the
  notice of a revocation is an empty text if it cannot be printed); every text written to a
  connection is the greeting, a success whose payload matches the opcode, or an error with
  one of the eighteen known codes; every text for the administrators is a snapshot,
  telemetry or metrics.
\<close>

theorem protocol_typed:
  assumes "reachable W \<sigma>"
  shows "(\<forall>tx j. WsSend tx j \<in> set (out (sy_app \<sigma>)) \<longrightarrow> (\<exists>x. event_packet x \<and> op x \<noteq> HELLO \<and>
      (packet_string (w_env W) x = Some j \<or> op x = FLOOR_REVOKE \<and> packet_string (w_env W) x = None \<and> j = []))) \<and>
    (\<forall>tx j. WsReply tx j \<in> set (out (sy_app \<sigma>)) \<longrightarrow> (\<exists>x. reply_packet x \<and> packet_string (w_env W) x = Some j)) \<and>
    (\<forall>j. AdminSend j \<in> set (out (sy_app \<sigma>)) \<longrightarrow> (\<exists>v. has_type T_admin v \<and> j = json_string (w_env W) v))"
  using reachable_polite [OF assms] by (auto simp: list_all_iff)

theorem protocol_typed_witness:
  "\<exists>x j. WsReply 0 j \<in> set (out (sy_app demo_connected)) \<and> reply_packet x \<and> packet_string demo_env x = Some j"
proof -
  obtain j where "WsReply 0 j \<in> set (out (sy_app demo_connected))"
    by (auto simp: demo_connected_def connection_open_def next_pid_def send_packet_def demo_env_def)
  then show ?thesis
    using conjunct1 [OF conjunct2 [OF protocol_typed [OF demo_reachable(2)]], rule_format, of 0 j] by (auto simp: demo_world_def)
qed

end
