(* ===== verification/Admin.thy ===== *)
theory Admin
  imports Wire
begin

text \<open>
  The connection of an administrator (\<open>handle_admin_connection\<close> of
  \<open>src/signaling/handler.rs\<close>, the broadcast channel of \<open>src/state.rs\<close>): it subscribes to the
  broadcast channel, sends a snapshot, and then every text it receives. All texts ever sent
  on the channel are part of the log of effects; a receiver is a position in them. What it
  receives is decided by the runtime library, which is a parameter \<open>recv\<close> with the laws of
  the locale \<open>broadcast_channel\<close>.
\<close>

definition ADMIN_CHANNEL_SIZE :: nat where [config_defs]: "ADMIN_CHANNEL_SIZE = 256"

text \<open>The texts sent so far.\<close>

definition admin_log :: "'c app \<Rightarrow> string list" where
  "admin_log s = List.map_filter (\<lambda>x. case x of AdminSend j \<Rightarrow> Some j | _ \<Rightarrow> None) (out s)"

section \<open>The connection\<close>

text \<open>
  The next text or how many were missed, with the new position of the receiver; \<open>None\<close> while
  it waits. The connection itself holds a sender, so the channel is never closed.
\<close>

type_synonym receiver = "string list \<Rightarrow> nat \<Rightarrow> ((string + nat) \<times> nat) option"

text \<open>The position of its receiver, the texts written to its socket, and how many were reported as missed.\<close>

record admin_conn =
  ad_pos :: nat
  ad_written :: "string list"
  ad_missed :: nat

text \<open>A receiver begins after what has been sent; the snapshot is taken later.\<close>

definition admin_subscribe :: "'c app \<Rightarrow> nat" where
  "admin_subscribe s = length (admin_log s)"

definition admin_open :: "'c env \<Rightarrow> bool \<Rightarrow> nat \<Rightarrow> 'c app \<Rightarrow> admin_conn option" where
  "admin_open e socket_ok rx s =
     (let json = json_string e (build_rooms_snapshot s)
      in if socket_ok then Some \<lparr>ad_pos = rx, ad_written = [json], ad_missed = 0\<rparr> else None)"

datatype admin_event = ChannelReady | SocketClosed | SocketOther

text \<open>One turn of the loop; \<open>None\<close> when it is left.\<close>

definition admin_turn :: "receiver \<Rightarrow> bool \<Rightarrow> admin_event \<Rightarrow> string list \<Rightarrow> admin_conn \<Rightarrow> admin_conn option" where
  "admin_turn recv socket_ok ev log cn =
     (case ev of
        ChannelReady \<Rightarrow>
          (case recv log (ad_pos cn) of
             None \<Rightarrow> Some cn
           | Some (Inl json, rx) \<Rightarrow>
               if socket_ok then Some (cn\<lparr>ad_pos := rx, ad_written := ad_written cn @ [json]\<rparr>) else None
           | Some (Inr n, rx) \<Rightarrow> Some (cn\<lparr>ad_pos := rx, ad_missed := ad_missed cn + n\<rparr>))
      | SocketClosed \<Rightarrow> None
      | SocketOther \<Rightarrow> Some cn)"

text \<open>Turns while the server stands still and the socket takes everything.\<close>

fun admin_turns :: "receiver \<Rightarrow> nat \<Rightarrow> string list \<Rightarrow> admin_conn \<Rightarrow> admin_conn option" where
  "admin_turns recv 0 log cn = Some cn"
| "admin_turns recv (Suc k) log cn = Option.bind (admin_turn recv True ChannelReady log cn) (admin_turns recv k log)"

section \<open>The broadcast channel\<close>

text \<open>
  What the code relies on, as the manual of the runtime library states it: a receiver gets
  the next text that is kept; when its place has been overwritten it gets the number it has
  missed, and goes on with the oldest that is kept.
\<close>

locale broadcast_channel =
  fixes bound :: nat
    and receive :: receiver
  assumes bound_positive: "0 < bound"
    and receive_empty: "length log \<le> n \<Longrightarrow> receive log n = None"
    and receive_next: "n < length log \<Longrightarrow> length log \<le> n + bound \<Longrightarrow> receive log n = Some (Inl (log ! n), Suc n)"
    and receive_lagged: "n + bound < length log \<Longrightarrow>
      receive log n = Some (Inr (length log - bound - n), length log - bound)"
begin

lemma turn_cases:
  assumes "admin_turn receive socket_ok ev log cn = Some cn'"
  shows "cn' = cn \<or>
    (ad_pos cn < length log \<and> cn' = cn\<lparr>ad_pos := Suc (ad_pos cn), ad_written := ad_written cn @ [log ! ad_pos cn]\<rparr>) \<or>
    (\<exists>k. ad_pos cn + k \<le> length log \<and> cn' = cn\<lparr>ad_pos := ad_pos cn + k, ad_missed := ad_missed cn + k\<rparr>)"
proof (cases "ev = ChannelReady")
  case ev: True
  consider "length log \<le> ad_pos cn" | "ad_pos cn < length log" "length log \<le> ad_pos cn + bound" | "ad_pos cn + bound < length log"
    by linarith
  then show ?thesis
  proof cases
    case 1
    then show ?thesis using assms ev by (simp add: admin_turn_def receive_empty)
  next
    case 2
    then show ?thesis using assms ev by (simp add: admin_turn_def receive_next split: if_splits)
  next
    case 3
    then show ?thesis using assms ev
      by (intro disjI2 exI [of _ "length log - bound - ad_pos cn"]) (auto simp: admin_turn_def receive_lagged)
  qed
qed (use assms in \<open>simp add: admin_turn_def split: admin_event.splits\<close>)

text \<open>A receiver that has not been overtaken reads the rest.\<close>

lemma turns_close:
  "ad_pos cn \<le> length log \<Longrightarrow> length log \<le> ad_pos cn + bound \<Longrightarrow> length log - ad_pos cn \<le> k \<Longrightarrow>
     admin_turns receive k log cn =
       Some (cn\<lparr>ad_pos := length log, ad_written := ad_written cn @ drop (ad_pos cn) log\<rparr>)"
proof (induction k arbitrary: cn)
  case (Suc k)
  show ?case
  proof (cases "ad_pos cn < length log")
    case True
    then have "admin_turn receive True ChannelReady log cn =
        Some (cn\<lparr>ad_pos := Suc (ad_pos cn), ad_written := ad_written cn @ [log ! ad_pos cn]\<rparr>)"
      using Suc.prems by (simp add: admin_turn_def receive_next)
    then show ?thesis using Suc.prems True by (simp add: Suc.IH Cons_nth_drop_Suc)
  next
    case False
    then have "admin_turn receive True ChannelReady log cn = Some cn" by (simp add: admin_turn_def receive_empty)
    then show ?thesis using Suc.prems False Suc.IH [of cn] by simp
  qed
qed simp

lemma turns_all:
  assumes "ad_pos cn \<le> length log" and "length log - ad_pos cn < k"
  shows "admin_turns receive k log cn =
    Some (cn\<lparr>ad_pos := length log, ad_written := ad_written cn @ drop (max (ad_pos cn) (length log - bound)) log,
      ad_missed := ad_missed cn + (length log - bound - ad_pos cn)\<rparr>)"
proof (cases "length log \<le> ad_pos cn + bound")
  case True
  then have "max (ad_pos cn) (length log - bound) = ad_pos cn" "length log - bound - ad_pos cn = 0" by simp_all
  then show ?thesis using turns_close [of cn log k] assms True by simp
next
  case False
  then obtain k' where k: "k = Suc k'" using assms(2) by (cases k) simp_all
  then have "admin_turns receive k log cn = admin_turns receive k' log
      (cn\<lparr>ad_pos := length log - bound, ad_missed := ad_missed cn + (length log - bound - ad_pos cn)\<rparr>)"
    using False by (simp add: admin_turn_def receive_lagged)
  also have "\<dots> = Some (cn\<lparr>ad_pos := length log, ad_written := ad_written cn @ drop (length log - bound) log,
      ad_missed := ad_missed cn + (length log - bound - ad_pos cn)\<rparr>)"
    by (subst turns_close) (use False assms k bound_positive in simp_all)
  finally show ?thesis using False by (simp add: max_def)
qed

end

text \<open>The channel as its manual describes it satisfies the laws.\<close>

definition admin_recv :: receiver where
  "admin_recv log n =
     (if length log \<le> n then None
      else if length log - n > ADMIN_CHANNEL_SIZE
        then Some (Inr (length log - ADMIN_CHANNEL_SIZE - n), length log - ADMIN_CHANNEL_SIZE)
      else Some (Inl (log ! n), Suc n))"

interpretation ac: broadcast_channel ADMIN_CHANNEL_SIZE admin_recv
  by unfold_locales (auto simp: admin_recv_def ADMIN_CHANNEL_SIZE_def)

section \<open>An administrator beside the running server\<close>

text \<open>Connections that subscribed in \<open>\<sigma>0\<close> and took the snapshot in \<open>\<sigma>1\<close>.\<close>

inductive watched :: "receiver \<Rightarrow> 'c world \<Rightarrow> 'c sys \<Rightarrow> 'c sys \<Rightarrow> 'c sys \<Rightarrow> admin_conn \<Rightarrow> bool"
  for recv :: receiver and W :: "'c world" and \<sigma>0 \<sigma>1 :: "'c sys" where
  opens: "reachable W \<sigma>0 \<Longrightarrow> (sys_step W)\<^sup>*\<^sup>* \<sigma>0 \<sigma>1 \<Longrightarrow>
     admin_open (w_env W) socket_ok (admin_subscribe (sy_app \<sigma>0)) (sy_app \<sigma>1) = Some cn \<Longrightarrow> watched recv W \<sigma>0 \<sigma>1 \<sigma>1 cn"
| system_steps: "watched recv W \<sigma>0 \<sigma>1 \<sigma> cn \<Longrightarrow> sys_step W \<sigma> \<sigma>' \<Longrightarrow> watched recv W \<sigma>0 \<sigma>1 \<sigma>' cn"
| turns: "watched recv W \<sigma>0 \<sigma>1 \<sigma> cn \<Longrightarrow> admin_turn recv socket_ok ev (admin_log (sy_app \<sigma>)) cn = Some cn' \<Longrightarrow>
     watched recv W \<sigma>0 \<sigma>1 \<sigma> cn'"

lemma admin_log_typed:
  assumes "list_all (polite e) (out s)" and "j \<in> set (admin_log s)"
  shows "\<exists>v. has_type T_admin v \<and> j = json_string e v"
  using assms by (force simp: admin_log_def List.map_filter_def list_all_iff split: effect.splits)

lemma admin_log_grows:
  assumes "reachable W \<sigma>" and "sys_step W \<sigma> \<sigma>'"
  shows "\<exists>js. admin_log (sy_app \<sigma>') = admin_log (sy_app \<sigma>) @ js"
  using wire.step_framed [OF assms(2) reachable_ok [OF assms(1)] refl] by (auto simp: says_politely_def admin_log_def)

lemma admin_log_extends:
  assumes "(sys_step W)\<^sup>*\<^sup>* \<sigma> \<sigma>'" and "reachable W \<sigma>"
  shows "reachable W \<sigma>' \<and> (\<exists>js. admin_log (sy_app \<sigma>') = admin_log (sy_app \<sigma>) @ js)"
  using assms
proof (induction rule: rtranclp_induct)
  case (step \<sigma>1 \<sigma>2)
  then show ?case using admin_log_grows [of W \<sigma>1 \<sigma>2] reachable.step [of W \<sigma>1 \<sigma>2] by force
qed simp

lemma take_next: "n \<le> p \<Longrightarrow> p < length log \<Longrightarrow> take (Suc p - n) (drop n log) = take (p - n) (drop n log) @ [log ! p]"
  by (simp add: Suc_diff_le take_Suc_conv_app_nth)

definition watch_ok :: "string \<Rightarrow> nat \<Rightarrow> string list \<Rightarrow> admin_conn \<Rightarrow> bool" where
  "watch_ok snapshot n log cn \<longleftrightarrow> n \<le> ad_pos cn \<and> ad_pos cn \<le> length log \<and>
     (\<exists>ys. ad_written cn = snapshot # ys \<and>
       subseq ys (take (ad_pos cn - n) (drop n log)) \<and> length ys + ad_missed cn = ad_pos cn - n)"

context broadcast_channel
begin

lemma watch_ok_turn:
  assumes ok: "watch_ok j n log cn" and t: "admin_turn receive socket_ok ev log cn = Some cn'"
  shows "watch_ok j n log cn'"
proof -
  let ?p = "ad_pos cn"
  obtain ys where ys: "n \<le> ?p" "?p \<le> length log" "ad_written cn = j # ys"
      "subseq ys (take (?p - n) (drop n log))" "length ys + ad_missed cn = ?p - n"
    using ok by (auto simp: watch_ok_def)
  from turn_cases [OF t] show ?thesis
  proof (elim disjE exE conjE)
    assume m: "?p < length log" "cn' = cn\<lparr>ad_pos := Suc ?p, ad_written := ad_written cn @ [log ! ?p]\<rparr>"
    have "subseq (ys @ [log ! ?p]) (take (Suc ?p - n) (drop n log))"
      unfolding take_next [OF ys(1) m(1)] using ys(4) by (intro list_emb_append_mono) auto
    then show ?thesis using ys m by (simp add: watch_ok_def)
  next
    fix k assume k: "?p + k \<le> length log" "cn' = cn\<lparr>ad_pos := ?p + k, ad_missed := ad_missed cn + k\<rparr>"
    have "take (?p + k - n) (drop n log) = take (?p - n) (drop n log) @ take k (drop ?p log)"
      using ys(1) take_add [of "?p - n" k "drop n log"] by simp
    then have "subseq ys (take (?p + k - n) (drop n log))" using ys(4) by (simp add: subseq_rev_drop_many)
    then show ?thesis using ys k by (simp add: watch_ok_def)
  qed (use ok in simp)
qed

lemma watched_ok:
  assumes "watched receive W \<sigma>0 \<sigma>1 \<sigma> cn"
  shows "reachable W \<sigma> \<and> (\<exists>js. admin_log (sy_app \<sigma>1) = admin_log (sy_app \<sigma>0) @ js) \<and>
    (\<exists>js. admin_log (sy_app \<sigma>) = admin_log (sy_app \<sigma>1) @ js) \<and>
    watch_ok (json_string (w_env W) (build_rooms_snapshot (sy_app \<sigma>1))) (length (admin_log (sy_app \<sigma>0))) (admin_log (sy_app \<sigma>)) cn"
  using assms
proof (induction rule: watched.induct)
  case (opens socket_ok cn)
  then show ?case using admin_log_extends [OF opens(2,1)]
    by (auto simp: admin_open_def admin_subscribe_def watch_ok_def split: if_splits)
next
  case (system_steps \<sigma> cn \<sigma>')
  then obtain js where "admin_log (sy_app \<sigma>') = admin_log (sy_app \<sigma>) @ js" using admin_log_grows by blast
  then show ?case using system_steps by (auto simp: watch_ok_def intro: reachable.step)
qed (auto intro: watch_ok_turn)

end

text \<open>
  C27: what an administrator sees, over any channel that behaves as documented. The first text
  on the connection is the snapshot of the state at that moment, and reading it back gives
  every room with its members, their tracks and the speaker. After it come, in order, texts
  that were sent since the subscription, which is no later than the snapshot, so no change
  falls between; each comes at most once, and each is a snapshot, telemetry or metrics. With
  the texts reported as missed they are exactly those up to the position of the receiver,
  so nothing is lost without a report. Whenever the server stands still, enough turns of the
  connection write every text that is still kept and report the others: all of them are
  written unless more than 256 were waiting.
\<close>

theorem administrator_view:
  assumes "broadcast_channel ADMIN_CHANNEL_SIZE recv" and "watched recv W \<sigma>0 \<sigma>1 \<sigma> cn"
  defines "log \<equiv> admin_log (sy_app \<sigma>)" and "n \<equiv> length (admin_log (sy_app \<sigma>0))"
    and "snapshot \<equiv> build_rooms_snapshot (sy_app \<sigma>1)"
  shows "read_snapshot snapshot = Some (seen_rooms (sy_app \<sigma>1)) \<and>
     n \<le> length (admin_log (sy_app \<sigma>1)) \<and> prefix (admin_log (sy_app \<sigma>1)) log \<and>
     (\<exists>ys. ad_written cn = json_string (w_env W) snapshot # ys \<and>
        subseq ys (take (ad_pos cn - n) (drop n log)) \<and> length ys + ad_missed cn = ad_pos cn - n \<and>
        (\<forall>y \<in> set ys. \<exists>v. has_type T_admin v \<and> y = json_string (w_env W) v)) \<and>
     (\<forall>k > length log - ad_pos cn. \<exists>cn'. admin_turns recv k log cn = Some cn' \<and> ad_pos cn' = length log \<and>
        ad_written cn' = ad_written cn @ drop (max (ad_pos cn) (length log - 256)) log \<and>
        ad_missed cn' = ad_missed cn + (length log - 256 - ad_pos cn))"
proof -
  note ch = broadcast_channel.watched_ok [OF assms(1,2)] broadcast_channel.turns_all [OF assms(1)]
  have p: "n \<le> length (admin_log (sy_app \<sigma>1))" "prefix (admin_log (sy_app \<sigma>1)) log"
    using ch(1) by (auto simp: n_def log_def)
  obtain ys where ys: "ad_pos cn \<le> length log" "ad_written cn = json_string (w_env W) snapshot # ys"
      "subseq ys (take (ad_pos cn - n) (drop n log))" "length ys + ad_missed cn = ad_pos cn - n"
    using ch(1) by (auto simp: watch_ok_def n_def log_def snapshot_def)
  have "\<exists>v. has_type T_admin v \<and> y = json_string (w_env W) v" if m: "y \<in> set ys" for y
  proof -
    have "y \<in> set log" using list_emb_set [OF ys(3) m] in_set_takeD in_set_dropD by metis
    then show ?thesis using ch(1) unfolding log_def by (blast intro: admin_log_typed reachable_polite)
  qed
  moreover have "\<exists>cn'. admin_turns recv k log cn = Some cn' \<and> ad_pos cn' = length log \<and>
      ad_written cn' = ad_written cn @ drop (max (ad_pos cn) (length log - 256)) log \<and>
      ad_missed cn' = ad_missed cn + (length log - 256 - ad_pos cn)" if "length log - ad_pos cn < k" for k
    using ch(2) [OF ys(1) that] by (simp add: ADMIN_CHANNEL_SIZE_def)
  ultimately show ?thesis using p ys(2-4) read_rooms_snapshot [of "sy_app \<sigma>1"] unfolding snapshot_def by blast
qed

lemma demo_watched:
  "\<exists>\<sigma> cn. watched admin_recv demo_world demo_start demo_start \<sigma> cn \<and> ad_pos cn = 1 \<and> ad_missed cn = 0 \<and>
     length (admin_log (sy_app \<sigma>)) = 1 \<and> admin_log (sy_app demo_start) = []"
proof -
  let ?s = "sy_app demo_start"
  have l0: "admin_log ?s = []"
    by (simp add: start_silent admin_log_def demo_start_def List.map_filter_def)
  obtain cn where o: "admin_open (w_env demo_world) True (admin_subscribe ?s) ?s = Some cn"
      and cn: "ad_pos cn = 0" "ad_missed cn = 0"
    by (simp add: admin_open_def admin_subscribe_def l0)
  have w0: "watched admin_recv demo_world demo_start demo_start demo_start cn"
    by (rule opens [OF demo_reachable(1) rtranclp.rtrancl_refl o])
  let ?s1 = "flush_metrics (w_env demo_world) JNull JNull (\<lambda>a b. []) ?s"
  have l1: "length (admin_log ?s1) = 1"
    by (simp add: start_silent flush_metrics_def admin_log_def demo_start_def List.map_filter_def split: prod.split)
  have "sys_step demo_world demo_start (demo_start\<lparr>sy_app := ?s1\<rparr>)"
    by (rule sys_stepI [OF metrics_timer [where i = 0 and w = "worker_new 0 Twcc 500000"]])
       (simp_all add: demo_start_def system_start_def start_workers_def is_primary_def worker_new_def)
  then have w1: "watched admin_recv demo_world demo_start demo_start (demo_start\<lparr>sy_app := ?s1\<rparr>) cn" by (rule system_steps [OF w0])
  let ?cn = "cn\<lparr>ad_pos := 1, ad_written := ad_written cn @ [admin_log ?s1 ! 0]\<rparr>"
  have "admin_turn admin_recv True ChannelReady (admin_log ?s1) cn = Some ?cn"
    using cn l1 by (simp add: admin_turn_def admin_recv_def ADMIN_CHANNEL_SIZE_def)
  then have "watched admin_recv demo_world demo_start demo_start (demo_start\<lparr>sy_app := ?s1\<rparr>) ?cn"
    using turns [OF w1, of True ChannelReady ?cn] by simp
  then show ?thesis using cn l0 l1 by (intro exI [of _ "demo_start\<lparr>sy_app := ?s1\<rparr>"] exI [of _ ?cn]) simp
qed

theorem administrator_view_witness:
  "\<exists>\<sigma> cn y v. watched admin_recv demo_world demo_start demo_start \<sigma> cn \<and>
     ad_written cn = [json_string (w_env demo_world) (build_rooms_snapshot (sy_app demo_start)), y] \<and>
     has_type T_admin v \<and> y = json_string (w_env demo_world) v \<and>
     read_snapshot (build_rooms_snapshot (sy_app demo_start)) = Some (seen_rooms (sy_app demo_start))"
proof -
  obtain \<sigma> cn where w: "watched admin_recv demo_world demo_start demo_start \<sigma> cn" "ad_pos cn = 1" "ad_missed cn = 0"
      "length (admin_log (sy_app \<sigma>)) = 1" "admin_log (sy_app demo_start) = []"
    using demo_watched by blast
  note V = administrator_view [OF ac.broadcast_channel_axioms w(1), unfolded w(2,3,5) list.size]
  obtain ys where ys: "ad_written cn = json_string (w_env demo_world) (build_rooms_snapshot (sy_app demo_start)) # ys"
      "length ys + 0 = 1 - 0" "\<forall>y \<in> set ys. \<exists>v. has_type T_admin v \<and> y = json_string (w_env demo_world) v"
    using V by blast
  then obtain y where "ys = [y]" by (cases ys) auto
  then obtain v where "has_type T_admin v" "y = json_string (w_env demo_world) v" using ys(3) by auto
  then show ?thesis using w(1) ys(1) \<open>ys = [y]\<close> conjunct1 [OF V] by blast
qed

end
