(* ===== verification/Media.thy ===== *)
theory Media
  imports Participant
begin

text \<open>
  The routing table of the media module (\<open>src/media/router.rs\<close>, \<open>src/media/track.rs\<close>): from
  the SSRC of a stream to the context of its track. A context is shared, so the table holds
  references into a heap of contexts, and an update through one reference is seen through
  all others.
\<close>

section \<open>Track contexts\<close>

text \<open>The kinds of \<open>track.rs\<close> are a type of their own there; it is the one of the participants.\<close>

record track_context =
  tc_ssrc :: u32
  tc_participant :: string
  tc_room :: string
  tc_kind :: track_kind
  tc_remote_addr :: "sockaddr option"
  tc_last_seen :: u64

definition track_context_new :: "u32 \<Rightarrow> string \<Rightarrow> string \<Rightarrow> track_kind \<Rightarrow> track_context" where
  "track_context_new ssrc participant room kind =
     \<lparr>tc_ssrc = ssrc, tc_participant = participant, tc_room = room, tc_kind = kind, tc_remote_addr = None, tc_last_seen = 0\<rparr>"

definition track_touch :: "u64 \<Rightarrow> track_context \<Rightarrow> track_context" where
  "track_touch ts c = c\<lparr>tc_last_seen := ts\<rparr>"

section \<open>The router\<close>

type_synonym cref = nat

record router =
  by_ssrc :: "u32 \<Rightarrow> cref option"

definition router_new :: router where
  "router_new = \<lparr>by_ssrc = Map.empty\<rparr>"

definition router_register :: "u32 \<Rightarrow> cref \<Rightarrow> router \<Rightarrow> router" where
  "router_register ssrc c r = r\<lparr>by_ssrc := (by_ssrc r)(ssrc \<mapsto> c)\<rparr>"

definition router_unregister :: "u32 \<Rightarrow> router \<Rightarrow> router" where
  "router_unregister ssrc r = r\<lparr>by_ssrc := (by_ssrc r)(ssrc := None)\<rparr>"

definition router_lookup :: "router \<Rightarrow> u32 \<Rightarrow> cref option" where
  "router_lookup r ssrc = by_ssrc r ssrc"

text \<open>A touch through the reference that a lookup gave.\<close>

definition touch_context :: "cref \<Rightarrow> u64 \<Rightarrow> track_context list \<Rightarrow> track_context list" where
  "touch_context c ts cs = cs[c := track_touch ts (cs ! c)]"

section \<open>The table as a map\<close>

text \<open>What a client of a routing table relies on.\<close>

locale ssrc_table =
  fixes empty_table :: "'t"
    and register :: "u32 \<Rightarrow> 'v \<Rightarrow> 't \<Rightarrow> 't"
    and unregister :: "u32 \<Rightarrow> 't \<Rightarrow> 't"
    and find_track :: "'t \<Rightarrow> u32 \<Rightarrow> 'v option"
  assumes find_empty: "find_track empty_table s = None"
    and find_register: "find_track (register s v t) s' = (if s' = s then Some v else find_track t s')"
    and find_unregister: "find_track (unregister s t) s' = (if s' = s then None else find_track t s')"
begin

text \<open>An operation on the table: a registration with its value, or a removal.\<close>

fun table_op :: "u32 \<times> 'v option \<Rightarrow> 't \<Rightarrow> 't" where
  "table_op (s, Some v) t = register s v t"
| "table_op (s, None) t = unregister s t"

lemma find_op: "find_track (table_op x t) s = (if s = fst x then snd x else find_track t s)"
  by (cases x, cases "snd x") (simp_all add: find_register find_unregister)

text \<open>The last operation on an SSRC decides.\<close>

lemma find_run:
  "find_track (fold table_op xs t) s = (case map_of (rev xs) s of Some v \<Rightarrow> v | None \<Rightarrow> find_track t s)"
proof (induction xs arbitrary: t)
  case (Cons x xs)
  show ?case
    unfolding fold.simps o_apply Cons.IH
    by (cases x) (auto simp: find_op map_add_def split: option.split)
qed simp

end

interpretation rt: ssrc_table router_new router_register router_unregister router_lookup
  by unfold_locales (simp_all add: router_new_def router_register_def router_unregister_def router_lookup_def)

definition demo_contexts :: "track_context list" where
  "demo_contexts = [track_context_new 7 ''u'' ''r'' Audio, track_context_new 9 ''u'' ''r'' Video]"

text \<open>
  The routing table routes by the last registration. After any sequence of registrations and
  removals an SSRC leads to the context that was registered last for it, and nowhere when
  nothing was registered or a removal came after. A touch through the reference of a lookup
  is seen through every SSRC that leads to the same context, and through no other.
\<close>

theorem router_last_wins:
  "router_lookup (fold rt.table_op xs router_new) ssrc = (case map_of (rev xs) ssrc of Some v \<Rightarrow> v | None \<Rightarrow> None) \<and>
   (router_lookup r ssrc = Some c \<and> c < length cs \<longrightarrow>
      tc_last_seen (touch_context c ts cs ! c) = ts \<and>
      (\<forall>ssrc' c'. router_lookup r ssrc' = Some c' \<and> c' \<noteq> c \<longrightarrow> touch_context c ts cs ! c' = cs ! c') \<and>
      map (\<lambda>x. x\<lparr>tc_last_seen := 0\<rparr>) (touch_context c ts cs) = map (\<lambda>x. x\<lparr>tc_last_seen := 0\<rparr>) cs)"
proof (intro conjI impI)
  show "router_lookup (fold rt.table_op xs router_new) ssrc = (case map_of (rev xs) ssrc of Some v \<Rightarrow> v | None \<Rightarrow> None)"
    by (simp add: rt.find_run rt.find_empty split: option.split)
qed (auto simp: touch_context_def track_touch_def map_update intro!: list_update_same_conv [THEN iffD2])

theorem router_last_wins_witness:
  "router_lookup (fold rt.table_op [(7, Some 0), (9, Some 1), (7, None), (9, Some 0)] router_new) 9 = Some 0 \<and>
   tc_last_seen (touch_context 0 5 demo_contexts ! 0) = 5"
  using router_last_wins [of "[(7, Some 0), (9, Some 1), (7, None), (9, Some 0)]" 9 "router_register 9 0 router_new" 0 demo_contexts 5]
  by (simp add: router_lookup_def router_register_def demo_contexts_def)

end
