(* ===== verification/Runtime.thy ===== *)
theory Runtime
  imports Metrics Settings
begin

text \<open>
  The two descriptions that a metrics report carries besides the counters: the environment
  of the process (\<open>src/metrics/env.rs\<close>) and the deltas of the runtime's counters
  (\<open>src/metrics/tokio_snapshot.rs\<close>). What the runtime library reports is the record
  \<open>runtime_view\<close>, and the decimal text of a quotient is an argument.
\<close>

section \<open>The environment\<close>

record environment_meta =
  em_build_mode :: string
  em_log_level :: string
  em_worker_count :: nat
  em_bwe_mode :: string
  em_version :: string

definition capture_environment :: "bool \<Rightarrow> string \<Rightarrow> env_vars \<Rightarrow> nat \<Rightarrow> bwe_mode \<Rightarrow> environment_meta" where
  "capture_environment debug_assertions pkg_version vars worker_count mode =
     \<lparr>em_build_mode = (if debug_assertions then ''debug'' else ''release''),
      em_log_level = (case vars ''RUST_LOG'' of Some l \<Rightarrow> l
        | None \<Rightarrow> (case vars ''LOG_LEVEL'' of Some l \<Rightarrow> l | None \<Rightarrow> ''info'')),
      em_worker_count = worker_count, em_bwe_mode = show_bwe_mode mode, em_version = pkg_version\<rparr>"

definition environment_json :: "environment_meta \<Rightarrow> json" where
  "environment_json m =
     JObj [(''build_mode'', JStr (em_build_mode m)), (''log_level'', JStr (em_log_level m)),
       (''worker_count'', JNum (int (em_worker_count m))), (''bwe_mode'', JStr (em_bwe_mode m)),
       (''version'', JStr (em_version m))]"

section \<open>The runtime\<close>

text \<open>Durations are in nanoseconds.\<close>

record worker_counters =
  wc_busy :: nat
  wc_polls :: u64
  wc_steals :: u64
  wc_noops :: u64

record runtime_view =
  rv_workers :: "worker_counters list"
  rv_budget_yield :: u64
  rv_io_ready :: u64
  rv_alive_tasks :: nat
  rv_global_queue :: nat
  rv_blocking_threads :: nat

record tokio_snapshot =
  prev_busy :: "nat list"
  prev_poll_count :: "u64 list"
  prev_steal_count :: "u64 list"
  prev_noop_count :: "u64 list"
  prev_budget_yield :: u64
  prev_io_ready :: u64
  last_sampled :: nat

definition snapshot_new :: "nat \<Rightarrow> tokio_snapshot" where
  "snapshot_new now = \<lparr>prev_busy = [], prev_poll_count = [], prev_steal_count = [], prev_noop_count = [],
     prev_budget_yield = 0, prev_io_ready = 0, last_sampled = now\<rparr>"

definition as_micros_u64 :: "nat \<Rightarrow> u64" where
  "as_micros_u64 ns = of_nat (ns div 1000)"

text \<open>The JSON of one worker: its share of the elapsed microseconds and its deltas.\<close>

definition worker_json :: "(nat \<Rightarrow> nat \<Rightarrow> string) \<Rightarrow> nat \<Rightarrow> nat \<Rightarrow> u64 \<Rightarrow> u64 \<Rightarrow> u64 \<Rightarrow> json" where
  "worker_json ratio elapsed_us busy polls steals noops =
     JObj [(''busy_ratio'', JStr (ratio (busy div 1000) elapsed_us)), (''polls'', JNum (uint polls)),
       (''steals'', JNum (uint steals)), (''noops'', JNum (uint noops))]"

text \<open>
  The loop over the workers from the given index; \<open>None\<close> is the panic of an index out of
  range. The total is a sum of 64-bit numbers.
\<close>

fun sample_workers ::
  "(nat \<Rightarrow> nat \<Rightarrow> string) \<Rightarrow> nat \<Rightarrow> nat \<Rightarrow> worker_counters list \<Rightarrow> tokio_snapshot \<Rightarrow> (u64 \<times> json list \<times> tokio_snapshot) option" where
  "sample_workers ratio elapsed_us i [] sn = Some (0, [], sn)"
| "sample_workers ratio elapsed_us i (w # ws) sn = do {
     b \<leftarrow> idx (prev_busy sn) i;
     p \<leftarrow> idx (prev_poll_count sn) i;
     t \<leftarrow> idx (prev_steal_count sn) i;
     n \<leftarrow> idx (prev_noop_count sn) i;
     let j = worker_json ratio elapsed_us (wc_busy w - b) (sat_sub (wc_polls w) p) (sat_sub (wc_steals w) t) (sat_sub (wc_noops w) n);
     (total, js, sn') \<leftarrow> sample_workers ratio elapsed_us (Suc i) ws
       (sn\<lparr>prev_busy := (prev_busy sn)[i := wc_busy w], prev_poll_count := (prev_poll_count sn)[i := wc_polls w],
           prev_steal_count := (prev_steal_count sn)[i := wc_steals w], prev_noop_count := (prev_noop_count sn)[i := wc_noops w]\<rparr>);
     Some (as_micros_u64 (wc_busy w - b) + total, j # js, sn') }"

definition resize :: "nat \<Rightarrow> 'a \<Rightarrow> 'a list \<Rightarrow> 'a list" where
  "resize n x xs = take n xs @ replicate (n - length xs) x"

definition sample_runtime ::
  "(nat \<Rightarrow> nat \<Rightarrow> string) \<Rightarrow> nat \<Rightarrow> runtime_view \<Rightarrow> tokio_snapshot \<Rightarrow> (json \<times> tokio_snapshot) option" where
  "sample_runtime ratio now m sn = do {
     let elapsed_us = max ((now - last_sampled sn) div 1000) 1;
     let num_workers = length (rv_workers m);
     let sn = (if prev_busy sn = []
       then sn\<lparr>prev_busy := resize num_workers 0 (prev_busy sn), prev_poll_count := resize num_workers 0 (prev_poll_count sn),
              prev_steal_count := resize num_workers 0 (prev_steal_count sn), prev_noop_count := resize num_workers 0 (prev_noop_count sn)\<rparr>
       else sn);
     (total_busy_us, workers, sn) \<leftarrow> sample_workers ratio elapsed_us 0 (rv_workers m) sn;
     Some (JObj [(''busy_ratio'', JStr (ratio (unat total_busy_us) (elapsed_us * num_workers))),
         (''alive_tasks'', JNum (int (rv_alive_tasks m))), (''global_queue'', JNum (int (rv_global_queue m))),
         (''blocking_threads'', JNum (int (rv_blocking_threads m))),
         (''budget_yield'', JNum (uint (sat_sub (rv_budget_yield m) (prev_budget_yield sn)))),
         (''io_ready'', JNum (uint (sat_sub (rv_io_ready m) (prev_io_ready sn)))), (''workers'', JArr workers)],
       sn\<lparr>prev_budget_yield := rv_budget_yield m, prev_io_ready := rv_io_ready m, last_sampled := now\<rparr>) }"

section \<open>A sample reports the differences\<close>

text \<open>What a snapshot remembers: the counters of a view, or nothing yet.\<close>

definition remembers :: "tokio_snapshot \<Rightarrow> worker_counters list \<Rightarrow> bool" where
  "remembers sn ws \<longleftrightarrow> prev_busy sn = map wc_busy ws \<and> prev_poll_count sn = map wc_polls ws \<and>
     prev_steal_count sn = map wc_steals ws \<and> prev_noop_count sn = map wc_noops ws"

definition differences :: "(nat \<Rightarrow> nat \<Rightarrow> string) \<Rightarrow> nat \<Rightarrow> worker_counters list \<Rightarrow> worker_counters list \<Rightarrow> json list" where
  "differences ratio elapsed_us old new = map2 (\<lambda>v w. worker_json ratio elapsed_us (wc_busy w - wc_busy v)
     (sat_sub (wc_polls w) (wc_polls v)) (sat_sub (wc_steals w) (wc_steals v)) (sat_sub (wc_noops w) (wc_noops v))) old new"

definition total_busy :: "worker_counters list \<Rightarrow> worker_counters list \<Rightarrow> u64" where
  "total_busy old new = sum_list (map2 (\<lambda>v w. as_micros_u64 (wc_busy w - wc_busy v)) old new)"

lemma sample_workers_differences:
  assumes "length old = length new" and "remembers sn (done @ old)"
  shows "\<exists>sn'. sample_workers ratio elapsed_us (length done) new sn = Some (total_busy old new, differences ratio elapsed_us old new, sn') \<and>
    remembers sn' (done @ new) \<and> prev_budget_yield sn' = prev_budget_yield sn \<and> prev_io_ready sn' = prev_io_ready sn"
  using assms
proof (induction old new arbitrary: sn "done" rule: list_induct2)
  case (Cons v old w new)
  let ?i = "length done"
  let ?sn = "sn\<lparr>prev_busy := (prev_busy sn)[?i := wc_busy w], prev_poll_count := (prev_poll_count sn)[?i := wc_polls w],
      prev_steal_count := (prev_steal_count sn)[?i := wc_steals w], prev_noop_count := (prev_noop_count sn)[?i := wc_noops w]\<rparr>"
  have p: "idx (prev_busy sn) ?i = Some (wc_busy v)" "idx (prev_poll_count sn) ?i = Some (wc_polls v)"
    "idx (prev_steal_count sn) ?i = Some (wc_steals v)" "idx (prev_noop_count sn) ?i = Some (wc_noops v)"
    using Cons.prems by (simp_all add: remembers_def idx_def nth_append)
  have "remembers ?sn ((done @ [w]) @ old)"
    using Cons.prems by (simp add: remembers_def list_update_append)
  from Cons.IH [OF this] show ?case
    by (auto simp: p differences_def total_busy_def Let_def)
qed (simp add: differences_def total_busy_def)

text \<open>The first sample takes the view before it as all zero.\<close>

definition zero_counters :: worker_counters where
  "zero_counters = \<lparr>wc_busy = 0, wc_polls = 0, wc_steals = 0, wc_noops = 0\<rparr>"

lemma sample_runtime_differences:
  assumes "length old = length (rv_workers m)"
    and "remembers sn old \<or> (remembers sn [] \<and> old = replicate (length (rv_workers m)) zero_counters)"
  shows "\<exists>sn'. sample_runtime ratio now m sn =
      Some (JObj [(''busy_ratio'', JStr (ratio (unat (total_busy old (rv_workers m))) (max ((now - last_sampled sn) div 1000) 1 * length (rv_workers m)))),
         (''alive_tasks'', JNum (int (rv_alive_tasks m))), (''global_queue'', JNum (int (rv_global_queue m))),
         (''blocking_threads'', JNum (int (rv_blocking_threads m))),
         (''budget_yield'', JNum (uint (sat_sub (rv_budget_yield m) (prev_budget_yield sn)))),
         (''io_ready'', JNum (uint (sat_sub (rv_io_ready m) (prev_io_ready sn)))),
         (''workers'', JArr (differences ratio (max ((now - last_sampled sn) div 1000) 1) old (rv_workers m)))], sn') \<and>
    remembers sn' (rv_workers m) \<and> prev_budget_yield sn' = rv_budget_yield m \<and> prev_io_ready sn' = rv_io_ready m \<and>
    last_sampled sn' = now"
proof -
  let ?n = "length (rv_workers m)"
  define sn0 where "sn0 = (if prev_busy sn = []
       then sn\<lparr>prev_busy := resize ?n 0 (prev_busy sn), prev_poll_count := resize ?n 0 (prev_poll_count sn),
              prev_steal_count := resize ?n 0 (prev_steal_count sn), prev_noop_count := resize ?n 0 (prev_noop_count sn)\<rparr>
       else sn)"
  have "remembers sn0 ([] @ old)" and same: "prev_budget_yield sn0 = prev_budget_yield sn" "prev_io_ready sn0 = prev_io_ready sn"
    using assms by (auto simp: sn0_def remembers_def resize_def zero_counters_def)
  then show ?thesis
    using sample_workers_differences [OF assms(1), of sn0 "[]" ratio "max ((now - last_sampled sn) div 1000) 1"]
    by (auto simp: sample_runtime_def Let_def sn0_def [symmetric] same remembers_def)
qed

end
