(* ===== verification/Startup.thy ===== *)
theory Startup
  imports Server
begin

text \<open>
  What is decided once, when the process starts (\<open>src/lib.rs\<close>, \<open>src/transport/dtls.rs\<close>):
  which settings file is loaded, the settings, and the certificate whose fingerprint every
  join response announces. The file system, the network probe, the digest and the
  certificate generator are arguments.
\<close>

section \<open>The settings file\<close>

text \<open>The word after the first \<open>--env\<close>.\<close>

fun env_argument :: "string list \<Rightarrow> string option" where
  "env_argument [] = None"
| "env_argument (a # as) =
     (if a = ''--env'' then (case as of [] \<Rightarrow> None | path # _ \<Rightarrow> Some path) else env_argument as)"

definition path_join :: "string \<Rightarrow> string \<Rightarrow> string" where
  "path_join dir name = (if dir = [] \<or> last dir = CHR ''/'' then dir @ name else dir @ ''/'' @ name)"

datatype env_source = FromArgument string | FromCwd | FromExecutable string | NoEnvFile

text \<open>
  \<open>from_path\<close> says whether a file can be loaded, \<open>dotenv\<close> whether one was found from the
  current directory, \<open>exe_dir\<close> is the directory of the executable.
\<close>

definition load_env_file :: "string list \<Rightarrow> (string \<Rightarrow> bool) \<Rightarrow> bool \<Rightarrow> string option \<Rightarrow> (string \<Rightarrow> bool) \<Rightarrow> env_source" where
  "load_env_file args from_path dotenv exe_dir is_file =
     (let others =
        (if dotenv then FromCwd
         else (case exe_dir of
             None \<Rightarrow> NoEnvFile
           | Some dir \<Rightarrow>
               let env_path = path_join dir ''.env''
               in if is_file env_path then (if from_path env_path then FromExecutable env_path else NoEnvFile) else NoEnvFile))
      in case env_argument args of
           None \<Rightarrow> others
         | Some path \<Rightarrow> if from_path path then FromArgument path else others)"

section \<open>The settings\<close>

definition detect_local_ip :: "string option \<Rightarrow> string" where
  "detect_local_ip probe = (case probe of Some ip \<Rightarrow> ip | None \<Rightarrow> ''127.0.0.1'')"

record settings =
  se_ws_port :: nat
  se_udp_port :: nat
  se_udp_workers :: nat
  se_public_ip :: string
  se_bwe_mode :: bwe_mode
  se_remb_bitrate :: nat
  se_log_dir :: "string option"
  se_log_level :: string

definition read_settings :: "env_vars \<Rightarrow> string option \<Rightarrow> (string \<Rightarrow> bool) \<Rightarrow> settings" where
  "read_settings vars probe is_dir =
     \<lparr>se_ws_port = env_or (parse_nat (2 ^ 16)) vars ''WS_PORT'' WS_PORT,
      se_udp_port = env_or (parse_nat (2 ^ 16)) vars ''UDP_PORT'' UDP_PORT,
      se_udp_workers = env_or (parse_nat (2 ^ 64)) vars ''UDP_WORKER_COUNT'' UDP_WORKER_COUNT,
      se_public_ip = (case vars ''PUBLIC_IP'' of Some ip \<Rightarrow> ip | None \<Rightarrow> detect_local_ip probe),
      se_bwe_mode = resolve_bwe_mode vars,
      se_remb_bitrate = resolve_remb_bitrate vars,
      se_log_dir = (case vars ''LOG_DIR'' of Some dir \<Rightarrow> if dir \<noteq> [] \<and> is_dir dir then Some dir else None | None \<Rightarrow> None),
      se_log_level = (case vars ''LOG_LEVEL'' of Some l \<Rightarrow> l | None \<Rightarrow> ''info'')\<rparr>"

text \<open>How many workers run: the configured number, or that of the processors.\<close>

definition worker_count_of :: "settings \<Rightarrow> nat option \<Rightarrow> nat" where
  "worker_count_of se parallelism = resolve_worker_count (se_udp_workers se) parallelism"

lemma parse_nat_less: "parse_nat bound s = Some n \<Longrightarrow> n < bound"
  unfolding parse_nat_def Let_def by (auto simp: bind_eq_Some_conv simp del: parse_digits.simps split: if_split_asm)

lemma env_or_less: "fallback < bound \<Longrightarrow> env_or (parse_nat bound) vars key fallback < bound"
  unfolding env_or_def by (auto simp: bind_eq_Some_conv split: option.split dest: parse_nat_less)

lemma settings_bounds:
  "se_ws_port (read_settings vars probe is_dir) < 2 ^ 16" "se_udp_port (read_settings vars probe is_dir) < 2 ^ 16"
  unfolding read_settings_def settings.simps by (intro env_or_less; simp add: WS_PORT_def UDP_PORT_def)+

section \<open>The certificate\<close>

definition hex2 :: "u8 \<Rightarrow> string" where
  "hex2 b = [digit_char (unat b div 16), digit_char (unat b mod 16)]"

fun join_colon :: "string list \<Rightarrow> string" where
  "join_colon [] = []"
| "join_colon [x] = x"
| "join_colon (x # y # xs) = x @ CHR '':'' # join_colon (y # xs)"

definition sha256_fingerprint :: "(bytes \<Rightarrow> bytes) \<Rightarrow> bytes \<Rightarrow> string" where
  "sha256_fingerprint sha256 der = ''sha-256 '' @ join_colon (map hex2 (sha256 der))"

record server_cert =
  cert_chain :: "bytes list"
  fingerprint :: string

definition server_cert_generate :: "(string list \<Rightarrow> string + bytes list) \<Rightarrow> (bytes \<Rightarrow> bytes) \<Rightarrow> string + server_cert" where
  "server_cert_generate self_signed sha256 =
     (case self_signed [''light-livechat''] of
        Inl err \<Rightarrow> Inl err
      | Inr chain \<Rightarrow> Inr \<lparr>cert_chain = chain,
          fingerprint = sha256_fingerprint sha256 (case chain of der # _ \<Rightarrow> der | [] \<Rightarrow> [])\<rparr>)"

text \<open>What a peer reads from a fingerprint: two digits of every three characters.\<close>

definition hex_value :: "char \<Rightarrow> nat" where
  "hex_value c = (if of_char c < (58 :: nat) then of_char c - 48 else of_char c - 55)"

fun read_hex :: "string \<Rightarrow> bytes" where
  "read_hex (a # b # c # rest) = of_nat (16 * hex_value a + hex_value b) # read_hex rest"
| "read_hex [a, b] = [of_nat (16 * hex_value a + hex_value b)]"
| "read_hex _ = []"

lemma hex_value_digit [simp]: "n < 16 \<Longrightarrow> hex_value (digit_char n) = n"
  by (simp add: hex_value_def digit_char_def)

lemma hex2_value [simp]:
  "of_nat (16 * hex_value (digit_char (unat b div 16)) + hex_value (digit_char (unat b mod 16))) = (b :: u8)"
proof -
  have "unat b < 256" using unsigned_less [of b] by simp
  then have "unat b div 16 < 16" by (simp add: less_mult_imp_div_less)
  then have e: "16 * hex_value (digit_char (unat b div 16)) + hex_value (digit_char (unat b mod 16)) = unat b"
    by simp
  show ?thesis unfolding e by simp
qed

lemma read_hex_join: "read_hex (join_colon (map hex2 bs)) = bs"
proof (induction bs rule: induct_list012)
  case (2 b)
  then show ?case using hex2_value [of b] by (simp add: hex2_def del: hex2_value)
next
  case (3 a b bs)
  then show ?case using hex2_value [of a] by (simp add: hex2_def del: hex2_value)
qed simp

lemma length_join_hex: "length (join_colon (map hex2 bs)) = 3 * length bs - 1"
  by (induction bs rule: induct_list012) (simp_all add: hex2_def)

text \<open>
  The announced fingerprint identifies the certificate as well as its digest does: it is the
  digest in 95 characters after the name of the algorithm, and reading them gives it back.
\<close>

theorem fingerprint_roundtrip:
  assumes "self_signed [''light-livechat''] = Inr (der # chain)" and "length (sha256 der) = 32"
  shows "\<exists>c. server_cert_generate self_signed sha256 = Inr c \<and> cert_chain c = der # chain \<and>
    take 8 (fingerprint c) = ''sha-256 '' \<and> length (fingerprint c) = 103 \<and> read_hex (drop 8 (fingerprint c)) = sha256 der"
  using assms by (simp add: server_cert_generate_def sha256_fingerprint_def read_hex_join length_join_hex)

theorem fingerprint_roundtrip_witness:
  "\<exists>c. server_cert_generate (\<lambda>_. Inr [[7]]) (\<lambda>_. replicate 31 0 @ [255]) = Inr c \<and> length (fingerprint c) = 103"
  using fingerprint_roundtrip [of "\<lambda>_. Inr [[7]]" "[7]" "[]" "\<lambda>_. replicate 31 0 @ [255]"] by auto

end
