(* ===== verification/Boot.thy ===== *)
theory Boot
  imports Startup System
begin

text \<open>
  The start of the process (\<open>run_server\<close> in \<open>src/lib.rs\<close>): settings, certificate, sockets,
  default rooms and workers, in this order, up to the moment when all tasks run. What the
  host decides is the record \<open>host\<close>; the first failure ends the process.
\<close>

record host =
  h_args :: "string list"
  h_from_path :: "string \<Rightarrow> bool"
  h_dotenv :: bool
  h_exe_dir :: "string option"
  h_is_file :: "string \<Rightarrow> bool"
  h_env :: "env_source \<Rightarrow> env_vars"
  h_probe :: "string option"
  h_is_dir :: "string \<Rightarrow> bool"
  h_self_signed :: "string list \<Rightarrow> string + bytes list"
  h_sha256 :: "bytes \<Rightarrow> bytes"
  h_linux :: bool
  h_parallelism :: "nat option"
  h_bind :: "nat \<Rightarrow> nat \<Rightarrow> bool"
  h_listen :: "nat \<Rightarrow> bool"
  h_now :: u64
  h_seeds :: "(string \<times> u32 \<times> u32) list"

text \<open>
  \<open>h_env\<close> is the environment after the settings file was loaded, \<open>h_bind i port\<close> whether
  the socket of worker \<open>i\<close> can be bound, \<open>h_listen port\<close> whether the signaling port can.
\<close>

datatype boot_error = CertFailed string | BindFailed nat | ListenFailed

definition host_env :: "host \<Rightarrow> env_vars" where
  "host_env h = h_env h (load_env_file (h_args h) (h_from_path h) (h_dotenv h) (h_exe_dir h) (h_is_file h))"

definition host_settings :: "host \<Rightarrow> settings" where
  "host_settings h = read_settings (host_env h) (h_probe h) (h_is_dir h)"

definition host_workers :: "host \<Rightarrow> nat" where
  "host_workers h = (if h_linux h then worker_count_of (host_settings h) (h_parallelism h) else 1)"

definition run_server :: "host \<Rightarrow> boot_error + server \<times> 'c sys" where
  "run_server h =
     (let se = host_settings h; worker_count = host_workers h
      in case server_cert_generate (h_self_signed h) (h_sha256 h) of
           Inl err \<Rightarrow> Inl (CertFailed err)
         | Inr cert \<Rightarrow>
             (case find (\<lambda>i. \<not> h_bind h i (se_udp_port se)) (0 # [1..<worker_count]) of
                Some i \<Rightarrow> Inl (BindFailed i)
              | None \<Rightarrow>
                  if \<not> h_listen h (se_ws_port se) then Inl ListenFailed
                  else Inr (\<lparr>sv_public_ip = se_public_ip se, sv_udp_port = se_udp_port se, sv_fingerprint = fingerprint cert,
                              sv_bwe_mode = se_bwe_mode se, sv_vars = host_env h\<rparr>,
                            system_start (h_now h) (h_seeds h) worker_count (se_bwe_mode se) (of_nat (se_remb_bitrate se)))))"

section \<open>Workers and sockets\<close>

lemma workers_numbered: "0 # [1..<n] = [0..<max 1 n]"
  by (cases n) (simp_all add: upt_conv_Cons)

lemma started_worker:
  assumes "i < max 1 n"
  shows "start_workers n mode bitrate ! i = worker_new (of_nat i) mode bitrate"
proof -
  have "start_workers n mode bitrate = map (\<lambda>i. worker_new (of_nat i) mode bitrate) (0 # [1..<n])"
    by (simp add: start_workers_def)
  then show ?thesis unfolding workers_numbered using assms by simp
qed

lemma length_start_workers: "length (start_workers n mode bitrate) = max 1 n"
  by (cases n) (simp_all add: start_workers_def)

lemma primary_index: "is_primary (worker_new (of_nat i) mode bitrate) \<longleftrightarrow> i mod 256 = 0"
  by (simp add: is_primary_def worker_new_def word_of_nat_eq_0_iff dvd_eq_mod_eq_0)

lemma worker_fields: "w_bwe_mode (worker_new n mode bitrate) = mode" "w_remb_bitrate (worker_new n mode bitrate) = bitrate"
  by (simp_all add: worker_new_def)

lemma find_upt: "find P [0..<n] = Some i \<longleftrightarrow> i < n \<and> P i \<and> (\<forall>j < i. \<not> P j)"
  by (auto simp: find_Some_iff)

lemma run_server_start:
  "run_server h = Inr (sv, \<sigma>) \<Longrightarrow> reachable W \<sigma>"
  by (auto simp: run_server_def Let_def intro: start split: sum.split_asm option.split_asm if_split_asm)

text \<open>A number of the environment, or the default when it is missing, unreadable or too large.\<close>

definition number_of :: "env_vars \<Rightarrow> string \<Rightarrow> nat \<Rightarrow> nat \<Rightarrow> nat" where
  "number_of vars key bound fallback =
     (case vars key of
        None \<Rightarrow> fallback
      | Some v \<Rightarrow> (case parse_nat bound v of None \<Rightarrow> fallback | Some n \<Rightarrow> n))"

text \<open>The documented number of workers: the configured one, that of the processors, or one.\<close>

definition intended_workers :: "host \<Rightarrow> nat" where
  "intended_workers h =
     (if \<not> h_linux h then 1
      else if 0 < number_of (host_env h) ''UDP_WORKER_COUNT'' (2 ^ 64) 0
        then number_of (host_env h) ''UDP_WORKER_COUNT'' (2 ^ 64) 0
      else max 1 (case h_parallelism h of Some n \<Rightarrow> n | None \<Rightarrow> 1))"

lemma host_ports:
  "se_udp_port (host_settings h) = number_of (host_env h) ''UDP_PORT'' (2 ^ 16) 19740"
  "se_ws_port (host_settings h) = number_of (host_env h) ''WS_PORT'' (2 ^ 16) 1974"
  by (simp_all add: host_settings_def read_settings_def env_or_def number_of_def UDP_PORT_def WS_PORT_def split: option.split)

lemma host_workers_intended: "max 1 (host_workers h) = intended_workers h"
  by (auto simp: host_workers_def worker_count_of_def resolve_worker_count_def intended_workers_def host_settings_def
      read_settings_def env_or_def number_of_def UDP_WORKER_COUNT_def max_def split: option.split)

text \<open>
  C33: what starting the server leads to. The steps come in the order certificate, UDP
  sockets by number, signaling port, and the first failure is the one that is reported: a
  socket or port can only be at fault once the certificate exists. Otherwise the announced
  address is the configured one, else that of the network probe, else the loopback
  address; port, fingerprint and mode are those of the environment and the certificate,
  and the tasks begin in a start state of the system, to which every theorem about
  reachable states applies: one worker per socket, all with the configured mode and
  bitrate. A worker runs the timers when its number is divisible by 256: the number is
  kept in a byte, so of more than 256 workers several do.
\<close>

theorem boot_spec:
  "case run_server h :: boot_error + server \<times> 'c sys of
     Inl (CertFailed err) \<Rightarrow> h_self_signed h [''light-livechat''] = Inl err
   | Inl (BindFailed i) \<Rightarrow>
       (\<exists>chain. h_self_signed h [''light-livechat''] = Inr chain) \<and> i < intended_workers h \<and>
       \<not> h_bind h i (number_of (host_env h) ''UDP_PORT'' (2 ^ 16) 19740) \<and>
       (\<forall>j < i. h_bind h j (number_of (host_env h) ''UDP_PORT'' (2 ^ 16) 19740))
   | Inl ListenFailed \<Rightarrow>
       (\<exists>chain. h_self_signed h [''light-livechat''] = Inr chain) \<and>
       (\<forall>i < intended_workers h. h_bind h i (number_of (host_env h) ''UDP_PORT'' (2 ^ 16) 19740)) \<and>
       \<not> h_listen h (number_of (host_env h) ''WS_PORT'' (2 ^ 16) 1974)
   | Inr (sv, \<sigma>) \<Rightarrow>
       sv_public_ip sv = (case host_env h ''PUBLIC_IP'' of Some ip \<Rightarrow> ip
         | None \<Rightarrow> (case h_probe h of Some ip \<Rightarrow> ip | None \<Rightarrow> ''127.0.0.1'')) \<and>
       sv_udp_port sv = number_of (host_env h) ''UDP_PORT'' (2 ^ 16) 19740 \<and> sv_udp_port sv < 2 ^ 16 \<and>
       sv_bwe_mode sv = resolve_bwe_mode (host_env h) \<and> sv_vars sv = host_env h \<and>
       (\<exists>chain. h_self_signed h [''light-livechat''] = Inr chain \<and>
          sv_fingerprint sv = sha256_fingerprint (h_sha256 h) (case chain of der # _ \<Rightarrow> der | [] \<Rightarrow> [])) \<and>
       h_listen h (number_of (host_env h) ''WS_PORT'' (2 ^ 16) 1974) \<and>
       (\<forall>W. reachable W \<sigma>) \<and> length (sy_workers \<sigma>) = intended_workers h \<and>
       (\<forall>i < intended_workers h. h_bind h i (sv_udp_port sv) \<and>
          (\<exists>w. sy_workers \<sigma> ! i = Some w \<and> w_bwe_mode w = sv_bwe_mode sv \<and>
             unat (w_remb_bitrate w) = resolve_remb_bitrate (host_env h) mod 2 ^ 64 \<and> (is_primary w \<longleftrightarrow> i mod 256 = 0)))"
proof (cases "run_server h :: boot_error + server \<times> 'c sys")
  case (Inl e)
  then show ?thesis
    unfolding run_server_def workers_numbered host_workers_intended [symmetric]
    by (cases e)
      (auto simp: server_cert_generate_def Let_def find_upt find_None_iff host_ports
        split: sum.split_asm option.split_asm if_split_asm)
next
  case (Inr r)
  obtain sv \<sigma> where r: "r = (sv, \<sigma>)" by (cases r)
  obtain chain where c: "h_self_signed h [''light-livechat''] = Inr chain"
      "sv_fingerprint sv = sha256_fingerprint (h_sha256 h) (case chain of der # _ \<Rightarrow> der | [] \<Rightarrow> [])"
    using Inr r by (auto simp: run_server_def server_cert_generate_def Let_def split: sum.split_asm option.split_asm if_split_asm)
  have s: "\<sigma> = system_start (h_now h) (h_seeds h) (host_workers h) (sv_bwe_mode sv) (of_nat (se_remb_bitrate (host_settings h)))"
      "sv_udp_port sv = se_udp_port (host_settings h)" "sv_bwe_mode sv = se_bwe_mode (host_settings h)"
      "sv_public_ip sv = se_public_ip (host_settings h)" "sv_vars sv = host_env h" "h_listen h (se_ws_port (host_settings h))"
      "\<forall>i < max 1 (host_workers h). h_bind h i (sv_udp_port sv)"
    using Inr r unfolding run_server_def workers_numbered
    by (auto simp: Let_def find_None_iff split: sum.split_asm option.split_asm if_split_asm)
  have b: "sv_udp_port sv < 2 ^ 16" unfolding s(2) host_settings_def by (rule settings_bounds)
  have w: "length (sy_workers \<sigma>) = intended_workers h"
    by (simp add: s(1) system_start_def length_start_workers flip: host_workers_intended)
  have f: "sv_bwe_mode sv = resolve_bwe_mode (host_env h)" "sv_public_ip sv = (case host_env h ''PUBLIC_IP'' of Some ip \<Rightarrow> ip
         | None \<Rightarrow> (case h_probe h of Some ip \<Rightarrow> ip | None \<Rightarrow> ''127.0.0.1''))"
    by (simp_all add: s host_settings_def read_settings_def detect_local_ip_def split: option.split)
  have "\<exists>w. sy_workers \<sigma> ! i = Some w \<and> w_bwe_mode w = sv_bwe_mode sv \<and>
      unat (w_remb_bitrate w) = resolve_remb_bitrate (host_env h) mod 2 ^ 64 \<and> (is_primary w \<longleftrightarrow> i mod 256 = 0)"
    if "i < intended_workers h" for i
    using that unfolding host_workers_intended [symmetric]
    by (simp add: s(1) system_start_def length_start_workers started_worker primary_index worker_fields unat_of_nat
        host_settings_def read_settings_def)
  moreover have "reachable W \<sigma>" for W using Inr run_server_start by (simp add: r)
  ultimately show ?thesis
    using c s(2,5-7) b w f unfolding host_workers_intended Inr r host_ports by simp
qed

text \<open>A host on which everything succeeds and 300 workers are configured.\<close>

definition demo_host :: host where
  "demo_host = \<lparr>h_args = [''livechatd''], h_from_path = (\<lambda>_. False), h_dotenv = True, h_exe_dir = None, h_is_file = (\<lambda>_. False),
     h_env = (\<lambda>_ k. if k = ''UDP_WORKER_COUNT'' then Some ''300'' else None), h_probe = None, h_is_dir = (\<lambda>_. False),
     h_self_signed = (\<lambda>_. Inr [[1, 2]]), h_sha256 = (\<lambda>_. replicate 32 7), h_linux = True, h_parallelism = Some 4,
     h_bind = (\<lambda>_ _. True), h_listen = (\<lambda>_. True), h_now = 5, h_seeds = [(''a'', 1, 2), (''b'', 3, 4), (''c'', 5, 6)]\<rparr>"

lemma demo_host_workers: "intended_workers demo_host = 300"
  by (simp add: host_workers_def worker_count_of_def host_settings_def host_env_def read_settings_def demo_host_def
      env_or_def parse_nat_def resolve_worker_count_def flip: host_workers_intended)

lemma demo_host_runs: "\<exists>sv \<sigma>. run_server demo_host = Inr (sv, \<sigma>)"
  unfolding run_server_def workers_numbered
  by (simp add: Let_def demo_host_def server_cert_generate_def find_None_iff split: option.split)

theorem boot_spec_witness:
  "\<exists>sv \<sigma> v w. run_server demo_host = Inr (sv, \<sigma> :: nat sys) \<and> sv_public_ip sv = ''127.0.0.1'' \<and> sv_udp_port sv = 19740 \<and>
     sy_workers \<sigma> ! 0 = Some v \<and> is_primary v \<and> sy_workers \<sigma> ! 256 = Some w \<and> is_primary w"
proof -
  obtain sv and \<sigma> :: "nat sys" where r: "run_server demo_host = Inr (sv, \<sigma>)" using demo_host_runs by blast
  note B = boot_spec [of demo_host, where 'c = nat, unfolded r demo_host_workers sum.case prod.case]
  have "host_env demo_host ''PUBLIC_IP'' = None" "host_env demo_host ''UDP_PORT'' = None" "h_probe demo_host = None"
    by (simp_all add: host_env_def demo_host_def)
  then have ip: "sv_public_ip sv = ''127.0.0.1''" "sv_udp_port sv = 19740"
    using conjunct1 [OF B] conjunct1 [OF conjunct2 [OF B]] by (simp_all add: number_of_def)
  have p: "\<exists>w. sy_workers \<sigma> ! i = Some w \<and> (is_primary w \<longleftrightarrow> i mod 256 = 0)" if "i < 300" for i
  proof -
    have "\<exists>w. sy_workers \<sigma> ! i = Some w \<and> w_bwe_mode w = sv_bwe_mode sv \<and>
        unat (w_remb_bitrate w) = resolve_remb_bitrate (host_env demo_host) mod 2 ^ 64 \<and> (is_primary w \<longleftrightarrow> i mod 256 = 0)"
      using B that by (elim conjE allE [of _ i] impE) assumption+
    then show ?thesis by (elim exE conjE) (intro exI conjI)
  qed
  obtain v where v: "sy_workers \<sigma> ! 0 = Some v" "is_primary v" using p [of 0] by auto
  obtain w where w: "sy_workers \<sigma> ! 256 = Some w" "is_primary w" using p [of 256] by auto
  show ?thesis using r ip v w by (intro exI conjI)
qed

end
