(* ===== verification/Shutdown.thy ===== *)
theory Shutdown
  imports Boot Halls
begin

text \<open>
  The life of the process (\<open>main\<close> in \<open>src/main.rs\<close>, \<open>run_server\<close> in \<open>src/lib.rs\<close>): after
  the start all tasks run until ctrl-c; then the token is cancelled, on which the floor timer
  and the reaper return; after a delay the signaling server is told to close, it accepts
  nobody from then on, and when it has returned the process ends. Instants are milliseconds.
\<close>

section \<open>Stages\<close>

definition SHUTDOWN_DRAIN_MS :: nat where [config_defs]: "SHUTDOWN_DRAIN_MS = 3000"

text \<open>The instant of the signal, and the instant at which the delay was over.\<close>

datatype stage = Serving | Draining nat | Closing nat nat | Exited nat nat

record 'c process =
  ps_sys :: "'c sys"
  ps_stage :: stage
  ps_floor_timer :: bool
  ps_reaper :: bool

definition process_start :: "'c sys \<Rightarrow> 'c process" where
  "process_start \<sigma> = \<lparr>ps_sys = \<sigma>, ps_stage = Serving, ps_floor_timer = True, ps_reaper = True\<rparr>"

text \<open>The signal cancels the token.\<close>

definition cancelled :: "'c process \<Rightarrow> bool" where
  "cancelled \<pi> \<longleftrightarrow> ps_stage \<pi> \<noteq> Serving"

fun exited :: "stage \<Rightarrow> bool" where
  "exited (Exited t t') = True"
| "exited _ = False"

fun accepting :: "stage \<Rightarrow> bool" where
  "accepting Serving = True"
| "accepting (Draining t) = True"
| "accepting _ = False"

text \<open>Only the two timer tasks listen to the token, and only the acceptor to the server's end.\<close>

fun may_run :: "'c process \<Rightarrow> task \<Rightarrow> bool" where
  "may_run \<pi> FloorTimer = ps_floor_timer \<pi>"
| "may_run \<pi> ZombieReaper = ps_reaper \<pi>"
| "may_run \<pi> Acceptor = accepting (ps_stage \<pi>)"
| "may_run \<pi> _ = True"

text \<open>
  A timer task that is due when the token is cancelled may take its turn first: the choice
  between two ready branches is not determined.
\<close>

inductive process_step :: "'c world \<Rightarrow> 'c process \<Rightarrow> 'c process \<Rightarrow> bool" for W :: "'c world" where
  turn: "\<not> exited (ps_stage \<pi>) \<Longrightarrow> may_run \<pi> \<tau> \<Longrightarrow> task_step W \<tau> (ps_sys \<pi>) \<sigma>' \<Longrightarrow>
     process_step W \<pi> (\<pi>\<lparr>ps_sys := \<sigma>'\<rparr>)"
| ctrl_c: "ps_stage \<pi> = Serving \<Longrightarrow> process_step W \<pi> (\<pi>\<lparr>ps_stage := Draining t\<rparr>)"
| floor_timer_stops: "\<not> exited (ps_stage \<pi>) \<Longrightarrow> cancelled \<pi> \<Longrightarrow> process_step W \<pi> (\<pi>\<lparr>ps_floor_timer := False\<rparr>)"
| reaper_stops: "\<not> exited (ps_stage \<pi>) \<Longrightarrow> cancelled \<pi> \<Longrightarrow> process_step W \<pi> (\<pi>\<lparr>ps_reaper := False\<rparr>)"
| drained: "ps_stage \<pi> = Draining t \<Longrightarrow> t + SHUTDOWN_DRAIN_MS \<le> now \<Longrightarrow>
     process_step W \<pi> (\<pi>\<lparr>ps_stage := Closing t now\<rparr>)"
| served: "ps_stage \<pi> = Closing t t' \<Longrightarrow> process_step W \<pi> (\<pi>\<lparr>ps_stage := Exited t t'\<rparr>)"

inductive process_reachable :: "host \<Rightarrow> 'c world \<Rightarrow> 'c process \<Rightarrow> bool" for h :: host and W :: "'c world" where
  boots: "run_server h = Inr (w_server W, \<sigma>) \<Longrightarrow> process_reachable h W (process_start \<sigma>)"
| steps: "process_reachable h W \<pi> \<Longrightarrow> process_step W \<pi> \<pi>' \<Longrightarrow> process_reachable h W \<pi>'"

text \<open>What the process returns to its parent.\<close>

definition exit_code :: "boot_error + 'a \<Rightarrow> nat" where
  "exit_code outcome = (case outcome of Inl err \<Rightarrow> 1 | Inr x \<Rightarrow> 0)"

section \<open>The invariant of the process\<close>

fun stage_ok :: "stage \<Rightarrow> bool \<Rightarrow> bool" where
  "stage_ok Serving timers = timers"
| "stage_ok (Draining t) timers = True"
| "stage_ok (Closing t t') timers = (t + SHUTDOWN_DRAIN_MS \<le> t')"
| "stage_ok (Exited t t') timers = (t + SHUTDOWN_DRAIN_MS \<le> t')"

definition process_ok :: "'c world \<Rightarrow> 'c process \<Rightarrow> bool" where
  "process_ok W \<pi> \<longleftrightarrow> reachable W (ps_sys \<pi>) \<and> stage_ok (ps_stage \<pi>) (ps_floor_timer \<pi> \<and> ps_reaper \<pi>)"

lemma process_step_ok: "process_step W \<pi> \<pi>' \<Longrightarrow> process_ok W \<pi> \<Longrightarrow> process_ok W \<pi>'"
proof (induction rule: process_step.induct)
  case (turn \<pi> \<tau> \<sigma>')
  then have "reachable W \<sigma>'" using step [OF _ sys_stepI] by (auto simp: process_ok_def)
  then show ?case using turn by (simp add: process_ok_def)
next
  case (floor_timer_stops \<pi>)
  then show ?case by (cases "ps_stage \<pi>") (simp_all add: process_ok_def cancelled_def)
next
  case (reaper_stops \<pi>)
  then show ?case by (cases "ps_stage \<pi>") (simp_all add: process_ok_def cancelled_def)
qed (simp_all add: process_ok_def)

lemma process_reachable_ok: "process_reachable h W \<pi> \<Longrightarrow> process_ok W \<pi>"
proof (induction rule: process_reachable.induct)
  case (boots \<sigma>)
  then show ?case using run_server_start by (auto simp: process_ok_def process_start_def)
qed (rule process_step_ok)

inductive_cases process_stepE: "process_step W \<pi> \<pi>'"

text \<open>A step of the process is a turn of a task that may run, or leaves the system as it is.\<close>

lemma process_step_turn:
  assumes "process_step W \<pi> \<pi>'"
  shows "ps_sys \<pi>' = ps_sys \<pi> \<or>
    (\<exists>\<tau>. \<not> exited (ps_stage \<pi>) \<and> may_run \<pi> \<tau> \<and> task_step W \<tau> (ps_sys \<pi>) (ps_sys \<pi>'))"
  using assms by (cases rule: process_step.cases) auto

lemma exited_stays: "ps_stage \<pi> = Exited t t' \<Longrightarrow> \<not> process_step W \<pi> \<pi>'"
  by (auto elim!: process_stepE simp: cancelled_def)

text \<open>The exit is the end of the closing.\<close>

lemma exit_after_closing:
  assumes "process_step W \<pi> \<pi>'" and "ps_stage \<pi>' = Exited t t'"
  shows "ps_stage \<pi> = Closing t t'"
  using assms by (cases rule: process_step.cases) auto

text \<open>A change that only a timer task could make otherwise needs the turn of a client.\<close>

lemma process_step_client:
  assumes r: "reachable W (ps_sys \<pi>)" and st: "process_step W \<pi> \<pi>'"
  defines "H \<equiv> halls_of (sy_app (ps_sys \<pi>))" and "H' \<equiv> halls_of (sy_app (ps_sys \<pi>'))"
  shows "\<not> ps_floor_timer \<pi> \<Longrightarrow> speaks_in H rid u \<Longrightarrow> \<not> speaks_in H' rid u \<Longrightarrow>
      \<exists>c v. acts W (ps_sys \<pi>) (ps_sys \<pi>') (Client c v) \<and> (v = u \<or> c = Some ROOM_CREATE)"
    and "\<not> ps_reaper \<pi> \<Longrightarrow> in_hall H rid u \<Longrightarrow> \<not> in_hall H' rid u \<Longrightarrow>
      \<exists>c v. acts W (ps_sys \<pi>) (ps_sys \<pi>') (Client c v) \<and> (v = u \<or> c = Some ROOM_CREATE)"
proof -
  note T = process_step_turn [OF st] and A = task_authority [OF r, of _ "ps_sys \<pi>'" rid u, folded H_def H'_def]
  show "\<exists>c v. acts W (ps_sys \<pi>) (ps_sys \<pi>') (Client c v) \<and> (v = u \<or> c = Some ROOM_CREATE)"
    if off: "\<not> ps_floor_timer \<pi>" and "speaks_in H rid u" "\<not> speaks_in H' rid u"
  proof -
    have "ps_sys \<pi>' \<noteq> ps_sys \<pi>" using that(2,3) by (auto simp: H_def H'_def)
    then obtain \<tau> where "may_run \<pi> \<tau>" "task_step W \<tau> (ps_sys \<pi>) (ps_sys \<pi>')" using T by blast
    moreover from this off have "\<tau> \<noteq> FloorTimer" by auto
    ultimately show ?thesis using A(3) that(2,3) by blast
  qed
  show "\<exists>c v. acts W (ps_sys \<pi>) (ps_sys \<pi>') (Client c v) \<and> (v = u \<or> c = Some ROOM_CREATE)"
    if off: "\<not> ps_reaper \<pi>" and "in_hall H rid u" "\<not> in_hall H' rid u"
  proof -
    have "ps_sys \<pi>' \<noteq> ps_sys \<pi>" using that(2,3) by (auto simp: H_def H'_def)
    then obtain \<tau> where "may_run \<pi> \<tau>" "task_step W \<tau> (ps_sys \<pi>) (ps_sys \<pi>')" using T by blast
    moreover from this off have "\<tau> \<noteq> ZombieReaper" by auto
    ultimately show ?thesis using A(2) that(2,3) by blast
  qed
qed

lemma draining_accepts:
  assumes "ps_stage \<pi> = Draining t"
  shows "\<exists>\<pi>''. process_step W \<pi> \<pi>'' \<and> length (sy_conns (ps_sys \<pi>'')) = Suc (length (sy_conns (ps_sys \<pi>)))"
proof -
  obtain cn s' where "connection_open (w_env W) True (length (sy_conns (ps_sys \<pi>))) 0 (sy_app (ps_sys \<pi>)) = (cn, s')"
    by fastforce
  then show ?thesis using turn [of \<pi> Acceptor W, OF _ _ connected] assms by fastforce
qed

text \<open>
  C7: the end of the process. At every moment up to the exit the shared state is a reachable
  state of the system, so every theorem about these states holds through the shutdown as well.
  A process that closes or has exited does so no earlier than three seconds after the signal;
  it exits only from the closing, and after the exit nothing happens any more. While
  the process drains, new connections are still accepted. Once the floor timer has returned,
  a speaker keeps the floor until a turn under the own name (or a re-drawn room identifier)
  ends it, however long the burst: no time limit is left. Once the reaper has returned, the
  same holds of memberships.
\<close>

theorem shutdown_spec:
  assumes "process_reachable h W \<pi>"
  shows "reachable W (ps_sys \<pi>) \<and>
    (\<forall>t t'. ps_stage \<pi> = Closing t t' \<or> ps_stage \<pi> = Exited t t' \<longrightarrow> t + 3000 \<le> t') \<and>
    (\<forall>t t' \<pi>'. process_step W \<pi> \<pi>' \<and> ps_stage \<pi>' = Exited t t' \<longrightarrow> ps_stage \<pi> = Closing t t') \<and>
    (\<forall>t t' \<pi>'. ps_stage \<pi> = Exited t t' \<longrightarrow> \<not> process_step W \<pi> \<pi>') \<and>
    (\<forall>t. ps_stage \<pi> = Draining t \<longrightarrow> (\<exists>\<pi>''. process_step W \<pi> \<pi>'' \<and>
      length (sy_conns (ps_sys \<pi>'')) = Suc (length (sy_conns (ps_sys \<pi>))))) \<and>
    (\<forall>\<pi>' rid u. process_step W \<pi> \<pi>' \<and> \<not> ps_floor_timer \<pi> \<and>
        speaks_in (halls_of (sy_app (ps_sys \<pi>))) rid u \<and> \<not> speaks_in (halls_of (sy_app (ps_sys \<pi>'))) rid u \<longrightarrow>
      (\<exists>c v. acts W (ps_sys \<pi>) (ps_sys \<pi>') (Client c v) \<and> (v = u \<or> c = Some ROOM_CREATE))) \<and>
    (\<forall>\<pi>' rid u. process_step W \<pi> \<pi>' \<and> \<not> ps_reaper \<pi> \<and>
        in_hall (halls_of (sy_app (ps_sys \<pi>))) rid u \<and> \<not> in_hall (halls_of (sy_app (ps_sys \<pi>'))) rid u \<longrightarrow>
      (\<exists>c v. acts W (ps_sys \<pi>) (ps_sys \<pi>') (Client c v) \<and> (v = u \<or> c = Some ROOM_CREATE)))"
proof -
  have ok: "process_ok W \<pi>" by (rule process_reachable_ok [OF assms])
  then have r: "reachable W (ps_sys \<pi>)" by (simp add: process_ok_def)
  have drain: "t + 3000 \<le> t'" if "ps_stage \<pi> = Closing t t' \<or> ps_stage \<pi> = Exited t t'" for t t'
    using ok that by (auto simp: process_ok_def SHUTDOWN_DRAIN_MS_def)
  show ?thesis
    by (intro conjI allI impI; (elim conjE)?)
      (use r drain in \<open>blast intro: exit_after_closing draining_accepts dest: exited_stays process_step_client [OF r]\<close>)+
qed

text \<open>The host of the start-up: a process that drains without its floor timer, and one that has exited.\<close>

lemma demo_shutdown:
  "\<exists>W \<pi> \<rho>. process_reachable demo_host (W :: nat world) \<pi> \<and> ps_stage \<pi> = Draining 5 \<and> \<not> ps_floor_timer \<pi> \<and>
     process_reachable demo_host W \<rho> \<and> ps_stage \<rho> = Exited 5 3007"
proof -
  obtain sv and \<sigma> :: "nat sys" where r: "run_server demo_host = Inr (sv, \<sigma>)" using demo_host_runs by blast
  let ?W = "demo_world\<lparr>w_server := sv\<rparr>" and ?p = "process_start \<sigma>"
  let ?q = "?p\<lparr>ps_stage := Draining 5\<rparr>"
  let ?d = "?q\<lparr>ps_floor_timer := False\<rparr>" and ?c = "?q\<lparr>ps_stage := Closing 5 3007\<rparr>"
  have "process_reachable demo_host ?W ?p" by (rule boots) (simp add: r)
  then have q: "process_reachable demo_host ?W ?q" by (rule steps) (rule ctrl_c, simp add: process_start_def)
  then have d: "process_reachable demo_host ?W ?d"
    by (rule steps) (rule floor_timer_stops, simp_all add: cancelled_def)
  have "process_reachable demo_host ?W ?c"
    by (rule steps [OF q]) (rule drained, simp_all add: SHUTDOWN_DRAIN_MS_def)
  then have "process_reachable demo_host ?W (?c\<lparr>ps_stage := Exited 5 3007\<rparr>)" by (rule steps) (rule served, simp)
  with d show ?thesis
    by (intro exI [of _ ?W] exI [of _ ?d] exI [of _ "?c\<lparr>ps_stage := Exited 5 3007\<rparr>"]) simp
qed

theorem shutdown_spec_witness:
  "\<exists>W \<pi> \<pi>' \<rho>. process_reachable demo_host (W :: nat world) \<pi> \<and> ps_stage \<pi> = Draining 5 \<and> \<not> ps_floor_timer \<pi> \<and>
     process_step W \<pi> \<pi>' \<and> length (sy_conns (ps_sys \<pi>')) = Suc (length (sy_conns (ps_sys \<pi>))) \<and>
     process_reachable demo_host W \<rho> \<and> ps_stage \<rho> = Exited 5 3007 \<and> (\<forall>\<rho>'. \<not> process_step W \<rho> \<rho>')"
proof -
  obtain W and \<pi> \<rho> :: "nat process" where p: "process_reachable demo_host W \<pi>" "ps_stage \<pi> = Draining 5" "\<not> ps_floor_timer \<pi>"
      "process_reachable demo_host W \<rho>" "ps_stage \<rho> = Exited 5 3007"
    using demo_shutdown by blast
  have "\<forall>\<rho>'. \<not> process_step W \<rho> \<rho>'" using shutdown_spec [OF p(4)] p(5) by blast
  moreover obtain \<pi>' where "process_step W \<pi> \<pi>'" "length (sy_conns (ps_sys \<pi>')) = Suc (length (sy_conns (ps_sys \<pi>)))"
    using shutdown_spec [OF p(1)] p(2) by blast
  ultimately show ?thesis using p by blast
qed

end
