(* ===== verification/Lifecycle.thy ===== *)
theory Lifecycle
  imports Halls
begin

text \<open>
  The life of a DTLS task (\<open>start_dtls_handshake\<close> in \<open>src/transport/udp/mod.rs\<close>): a
  handshake, the keep-alive loop, the end. The phases are ordered by time, and no step of
  the system goes back.
\<close>

section \<open>The order of the phases\<close>

instantiation task_phase :: linorder
begin

fun phase_rank :: "task_phase \<Rightarrow> nat" where
  "phase_rank Handshaking = 0"
| "phase_rank Established = 1"
| "phase_rank Ended = 2"

definition less_eq_task_phase :: "task_phase \<Rightarrow> task_phase \<Rightarrow> bool" where
  "less_eq_task_phase x y \<longleftrightarrow> phase_rank x \<le> phase_rank y"

definition less_task_phase :: "task_phase \<Rightarrow> task_phase \<Rightarrow> bool" where
  "less_task_phase x y \<longleftrightarrow> phase_rank x < phase_rank y"

instance
  by standard (auto simp: less_eq_task_phase_def less_task_phase_def elim!: phase_rank.elims)

end

lemma phase_least [simp]: "Handshaking \<le> x" and phase_greatest [simp]: "x \<le> Ended"
  and ended_le [simp]: "Ended \<le> x \<longleftrightarrow> x = Ended"
  by (cases x; simp add: less_eq_task_phase_def)+

section \<open>Steps and runs\<close>

lemma task_step_phase: "task_step W \<tau> \<sigma> \<sigma>' \<Longrightarrow> sy_dtls \<sigma> c \<le> sy_dtls \<sigma>' c"
  by (induction rule: task_step.induct)
     (auto simp: set_worker_def set_phase_def end_task_def split: option.split handshake.split)

lemma sys_step_phase: "sys_step W \<sigma> \<sigma>' \<Longrightarrow> sy_dtls \<sigma> c \<le> sy_dtls \<sigma>' c"
  by (auto simp: sys_step_def intro: task_step_phase)

lemma run_phase: "(sys_step W)\<^sup>*\<^sup>* \<sigma> \<sigma>' \<Longrightarrow> sy_dtls \<sigma> c \<le> sy_dtls \<sigma>' c"
  by (induction rule: rtranclp_induct) (auto dest: sys_step_phase intro: order_trans)

lemma run_reachable: "(sys_step W)\<^sup>*\<^sup>* \<sigma> \<sigma>' \<Longrightarrow> reachable W \<sigma> \<Longrightarrow> reachable W \<sigma>'"
  by (induction rule: rtranclp_induct) (auto intro: step)

text \<open>What a worker does with a datagram whose DTLS task is gone.\<close>

lemma handle_dtls_restart:
  assumes "dtls_map w remote = Some c" and "\<not> chan_open (channels s ! c)"
  shows "find_by_addr (hub s) remote = None \<Longrightarrow> handle_dtls data remote w s = Finished (w, s)"
    and "find_by_addr (hub s) remote = Some (p, pc, rid) \<Longrightarrow> \<exists>w' s'. handle_dtls data remote w s = Finished (w', s') \<and>
      dtls_map w' = (dtls_map w)(remote \<mapsto> length (channels s)) \<and>
      channels s' = channels s @ [\<lparr>chan_queue = [data], chan_open = True\<rparr>] \<and>
      out s' = out s @ [SpawnDtls remote p pc (length (channels s))]"
  using assms by (auto simp: handle_dtls_def dtls_inject_def start_dtls_handshake_def demux_new_def dtls_insert_def
      chan_send_def on_channel_def DTLS_CHANNEL_SIZE_def)

text \<open>
  C26: a DTLS task never goes back. However the server runs on from a reachable state, the
  phase of a task only advances. Once it has ended, no worker puts another datagram in its
  channel or waits for it: when the worker meets the stale entry, it drops the datagram if
  the sender's address belongs to nobody, and otherwise starts a new task with a channel of
  its own that holds just this datagram.
\<close>

theorem dtls_lifecycle:
  assumes "reachable W \<sigma>" and "(sys_step W)\<^sup>*\<^sup>* \<sigma> \<sigma>'"
  shows "sy_dtls \<sigma> c \<le> sy_dtls \<sigma>' c \<and>
    (c < length (channels (sy_app \<sigma>')) \<and> sy_dtls \<sigma> c = Ended \<longrightarrow>
      (\<forall>w remote data. dtls_map w remote = Some c \<longrightarrow>
        (case find_by_addr (hub (sy_app \<sigma>')) remote of
           None \<Rightarrow> handle_dtls data remote w (sy_app \<sigma>') = Finished (w, sy_app \<sigma>')
         | Some (p, pc, rid) \<Rightarrow> \<exists>w' s'. handle_dtls data remote w (sy_app \<sigma>') = Finished (w', s') \<and>
             dtls_map w' = (dtls_map w)(remote \<mapsto> length (channels (sy_app \<sigma>'))) \<and>
             channels s' = channels (sy_app \<sigma>') @ [\<lparr>chan_queue = [data], chan_open = True\<rparr>] \<and>
             out s' = out (sy_app \<sigma>') @ [SpawnDtls remote p pc (length (channels (sy_app \<sigma>')))])))"
proof -
  note le = run_phase [OF assms(2), of c] and ok = reachable_ok [OF run_reachable [OF assms(2,1)]]
  have "\<not> chan_open (channels (sy_app \<sigma>') ! c)" if "c < length (channels (sy_app \<sigma>'))" "sy_dtls \<sigma> c = Ended"
    using sys_okD(4) [OF ok that(1)] le that(2) by simp
  then show ?thesis using le handle_dtls_restart [of _ _ c "sy_app \<sigma>'"]
    by (auto split: option.split prod.split)
qed

section \<open>A handshake without the password\<close>

lemma handle_dtls_starts:
  assumes "dtls_map w remote = None" and "find_by_addr (hub s) remote = Some (p, pc, rid)"
  shows "\<exists>w' s'. handle_dtls data remote w s = Finished (w', s') \<and> hub s' = hub s \<and>
      dtls_map w' = (dtls_map w)(remote \<mapsto> length (channels s)) \<and>
      channels s' = channels s @ [\<lparr>chan_queue = [data], chan_open = True\<rparr>] \<and>
      out s' = out s @ [SpawnDtls remote p pc (length (channels s))]"
  using assms by (auto simp: handle_dtls_def dtls_inject_def start_dtls_handshake_def demux_new_def dtls_insert_def
      chan_send_def on_channel_def DTLS_CHANNEL_SIZE_def)

lemma latched_without_password:
  assumes "state_ok s" and "length tid = 12" and "\<forall>d k. length (hmac_sha1 e d k) = 20"
    and "sane_attrs (as @ mi # rest)" and "attr_type mi = ATTR_MESSAGE_INTEGRITY"
    and "\<forall>a \<in> set as. attr_type a \<noteq> ATTR_MESSAGE_INTEGRITY"
    and "server_fragment (as @ mi # rest) = Some uf" and "find_by_ufrag (hub s) uf = Some (p, pc, rid)"
    and wrong: "hmac_sha1 e (signed_part BINDING_REQUEST tid as) (bytes_of (ms_ice_pwd (session (pt s p) pc))) \<noteq> attr_value mi"
    and fresh: "dtls_map w remote = None"
  shows "\<exists>s1 w2 s2. handle_stun e now (stun_packet BINDING_REQUEST tid (as @ mi # rest)) remote w s = Some (w, s1) \<and>
    handle_dtls data remote w s1 = Finished (w2, s2) \<and>
    dtls_map w2 remote = Some (length (channels s)) \<and>
    channels s2 = channels s @ [\<lparr>chan_queue = [data], chan_open = True\<rparr>] \<and>
    out s2 = out s @ [SpawnDtls remote p pc (length (channels s))]"
proof -
  obtain s1 where s1: "handle_stun e now (stun_packet BINDING_REQUEST tid (as @ mi # rest)) remote w s = Some (w, s1)"
      "find_by_addr (hub s1) remote = Some (p, pc, rid)" "out s1 = out s" "channels s1 = channels s"
    using stun_binding_outcome [OF assms(1-8) refl, of now remote w] wrong by auto
  then show ?thesis using handle_dtls_starts [OF fresh s1(2), of data] by auto
qed

text \<open>
  C23: a handshake needs no password. Somebody who knows the name of a session, which travels
  in clear in every STUN request, sends a binding request with any MESSAGE-INTEGRITY that
  does not verify, and then a DTLS packet from the same address. The request gets no answer,
  but its address is latched to the session, and so the packet starts a handshake for it.
\<close>

theorem handshake_without_password:
  assumes "state_ok s" and "length tid = 12" and "\<forall>d k. length (hmac_sha1 e d k) = 20"
    and "sane_attrs (as @ mi # rest)" and "attr_type mi = ATTR_MESSAGE_INTEGRITY"
    and "\<forall>a \<in> set as. attr_type a \<noteq> ATTR_MESSAGE_INTEGRITY"
    and "server_fragment (as @ mi # rest) = Some uf" and "find_by_ufrag (hub s) uf = Some (p, pc, rid)"
    and wrong: "hmac_sha1 e (signed_part BINDING_REQUEST tid as) (bytes_of (ms_ice_pwd (session (pt s p) pc))) \<noteq> attr_value mi"
    and fresh: "dtls_map w remote = None"
  shows "\<exists>s1 w2 s2. handle_stun e now (stun_packet BINDING_REQUEST tid (as @ mi # rest)) remote w s = Some (w, s1) \<and>
    handle_dtls data remote w s1 = Finished (w2, s2) \<and>
    dtls_map w2 remote = Some (length (channels s)) \<and>
    channels s2 = channels s @ [\<lparr>chan_queue = [data], chan_open = True\<rparr>] \<and>
    out s2 = out s @ [SpawnDtls remote p pc (length (channels s))]"
  by (rule latched_without_password [OF assms])

section \<open>A run in which a task ends\<close>

text \<open>A member of a room, whose session a stranger takes up and abandons.\<close>

definition stranger :: sockaddr where
  "stranger = V4 9 9"

abbreviation wrong_user :: stun_attribute where
  "wrong_user \<equiv> \<lparr>attr_type = ATTR_USERNAME, attr_value = [48, 49, 58, 99]\<rparr>"

abbreviation wrong_mi :: stun_attribute where
  "wrong_mi \<equiv> \<lparr>attr_type = ATTR_MESSAGE_INTEGRITY, attr_value = replicate 20 1\<rparr>"

definition wrong_request :: bytes where
  "wrong_request = stun_packet BINDING_REQUEST (replicate 12 1) ([wrong_user] @ wrong_mi # [])"

lemma wrong_facts:
  "length (replicate 12 (1 :: u8)) = 12" "\<forall>d k. length (hmac_sha1 demo_env d k) = 20"
  "sane_attrs ([wrong_user] @ wrong_mi # [])" "attr_type wrong_mi = ATTR_MESSAGE_INTEGRITY"
  "\<forall>a \<in> set [wrong_user]. attr_type a \<noteq> ATTR_MESSAGE_INTEGRITY"
  "server_fragment ([wrong_user] @ wrong_mi # []) = Some ''01''" "hmac_sha1 demo_env x k \<noteq> attr_value wrong_mi"
proof -
  have "str_of [48, 49, 58, 99] = ''01:c''" by code_simp
  then show "server_fragment ([wrong_user] @ wrong_mi # []) = Some ''01''"
    by (simp add: server_fragment_def between_def config_defs)
  show "sane_attrs ([wrong_user] @ wrong_mi # [])" "\<forall>d k. length (hmac_sha1 demo_env d k) = 20"
    "\<forall>a \<in> set [wrong_user]. attr_type a \<noteq> ATTR_MESSAGE_INTEGRITY"
    by (simp_all add: sane_attrs_def length_encode_attr align4_eq demo_env_def config_defs)
  show "hmac_sha1 demo_env x k \<noteq> attr_value wrong_mi" by (simp add: demo_env_def replicate_eq_replicate)
qed simp_all

lemma wrong_kind: "classify wrong_request = Stun_Packet" "classify [22] = Dtls_Packet"
  by (simp_all add: wrong_request_def stun_packet_def stun_header_def to_be16_def classify_def config_defs)

lemma worker_task:
  assumes "i < length (sy_workers \<sigma>)" and "sy_workers \<sigma> ! i = Some w"
  shows "classify x = Stun_Packet \<Longrightarrow> handle_stun (w_env W) now x remote w (sy_app \<sigma>) = Some (w', s') \<Longrightarrow>
      sys_step W \<sigma> (set_worker i (Some (after_packet w' s')) (\<sigma>\<lparr>sy_app := s'\<rparr>))"
    and "classify x = Dtls_Packet \<Longrightarrow> handle_dtls x remote w (sy_app \<sigma>) = Finished (w', s') \<Longrightarrow>
      sys_step W \<sigma> (set_worker i (Some (after_packet w' s')) (\<sigma>\<lparr>sy_app := s'\<rparr>))"
proof -
  have turn: "udp_turn (w_env W) (w_order W) (w_tracing W) now 0 x remote w (sy_app \<sigma>) = Finished (v, s') \<Longrightarrow>
      sys_step W \<sigma> (set_worker i (Some v) (\<sigma>\<lparr>sy_app := s'\<rparr>))" for v
    by (rule sys_stepI, rule datagram [OF assms])
  show "classify x = Stun_Packet \<Longrightarrow> handle_stun (w_env W) now x remote w (sy_app \<sigma>) = Some (w', s') \<Longrightarrow>
      sys_step W \<sigma> (set_worker i (Some (after_packet w' s')) (\<sigma>\<lparr>sy_app := s'\<rparr>))"
    "classify x = Dtls_Packet \<Longrightarrow> handle_dtls x remote w (sy_app \<sigma>) = Finished (w', s') \<Longrightarrow>
      sys_step W \<sigma> (set_worker i (Some (after_packet w' s')) (\<sigma>\<lparr>sy_app := s'\<rparr>))"
    by (rule turn, simp add: udp_turn_def)+
qed

lemma talk_abandoned:
  "\<exists>\<sigma> c p. reachable talk_world \<sigma> \<and> c < length (channels (sy_app \<sigma>)) \<and> sy_dtls \<sigma> c = Ended \<and>
     find_by_addr (hub (sy_app \<sigma>)) stranger = Some (p, Publish, ''a'')"
proof -
  let ?w = "worker_new 0 Twcc 500000"
  obtain \<sigma> p where j: "reachable talk_world \<sigma>" "find_by_ufrag (hub (sy_app \<sigma>)) ''01'' = Some (p, Publish, ''a'')"
      "sy_workers \<sigma> = sy_workers demo_start"
    using talk_joins step by blast
  then have wk: "0 < length (sy_workers \<sigma>)" "sy_workers \<sigma> ! 0 = Some ?w"
    by (simp_all add: demo_start_def system_start_def start_workers_def)
  obtain s1 where s1: "handle_stun demo_env 9 wrong_request stranger ?w (sy_app \<sigma>) = Some (?w, s1)"
      "find_by_addr (hub s1) stranger = Some (p, Publish, ''a'')" "channels s1 = channels (sy_app \<sigma>)"
    using stun_binding_outcome [OF sys_okD(1) [OF reachable_ok [OF j(1)]] wrong_facts(1-6) j(2) refl, of 9 stranger ?w] wrong_facts(7)
    unfolding wrong_request_def by blast
  let ?w1 = "after_packet ?w s1"
  let ?\<sigma>1 = "set_worker 0 (Some ?w1) (\<sigma>\<lparr>sy_app := s1\<rparr>)"
  have r1: "reachable talk_world ?\<sigma>1"
    by (rule step [OF j(1) worker_task(1) [OF wk wrong_kind(1), of talk_world 9 stranger]]) (simp add: s1(1))
  have w1: "dtls_map ?w1 stranger = None" by (simp add: after_packet_def worker_new_def Let_def dtls_remove_stale_def)
  obtain w2 s2 where d: "handle_dtls [22] stranger ?w1 s1 = Finished (w2, s2)" "hub s2 = hub s1"
      "channels s2 = channels s1 @ [\<lparr>chan_queue = [[22]], chan_open = True\<rparr>]"
      "SpawnDtls stranger p Publish (length (channels s1)) \<in> set (out s2)"
    using handle_dtls_starts [OF w1 s1(2), of "[22]"] by auto
  let ?c = "length (channels s1)" and ?\<sigma>2 = "set_worker 0 (Some (after_packet w2 s2)) (?\<sigma>1\<lparr>sy_app := s2\<rparr>)"
  have wk1: "0 < length (sy_workers ?\<sigma>1)" "sy_workers ?\<sigma>1 ! 0 = Some ?w1" using wk(1) by (simp_all add: set_worker_def)
  have r2: "reachable talk_world ?\<sigma>2"
    by (rule step [OF r1 worker_task(2) [OF wk1 wrong_kind(2), of stranger]]) (simp add: d(1) set_worker_def)
  have ph: "sy_dtls \<sigma> ?c = Handshaking"
    using reachable_ok [OF j(1)] s1(3) by (simp add: sys_ok_def)
  have same: "?\<sigma>2\<lparr>sy_app := s2\<rparr> = ?\<sigma>2" by (cases \<sigma>) (simp add: set_worker_def)
  have "sys_step talk_world ?\<sigma>2 (end_task ?c (?\<sigma>2\<lparr>sy_app := s2\<rparr>))"
    using sys_stepI [OF handshake_over [of stranger p Publish ?c ?\<sigma>2 HandshakeTimeout talk_world s2]] d(4) ph
    by (simp add: handshake_done_def set_worker_def)
  then have "reachable talk_world (end_task ?c ?\<sigma>2)" unfolding same by (rule step [OF r2])
  then show ?thesis using d(2,3) s1(2)
    by (intro exI [of _ "end_task ?c ?\<sigma>2"] exI [of _ ?c] exI [of _ p])
      (simp add: end_task_def set_phase_def dtls_task_end_def on_channel_def set_worker_def)
qed

text \<open>The next packet of the stranger opens another channel, to a new task.\<close>

theorem dtls_lifecycle_witness:
  "\<exists>\<sigma> c p w w' s'. reachable talk_world \<sigma> \<and> sy_dtls \<sigma> c = Ended \<and> dtls_map w stranger = Some c \<and>
     handle_dtls [22] stranger w (sy_app \<sigma>) = Finished (w', s') \<and> c < length (channels (sy_app \<sigma>)) \<and>
     out s' = out (sy_app \<sigma>) @ [SpawnDtls stranger p Publish (length (channels (sy_app \<sigma>)))]"
proof -
  obtain \<sigma> c p where t: "reachable talk_world \<sigma>" "c < length (channels (sy_app \<sigma>))" "sy_dtls \<sigma> c = Ended"
      "find_by_addr (hub (sy_app \<sigma>)) stranger = Some (p, Publish, ''a'')"
    using talk_abandoned by blast
  let ?w = "(worker_new 0 Twcc 500000)\<lparr>dtls_map := [stranger \<mapsto> c]\<rparr>"
  have life: "\<forall>w remote data. dtls_map w remote = Some c \<longrightarrow>
        (case find_by_addr (hub (sy_app \<sigma>)) remote of
           None \<Rightarrow> handle_dtls data remote w (sy_app \<sigma>) = Finished (w, sy_app \<sigma>)
         | Some (p, pc, rid) \<Rightarrow> \<exists>w' s'. handle_dtls data remote w (sy_app \<sigma>) = Finished (w', s') \<and>
             dtls_map w' = (dtls_map w)(remote \<mapsto> length (channels (sy_app \<sigma>))) \<and>
             channels s' = channels (sy_app \<sigma>) @ [\<lparr>chan_queue = [data], chan_open = True\<rparr>] \<and>
             out s' = out (sy_app \<sigma>) @ [SpawnDtls remote p pc (length (channels (sy_app \<sigma>)))])"
    using dtls_lifecycle [OF t(1) rtranclp.rtrancl_refl, of c] t(2,3) by blast
  obtain w' s' where "handle_dtls [22] stranger ?w (sy_app \<sigma>) = Finished (w', s')"
      "out s' = out (sy_app \<sigma>) @ [SpawnDtls stranger p Publish (length (channels (sy_app \<sigma>)))]"
    using life [rule_format, of ?w stranger "[22]"] t(4) by auto
  then show ?thesis using t
    by (intro exI [of _ \<sigma>] exI [of _ c] exI [of _ p] exI [of _ ?w] exI [of _ w'] exI [of _ s']) simp
qed

theorem handshake_without_password_witness:
  "\<exists>\<sigma> p s1 w2 s2. reachable talk_world \<sigma> \<and>
     handle_stun demo_env 9 wrong_request stranger (worker_new 0 Twcc 500000) (sy_app \<sigma>) = Some (worker_new 0 Twcc 500000, s1) \<and>
     handle_dtls [22] stranger (worker_new 0 Twcc 500000) s1 = Finished (w2, s2) \<and>
     SpawnDtls stranger p Publish (length (channels (sy_app \<sigma>))) \<in> set (out s2)"
proof -
  obtain \<sigma> p where j: "reachable talk_world \<sigma>" "find_by_ufrag (hub (sy_app \<sigma>)) ''01'' = Some (p, Publish, ''a'')"
    using talk_joins step by blast
  have ok: "state_ok (sy_app \<sigma>)" by (rule sys_okD(1) [OF reachable_ok [OF j(1)]])
  have w: "dtls_map (worker_new 0 Twcc 500000) stranger = None" by (simp add: worker_new_def)
  obtain s1 w2 s2 where
      "handle_stun demo_env 9 wrong_request stranger (worker_new 0 Twcc 500000) (sy_app \<sigma>) = Some (worker_new 0 Twcc 500000, s1)"
      "handle_dtls [22] stranger (worker_new 0 Twcc 500000) s1 = Finished (w2, s2)"
      "out s2 = out (sy_app \<sigma>) @ [SpawnDtls stranger p Publish (length (channels (sy_app \<sigma>)))]"
    using handshake_without_password [OF ok wrong_facts(1-6) j(2) wrong_facts(7) w, of 9 "[22]"]
    unfolding wrong_request_def by blast
  then show ?thesis using j(1)
    by (intro exI [of _ \<sigma>] exI [of _ p] exI [of _ s1] exI [of _ w2] exI [of _ s2]) simp
qed

end
