(* ===== verification/Threads.thy ===== *)
theory Threads
  imports Prelude
begin

text \<open>
  Threads that share a state, access by access: the interleaving that the models of
  overlapping handlers use. A configuration is the shared state and the list of what each
  thread does next. \<open>thr\<close> is one access of a thread, \<open>begins\<close> says when a thread may take up
  something new, and \<open>other\<close> is what everybody else may do to the shared state.
\<close>

inductive interleaved ::
  "('p \<times> 's \<Rightarrow> 'p \<times> 's) \<Rightarrow> ('p \<Rightarrow> 'p \<Rightarrow> bool) \<Rightarrow> ('s \<Rightarrow> 's \<Rightarrow> bool) \<Rightarrow> 's \<times> 'p list \<Rightarrow> 's \<times> 'p list \<Rightarrow> bool"
  for thr begins other where
  access: "i < length ts \<Longrightarrow> thr (ts ! i, s) = (p', s') \<Longrightarrow> interleaved thr begins other (s, ts) (s', ts[i := p'])"
| begin_next: "i < length ts \<Longrightarrow> begins (ts ! i) p' \<Longrightarrow> interleaved thr begins other (s, ts) (s, ts[i := p'])"
| environment: "other s s' \<Longrightarrow> interleaved thr begins other (s, ts) (s', ts)"

inductive_cases interleavedE: "interleaved thr begins other (s, ts) c"

lemma interleaved_length: "interleaved thr begins other c c' \<Longrightarrow> length (snd c') = length (snd c)"
  by (induction rule: interleaved.induct) simp_all

lemma interleaved_invariant:
  assumes "(interleaved thr begins other)\<^sup>*\<^sup>* c c'" and "I c"
    and "\<And>c c'. interleaved thr begins other c c' \<Longrightarrow> I c \<Longrightarrow> I c'"
  shows "I c'"
  using assms(1,2) by (induction rule: rtranclp_induct) (auto intro: assms(3))

text \<open>A schedule: the threads make their accesses in the given order.\<close>

definition thread_turn :: "('p \<times> 's \<Rightarrow> 'p \<times> 's) \<Rightarrow> nat \<Rightarrow> 's \<times> 'p list \<Rightarrow> 's \<times> 'p list" where
  "thread_turn thr i c = (case c of (s, ts) \<Rightarrow> case thr (ts ! i, s) of (p', s') \<Rightarrow> (s', ts[i := p']))"

lemma schedule_runs:
  "\<forall>i \<in> set is. i < length (snd c) \<Longrightarrow> (interleaved thr begins other)\<^sup>*\<^sup>* c (fold (thread_turn thr) is c)"
proof (induction "is" arbitrary: c)
  case (Cons i "is")
  obtain s ts where c: "c = (s, ts)" by (cases c)
  have t: "interleaved thr begins other c (thread_turn thr i c)"
    using Cons.prems by (auto simp: c thread_turn_def intro: access split: prod.split)
  then have "(interleaved thr begins other)\<^sup>*\<^sup>* (thread_turn thr i c) (fold (thread_turn thr) is (thread_turn thr i c))"
    using Cons.IH [of "thread_turn thr i c"] Cons.prems interleaved_length [OF t] by simp
  then show ?case using t by (simp add: converse_rtranclp_into_rtranclp)
qed simp

text \<open>Two threads in lockstep.\<close>

definition lockstep :: "nat \<Rightarrow> nat list" where
  "lockstep n = concat (replicate n [0, 1])"

lemma lockstep_simps: "lockstep 5 = [0, 1, 0, 1, 0, 1, 0, 1, 0, 1]" "lockstep 3 = [0, 1, 0, 1, 0, 1]"
  by (simp_all add: lockstep_def numeral_eq_Suc)

lemma lockstep_runs: "(interleaved thr begins other)\<^sup>*\<^sup>* (s, [x, y]) (fold (thread_turn thr) (lockstep n) (s, [x, y]))"
  by (rule schedule_runs) (auto simp: lockstep_def)

text \<open>How many threads have a property, when one of them changes.\<close>

lemma count_update:
  assumes "i < length ts"
  shows "length (filter P (ts[i := t])) + of_bool (P (ts ! i)) = length (filter P ts) + of_bool (P t)"
proof -
  have app: "length (filter P (xs @ x # ys)) = length (filter P xs) + of_bool (P x) + length (filter P ys)" for xs x ys
    by simp
  have "length (filter P ts) = length (filter P (take i ts)) + of_bool (P (ts ! i)) + length (filter P (drop (Suc i) ts))"
    using app [of "take i ts" "ts ! i" "drop (Suc i) ts"] id_take_nth_drop [OF assms] by simp
  moreover have "length (filter P (ts[i := t])) = length (filter P (take i ts)) + of_bool (P t) + length (filter P (drop (Suc i) ts))"
    using app by (simp add: upd_conv_take_nth_drop [OF assms])
  ultimately show ?thesis by simp
qed

lemma count_less: "i < length ts \<Longrightarrow> \<not> P (ts ! i) \<Longrightarrow> length (filter P ts) < length ts"
  using length_filter_less [of "ts ! i" ts P] by simp

end
