(* ===== verification/Overlap.thy ===== *)
theory Overlap
  imports Threads Room
begin

text \<open>
  Joins that overlap (\<open>Room::add_participant\<close> in \<open>src/room/room.rs\<close>). The function checks,
  checks again and inserts, each time under another lock, so handlers on different threads
  can interleave between these points. Here every access to a shared map is a step of its
  own. A thread is a slot that runs one join after the other; members may leave at any time.
\<close>

section \<open>One join, access by access\<close>

datatype join_pc = AtCapacity | AtContains | AtPublish | AtSubscribe | AtInsert | Returned "light_error + unit"

fun join_step :: "'c heap \<Rightarrow> pref \<Rightarrow> join_pc \<times> room \<Rightarrow> join_pc \<times> room" where
  "join_step h p (AtCapacity, r) =
     (if length (participants r) \<ge> r_capacity r then (Returned (Inl RoomFull), r) else (AtContains, r))"
| "join_step h p (AtContains, r) =
     (if map_of (participants r) (p_user_id (deref h p)) \<noteq> None then (Returned (Inl AlreadyInRoom), r) else (AtPublish, r))"
| "join_step h p (AtPublish, r) =
     (AtSubscribe, r\<lparr>by_ufrag := (by_ufrag r)(ms_ufrag (publish (deref h p)) \<mapsto> (p, Publish))\<rparr>)"
| "join_step h p (AtSubscribe, r) =
     (AtInsert, r\<lparr>by_ufrag := (by_ufrag r)(ms_ufrag (subscribe (deref h p)) \<mapsto> (p, Subscribe))\<rparr>)"
| "join_step h p (AtInsert, r) =
     (Returned (Inr ()), r\<lparr>participants := AList.update (p_user_id (deref h p)) p (participants r)\<rparr>)"
| "join_step h p (Returned x, r) = (Returned x, r)"

text \<open>Without other threads the steps are the operation of the sequential model.\<close>

lemma join_alone:
  "(join_step h p ^^ 5) (AtCapacity, r) = (case room_add_participant h p r of (x, r') \<Rightarrow> (Returned x, r'))"
  by (simp add: numeral_eq_Suc room_add_participant_def)

section \<open>Threads\<close>

text \<open>A slot is past the capacity check when it will insert without looking at the size again.\<close>

fun committed :: "join_pc \<Rightarrow> bool" where
  "committed (Returned _) = False"
| "committed AtCapacity = False"
| "committed _ = True"

type_synonym slots = "(pref \<times> join_pc) list"

definition in_flight :: "slots \<Rightarrow> nat" where
  "in_flight js = length (filter (committed \<circ> snd) js)"

definition join_thread :: "'c heap \<Rightarrow> (pref \<times> join_pc) \<times> room \<Rightarrow> (pref \<times> join_pc) \<times> room" where
  "join_thread h x = (case x of ((p, pc), r) \<Rightarrow> case join_step h p (pc, r) of (pc', r') \<Rightarrow> ((p, pc'), r'))"

definition next_join :: "pref \<times> join_pc \<Rightarrow> pref \<times> join_pc \<Rightarrow> bool" where
  "next_join x y \<longleftrightarrow> (\<exists>z. snd x = Returned z) \<and> snd y = AtCapacity"

definition some_leave :: "'c heap \<Rightarrow> room \<Rightarrow> room \<Rightarrow> bool" where
  "some_leave h r r' \<longleftrightarrow> (\<exists>uid. r' = snd (room_remove_participant h uid r))"

abbreviation overlap_step :: "'c heap \<Rightarrow> room \<times> slots \<Rightarrow> room \<times> slots \<Rightarrow> bool" where
  "overlap_step h \<equiv> interleaved (join_thread h) next_join (some_leave h)"

section \<open>How far overlapping joins overfill a room\<close>

definition slack_ok :: "nat \<Rightarrow> nat \<Rightarrow> room \<times> slots \<Rightarrow> bool" where
  "slack_ok cap n c \<longleftrightarrow> (case c of (r, js) \<Rightarrow> length js = n \<and> r_capacity r = cap \<and>
     length (participants r) + in_flight js < cap + n)"

lemma length_update_le: "length (AList.update k v xs) \<le> Suc (length xs)"
  by (induction xs) (auto split: if_splits)

lemma join_step_slack:
  assumes "join_step h p (pc, r) = (pc', r')"
  shows "r_capacity r' = r_capacity r"
    and "length (participants r') + of_bool (committed pc') \<le> length (participants r) + of_bool (committed pc) \<or>
      (\<not> committed pc \<and> committed pc' \<and> r' = r \<and> length (participants r) < r_capacity r)"
  using assms length_update_le [of "p_user_id (deref h p)" p "participants r"]
  by (cases pc; auto split: if_split_asm)+

lemma overlap_step_slack:
  assumes "overlap_step h c c'" and "slack_ok cap n c"
  shows "slack_ok cap n c'"
  using assms
proof (induction rule: interleaved.induct)
  case (access i js r q r')
  obtain p pc where pc: "js ! i = (p, pc)" by (cases "js ! i")
  then obtain pc' where J: "join_step h p (pc, r) = (pc', r')" "q = (p, pc')"
    using access(2) by (auto simp: join_thread_def split: prod.splits)
  show ?case
    using access(3) join_step_slack [OF J(1)] count_update [OF access(1), of "committed \<circ> snd" q]
      count_less [OF access(1), of "committed \<circ> snd"] J(2) pc
    by (auto simp: slack_ok_def in_flight_def)
next
  case (begin_next i js q r)
  then show ?case using count_update [OF begin_next(1), of "committed \<circ> snd" q]
    by (auto simp: slack_ok_def in_flight_def next_join_def)
next
  case (environment r r' js)
  then show ?case
    by (auto simp: slack_ok_def some_leave_def room_remove_participant_def split: option.split
        intro: le_less_trans [OF add_right_mono [OF AList.length_delete_le]])
qed

lemma overlap_run_slack: "(overlap_step h)\<^sup>*\<^sup>* c c' \<Longrightarrow> slack_ok cap n c \<Longrightarrow> slack_ok cap n c'"
  by (erule interleaved_invariant) (auto intro: overlap_step_slack)

text \<open>
  C31: overlapping joins overfill a room by less than the number of threads. Starting with no
  more members than the capacity and no join under way, any interleaving of joins on \<open>n\<close>
  threads and of departures leaves at most \<open>capacity + n - 1\<close> members, and joins that are
  past their check count towards this bound already. With one thread the capacity holds.
\<close>

theorem overlap_bound:
  assumes "(overlap_step h)\<^sup>*\<^sup>* (r, js) (r', js')" and "js \<noteq> []" and "in_flight js = 0"
    and "length (participants r) \<le> r_capacity r"
  shows "length (participants r') + in_flight js' \<le> r_capacity r + length js - 1 \<and> r_capacity r' = r_capacity r"
proof -
  have "slack_ok (r_capacity r) (length js) (r, js)" using assms(2-4) by (cases js) (auto simp: slack_ok_def)
  from overlap_run_slack [OF assms(1) this] show ?thesis by (auto simp: slack_ok_def)
qed

section \<open>A schedule that reaches the bound\<close>

definition race_heap :: "nat heap" where
  "race_heap = [participant_new ''u'' ''r'' ''a'' ''p'' ''b'' ''q'' 0 0, participant_new ''v'' ''r'' ''c'' ''p'' ''d'' ''q'' 1 0,
     participant_new ''u'' ''r'' ''e'' ''p'' ''f'' ''q'' 2 0]"

definition race_room :: room where
  "race_room = room_new 1 2 ''r'' ''name'' (Some 1) Conference 0"

lemma race_people:
  "p_user_id (deref race_heap 0) = ''u''" "p_user_id (deref race_heap (Suc 0)) = ''v''" "p_user_id (deref race_heap 2) = ''u''"
  "ms_ufrag (publish (deref race_heap 0)) = ''a''" "ms_ufrag (subscribe (deref race_heap 0)) = ''b''"
  "ms_ufrag (publish (deref race_heap (Suc 0))) = ''c''" "ms_ufrag (subscribe (deref race_heap (Suc 0))) = ''d''"
  "ms_ufrag (publish (deref race_heap 2)) = ''e''" "ms_ufrag (subscribe (deref race_heap 2)) = ''f''"
  "ms_address (publish (deref race_heap 2)) = None" "ms_address (subscribe (deref race_heap 2)) = None"
  by (simp_all add: race_heap_def deref_def participant_new_def media_session_new_def)

lemma race_start: "r_capacity race_room = 1" "participants race_room = []" "by_ufrag race_room = Map.empty"
  by (simp_all add: race_room_def room_new_def ROOM_MAX_CAPACITY_def)

lemmas race_simps = thread_turn_def join_thread_def lockstep_simps race_people race_start

definition overfull_room :: room where
  "overfull_room = race_room\<lparr>by_ufrag := [''a'' \<mapsto> (0, Publish), ''c'' \<mapsto> (Suc 0, Publish), ''b'' \<mapsto> (0, Subscribe), ''d'' \<mapsto> (Suc 0, Subscribe)],
      participants := [(''u'', 0), (''v'', Suc 0)]\<rparr>"

definition ghost_room :: room where
  "ghost_room = race_room\<lparr>by_ufrag := [''a'' \<mapsto> (0, Publish), ''e'' \<mapsto> (2, Publish), ''b'' \<mapsto> (0, Subscribe), ''f'' \<mapsto> (2, Subscribe)],
      participants := [(''u'', 2)]\<rparr>"

lemma race_overfills:
  "fold (thread_turn (join_thread race_heap)) (lockstep 5) (race_room, [(0, AtCapacity), (Suc 0, AtCapacity)]) =
   (overfull_room, [(0, Returned (Inr ())), (Suc 0, Returned (Inr ()))])"
  by (simp add: race_simps overfull_room_def)

lemma race_replaces:
  "fold (thread_turn (join_thread race_heap)) (lockstep 5) (race_room, [(0, AtCapacity), (2, AtCapacity)]) =
   (ghost_room, [(0, Returned (Inr ())), (2, Returned (Inr ()))])"
  by (simp add: race_simps ghost_room_def)

text \<open>
  Two joins of one user: both are answered with success, the later insertion replaces the
  earlier participant, and the session names of the replaced one still lead to it although it
  is no member. The departure of the user does not remove them either: it clears the names
  of the member.
\<close>

theorem racing_joins_leave_ghost:
  "\<exists>r. (overlap_step race_heap)\<^sup>*\<^sup>* (race_room, [(0, AtCapacity), (2, AtCapacity)])
      (r, [(0, Returned (Inr ())), (2, Returned (Inr ()))]) \<and>
     participants r = [(''u'', 2)] \<and> by_ufrag r ''a'' = Some (0, Publish) \<and>
     by_ufrag (snd (room_remove_participant race_heap ''u'' r)) ''a'' = Some (0, Publish)"
proof -
  note run = lockstep_runs [of "join_thread race_heap" next_join "some_leave race_heap" race_room "(0, AtCapacity)" "(2, AtCapacity)" 5, unfolded race_replaces]
  have "participants ghost_room = [(''u'', 2)]" "by_ufrag ghost_room ''a'' = Some (0, Publish)"
    "by_ufrag (snd (room_remove_participant race_heap ''u'' ghost_room)) ''a'' = Some (0, Publish)"
    by (simp_all add: ghost_room_def room_remove_participant_def race_people)
  then show ?thesis using run by blast
qed

theorem overlap_bound_witness:
  "\<exists>r js. (overlap_step race_heap)\<^sup>*\<^sup>* (race_room, [(0, AtCapacity), (Suc 0, AtCapacity)]) (r, js) \<and>
     length (participants r) = 2 \<and> length (participants r) + in_flight js \<le> 1 + 2 - 1"
proof -
  note run = lockstep_runs [of "join_thread race_heap" next_join "some_leave race_heap" race_room "(0, AtCapacity)" "(Suc 0, AtCapacity)" 5, unfolded race_overfills]
  have "length (participants overfull_room) = 2" by (simp add: overfull_room_def)
  then show ?thesis using overlap_bound [OF run] run by (fastforce simp: race_start in_flight_def)
qed

end
