(* ===== verification/Floor_Overlap.thy ===== *)
theory Floor_Overlap
  imports Threads Server
begin

text \<open>
  Floor operations that overlap. A handler that changes the floor takes three locks, one after
  the other: that of the floor controller, then those of the two rewriters
  (\<open>handle_floor_request\<close>, \<open>handle_floor_release\<close> and the two departures in
  \<open>src/signaling/handler.rs\<close>, \<open>run_floor_timer\<close> in \<open>src/lib.rs\<close>). Here each lock is a step
  of its own, so that handlers on several threads interleave.
\<close>

section \<open>One handler, lock by lock\<close>

datatype floor_call = CallRequest string u64 | CallRelease string | CallLeave string | CallTimer u64

datatype rewriter_change = SwitchTo string | ClearBoth

datatype floor_pc = Quiet | AtFloor floor_call | AtAudio rewriter_change | AtVideo rewriter_change

text \<open>What the controller answers, as far as the rewriters are concerned.\<close>

fun answer_call :: "floor_call \<Rightarrow> floor_state \<Rightarrow> rewriter_change option \<times> floor_state" where
  "answer_call (CallRequest user now) f =
     (case floor_request f user now of (Granted speaker, f') \<Rightarrow> (Some (SwitchTo speaker), f') | (_, f') \<Rightarrow> (None, f'))"
| "answer_call (CallRelease user) f =
     (case floor_release f user of (Released _, f') \<Rightarrow> (Some ClearBoth, f') | (_, f') \<Rightarrow> (None, f'))"
| "answer_call (CallLeave user) f =
     (case on_participant_leave f user of (Some _, f') \<Rightarrow> (Some ClearBoth, f') | (None, f') \<Rightarrow> (None, f'))"
| "answer_call (CallTimer now) f =
     (case check_timers f now of (Some (Revoked _ _), f') \<Rightarrow> (Some ClearBoth, f') | (_, f') \<Rightarrow> (None, f'))"

fun change_rewriter :: "rewriter_change \<Rightarrow> ptt_rewriter \<Rightarrow> ptt_rewriter" where
  "change_rewriter (SwitchTo user) w = switch_speaker w user"
| "change_rewriter ClearBoth w = clear_speaker w"

fun floor_thread :: "floor_pc \<times> room \<Rightarrow> floor_pc \<times> room" where
  "floor_thread (Quiet, r) = (Quiet, r)"
| "floor_thread (AtFloor c, r) =
     (case answer_call c (r_floor r) of
        (None, f) \<Rightarrow> (Quiet, r\<lparr>r_floor := f\<rparr>)
      | (Some ch, f) \<Rightarrow> (AtAudio ch, r\<lparr>r_floor := f\<rparr>))"
| "floor_thread (AtAudio ch, r) = (AtVideo ch, r\<lparr>audio_rewriter := change_rewriter ch (audio_rewriter r)\<rparr>)"
| "floor_thread (AtVideo ch, r) = (Quiet, r\<lparr>video_rewriter := change_rewriter ch (video_rewriter r)\<rparr>)"

text \<open>A call without other threads.\<close>

definition alone :: "floor_call \<Rightarrow> room \<Rightarrow> room" where
  "alone c r = (case answer_call c (r_floor r) of
      (None, f) \<Rightarrow> r\<lparr>r_floor := f\<rparr>
    | (Some ch, f) \<Rightarrow> r\<lparr>r_floor := f, audio_rewriter := change_rewriter ch (audio_rewriter r),
        video_rewriter := change_rewriter ch (video_rewriter r)\<rparr>)"

lemma thread_alone: "(floor_thread ^^ 3) (AtFloor c, r) = (Quiet, alone c r)"
  by (simp add: numeral_eq_Suc alone_def split: prod.split option.split)

section \<open>The handlers of the sequential model are these calls\<close>

lemma room_spawn_pli [simp]: "room_of (spawn_floor_pli r speaker s) rid = room_of s rid"
  by (simp add: spawn_floor_pli_def split: option.split)

lemma room_apply_floor: "room_of (snd (apply_floor_action e code n action r uid s)) rid = room_of s rid"
  by (simp add: apply_floor_says)

lemma request_is_call:
  assumes "su_user ss = Some uid" and "dec_floor_request dec (d x) = Some req"
    and r: "room_of s (rq_room_id req) = Some r" and "r_mode r = Ptt"
  shows "\<exists>resp s'. handle_floor_request e dec fr x ss s = Some (resp, s') \<and>
    room_of s' (rq_room_id req) = Some (alone (CallRequest uid (f_now fr)) r)"
proof -
  obtain action f where a: "floor_request (r_floor r) uid (f_now fr) = (action, f)" by fastforce
  obtain resp s2 where o: "apply_floor_action e FLOOR_REQUEST (pid x) action r uid (set_floor (rq_room_id req) f s) = (resp, s2)"
    by fastforce
  have s2: "room_of s2 (rq_room_id req) = Some (r\<lparr>r_floor := f\<rparr>)"
    using room_apply_floor [of e FLOOR_REQUEST "pid x" action r uid "set_floor (rq_room_id req) f s"] o r by (simp add: set_floor_room)
  show ?thesis using assms a o s2
    by (cases action) (simp_all add: handle_floor_request_def hub_get_room Let_def alone_def on_rewriters_room)
qed

lemma release_is_call:
  assumes "su_user ss = Some uid" and "dec_floor_release dec (d x) = Some req"
    and r: "room_of s (rq_room_id req) = Some r" and "r_mode r = Ptt"
  shows "\<exists>resp s'. handle_floor_release e dec x ss s = Some (resp, s') \<and>
    room_of s' (rq_room_id req) = Some (alone (CallRelease uid) r)"
proof -
  obtain action f where a: "floor_release (r_floor r) uid = (action, f)" by fastforce
  let ?s = "case action of Released _ \<Rightarrow> on_rewriters (rq_room_id req) clear_speaker
      (bump Ptt_floor_released 1 (set_floor (rq_room_id req) f s)) | _ \<Rightarrow> set_floor (rq_room_id req) f s"
  obtain resp s' where o: "apply_floor_action e FLOOR_RELEASE (pid x) action r uid ?s = (resp, s')" by fastforce
  have "handle_floor_release e dec x ss s = Some (resp, s')"
    using assms a o by (simp add: handle_floor_release_def hub_get_room Let_def)
  moreover have "room_of s' (rq_room_id req) = room_of ?s (rq_room_id req)"
    using room_apply_floor [of e FLOOR_RELEASE "pid x" action r uid ?s] o by simp
  moreover have "room_of ?s (rq_room_id req) = Some (alone (CallRelease uid) r)"
    using r a by (cases action) (auto simp: alone_def set_floor_room on_rewriters_room)
  ultimately show ?thesis by simp
qed

lemma leave_is_call:
  assumes r: "room_of s rid = Some r" and "r_mode r = Ptt"
  shows "room_of (leave_floor e rid uid s) rid = Some (alone (CallLeave uid) r)"
  using assms
  by (auto simp: leave_floor_def hub_get_room alone_def on_rewriters_def room_apply_floor set_floor_room split: option.split prod.split)

lemma timer_is_call:
  assumes r: "room_of s rid = Some r" and "r_mode r = Ptt"
  shows "room_of (floor_timer_room e now rid s) rid = Some (alone (CallTimer now) r)"
  using assms
  by (auto simp: floor_timer_room_def alone_def on_rewriters_room set_floor_room broadcast_all_room broadcast_room_says
      send_revoke_def ws_send_def emit_says Let_def split: option.split prod.split floor_action.split)

section \<open>Interleaving\<close>

definition next_call :: "floor_pc \<Rightarrow> floor_pc \<Rightarrow> bool" where
  "next_call x y \<longleftrightarrow> x = Quiet \<and> (\<exists>c. y = AtFloor c)"

text \<open>What media, pings and all else do to a room leaves the speakers as they are.\<close>

definition same_voices :: "room \<Rightarrow> room \<Rightarrow> bool" where
  "same_voices r r' \<longleftrightarrow> current_speaker (r_floor r') = current_speaker (r_floor r) \<and>
     rw_speaker (rw_state (audio_rewriter r')) = rw_speaker (rw_state (audio_rewriter r)) \<and>
     rw_speaker (rw_state (video_rewriter r')) = rw_speaker (rw_state (video_rewriter r))"

abbreviation floor_steps :: "room \<times> floor_pc list \<Rightarrow> room \<times> floor_pc list \<Rightarrow> bool" where
  "floor_steps \<equiv> (interleaved floor_thread next_call same_voices)\<^sup>*\<^sup>*"

text \<open>Both rewriters speak for who holds the floor.\<close>

definition voices_agree :: "room \<Rightarrow> bool" where
  "voices_agree r \<longleftrightarrow> rw_speaker (rw_state (audio_rewriter r)) = current_speaker (r_floor r) \<and>
     rw_speaker (rw_state (video_rewriter r)) = current_speaker (r_floor r)"

fun voice_of :: "rewriter_change \<Rightarrow> string option" where
  "voice_of (SwitchTo user) = Some user"
| "voice_of ClearBoth = None"

lemma change_voice [simp]: "rw_speaker (rw_state (change_rewriter ch w)) = voice_of ch"
  by (cases ch) (simp_all add: switch_speaker_def clear_speaker_def)

lemma answer_voice:
  "answer_call c f = (Some ch, f') \<Longrightarrow> current_speaker f' = voice_of ch"
  "answer_call c f = (None, f') \<Longrightarrow> current_speaker f' = current_speaker f"
  by (cases c; cases f; auto split: if_splits)+

text \<open>What a single thread keeps.\<close>

fun single_ok :: "floor_pc \<Rightarrow> room \<Rightarrow> bool" where
  "single_ok Quiet r = voices_agree r"
| "single_ok (AtFloor c) r = voices_agree r"
| "single_ok (AtAudio ch) r = (current_speaker (r_floor r) = voice_of ch)"
| "single_ok (AtVideo ch) r = (current_speaker (r_floor r) = voice_of ch \<and>
     rw_speaker (rw_state (audio_rewriter r)) = voice_of ch)"

definition single_inv :: "room \<times> floor_pc list \<Rightarrow> bool" where
  "single_inv c \<longleftrightarrow> (\<exists>r pc. c = (r, [pc]) \<and> single_ok pc r)"

lemma floor_thread_ok: "floor_thread (pc, r) = (pc', r') \<Longrightarrow> single_ok pc r \<Longrightarrow> single_ok pc' r'"
  by (cases pc) (auto simp: voices_agree_def dest: answer_voice split: prod.splits option.splits)

lemma single_step:
  assumes "interleaved floor_thread next_call same_voices c c'" and "single_inv c"
  shows "single_inv c'"
  using assms
proof (induction rule: interleaved.induct)
  case (access i ts s p' s')
  then obtain pc where pc: "ts = [pc]" "i = 0" "single_ok pc s" by (auto simp: single_inv_def)
  then show ?case using access(2) floor_thread_ok [of pc s p' s'] by (simp add: single_inv_def)
next
  case (begin_next i ts p' s)
  then show ?case by (auto simp: single_inv_def next_call_def)
next
  case (environment s s' ts)
  then obtain pc where "ts = [pc]" "single_ok pc s" by (auto simp: single_inv_def)
  then show ?case using environment(1) by (cases pc) (auto simp: single_inv_def same_voices_def voices_agree_def)
qed

lemma alone_agrees: "answer_call c (r_floor r) = (Some ch, f) \<Longrightarrow> voices_agree (alone c r) \<and> r_floor (alone c r) = f"
  using answer_voice(1) by (simp add: alone_def voices_agree_def)

text \<open>A release is overtaken by the next request; nothing else of the room changes.\<close>

lemma overtaken:
  assumes "current_speaker (r_floor r) = Some u" and "u \<noteq> v"
  shows "\<exists>r' a w. floor_steps (r, [Quiet, Quiet]) (r', [Quiet, Quiet]) \<and>
    r' = r\<lparr>r_floor := Taken v now now, audio_rewriter := a, video_rewriter := w\<rparr> \<and>
    rw_speaker (rw_state a) = None \<and> rw_speaker (rw_state w) = None"
proof -
  let ?c = "[AtFloor (CallRelease u), AtFloor (CallRequest v now)]"
  let ?r = "r\<lparr>r_floor := Taken v now now, audio_rewriter := clear_speaker (switch_speaker (audio_rewriter r) v),
      video_rewriter := clear_speaker (switch_speaker (video_rewriter r) v)\<rparr>"
  have "floor_steps (r, [Quiet, Quiet]) (r, [AtFloor (CallRelease u), Quiet])"
    using begin_next [of 0 "[Quiet, Quiet]" next_call "AtFloor (CallRelease u)" floor_thread same_voices r]
    by (simp add: next_call_def r_into_rtranclp)
  also have "floor_steps (r, [AtFloor (CallRelease u), Quiet]) (r, ?c)"
    using begin_next [of 1 "[AtFloor (CallRelease u), Quiet]" next_call "AtFloor (CallRequest v now)" floor_thread same_voices r]
    by (simp add: next_call_def r_into_rtranclp)
  also have "floor_steps (r, ?c) (fold (thread_turn floor_thread) [0, 1, 1, 1, 0, 0] (r, ?c))"
    by (rule schedule_runs) simp
  also have "fold (thread_turn floor_thread) [0, 1, 1, 1, 0, 0] (r, ?c) = (?r, [Quiet, Quiet])"
    using assms by (cases "r_floor r") (simp_all add: thread_turn_def)
  finally have "floor_steps (r, [Quiet, Quiet]) (?r, [Quiet, Quiet])" .
  moreover have "rw_speaker (rw_state (clear_speaker x)) = None" for x by (simp add: clear_speaker_def)
  ultimately show ?thesis by blast
qed

text \<open>Media from the address of the holder meets its guards and is decrypted to \<open>pl\<close>.\<close>

definition sends_media :: "'c env \<Rightarrow> 'c app \<Rightarrow> sockaddr \<Rightarrow> bytes \<Rightarrow> pref \<Rightarrow> string \<Rightarrow> bytes \<Rightarrow> bool" where
  "sends_media e s remote buf p rid pl \<longleftrightarrow>
     find_by_addr (hub s) remote = Some (p, Publish, rid) \<and> is_publish_ready (pt s p) \<and> \<not> is_rtcp buf \<and>
     fst (decrypt_rtp (srtp e) (inbound_srtp (publish (pt s p))) buf) = Inr pl"

text \<open>
  C32: the floor and the voice of a room. One thread at a time keeps both rewriters on who
  holds the floor, whatever media and pings do in between. Two threads can part them: when a
  release is overtaken by the request of another user, that user ends up with the floor while
  neither rewriter knows the speaker, and nothing else of the room differs. From then on
  every audio and video packet of the holder goes out unrewritten: in every state of the
  server with this room, all ready listeners get the decrypted packet itself, with the
  sender's own SSRC and numbers. The next call that changes the floor on its own, in
  particular a repeated request of the holder, brings floor and rewriters together again.
\<close>

theorem floor_overlap:
  fixes e :: "'c env" and r :: room
  shows
  "(floor_steps (r, [Quiet]) (r', [Quiet]) \<and> voices_agree r \<longrightarrow> voices_agree r') \<and>
   (current_speaker (r_floor r) = Some u \<and> u \<noteq> v \<longrightarrow>
     (\<exists>r' a w. floor_steps (r, [Quiet, Quiet]) (r', [Quiet, Quiet]) \<and>
       r' = r\<lparr>r_floor := Taken v now now, audio_rewriter := a, video_rewriter := w\<rparr> \<and> \<not> voices_agree r' \<and>
       (\<forall>s remote buf p rid pl order t arrival.
          store_ok s \<and> sends_media e s remote buf p rid pl \<and> p_user_id (pt s p) = v \<and> room_of s rid = Some r' \<longrightarrow>
          (\<exists>s'. handle_srtp e order t arrival buf remote s = Some s' \<and>
            (\<forall>q. egress_queue (pt s' q) = egress_queue (pt s q) @ (if delivers_to s r' v q then [Rtp pl] else [])))))) \<and>
   (answer_call c (r_floor r) = (Some ch, f) \<longrightarrow>
     (floor_thread ^^ 3) (AtFloor c, r) = (Quiet, alone c r) \<and> voices_agree (alone c r) \<and> r_floor (alone c r) = f) \<and>
   (current_speaker (r_floor r) = Some u \<longrightarrow> answer_call (CallRequest u now) (r_floor r) = (Some (SwitchTo u), r_floor r))"
proof (intro conjI impI)
  assume a: "floor_steps (r, [Quiet]) (r', [Quiet]) \<and> voices_agree r"
  have "single_inv (r', [Quiet])"
    by (rule interleaved_invariant [OF conjunct1 [OF a] _ single_step]) (use a in \<open>auto simp: single_inv_def\<close>)
  then show "voices_agree r'" by (simp add: single_inv_def)
next
  assume "current_speaker (r_floor r) = Some u \<and> u \<noteq> v"
  then obtain r' a w where r': "floor_steps (r, [Quiet, Quiet]) (r', [Quiet, Quiet])"
      "r' = r\<lparr>r_floor := Taken v now now, audio_rewriter := a, video_rewriter := w\<rparr>"
      "rw_speaker (rw_state a) = None" "rw_speaker (rw_state w) = None"
    using overtaken by blast
  have "\<forall>s remote buf p rid pl order t arrival.
      store_ok s \<and> sends_media e s remote buf p rid pl \<and> p_user_id (pt s p) = v \<and> room_of s rid = Some r' \<longrightarrow>
      (\<exists>s'. handle_srtp e order t arrival buf remote s = Some s' \<and>
        (\<forall>q. egress_queue (pt s' q) = egress_queue (pt s q) @ (if delivers_to s r' v q then [Rtp pl] else [])))"
  proof (intro allI impI)
    fix s :: "'c app" and remote buf p rid pl order t arrival
    assume "store_ok s \<and> sends_media e s remote buf p rid pl \<and> p_user_id (pt s p) = v \<and> room_of s rid = Some r'"
    then show "\<exists>s'. handle_srtp e order t arrival buf remote s = Some s' \<and>
        (\<forall>q. egress_queue (pt s' q) = egress_queue (pt s q) @ (if delivers_to s r' v q then [Rtp pl] else []))"
      using unvoiced_fan_out [of s remote p rid r' buf e pl order t arrival] r'(2-4) by (simp add: sends_media_def)
  qed
  moreover have "\<not> voices_agree r'" using r'(2-4) by (simp add: voices_agree_def)
  ultimately show "\<exists>r' a w. floor_steps (r, [Quiet, Quiet]) (r', [Quiet, Quiet]) \<and>
       r' = r\<lparr>r_floor := Taken v now now, audio_rewriter := a, video_rewriter := w\<rparr> \<and> \<not> voices_agree r' \<and>
       (\<forall>s remote buf p rid pl order t arrival.
          store_ok s \<and> sends_media e s remote buf p rid pl \<and> p_user_id (pt s p) = v \<and> room_of s rid = Some r' \<longrightarrow>
          (\<exists>s'. handle_srtp e order t arrival buf remote s = Some s' \<and>
            (\<forall>q. egress_queue (pt s' q) = egress_queue (pt s q) @ (if delivers_to s r' v q then [Rtp pl] else []))))"
    using r'(1,2) by blast
next
  assume "current_speaker (r_floor r) = Some u"
  then show "answer_call (CallRequest u now) (r_floor r) = (Some (SwitchTo u), r_floor r)" by (cases "r_floor r") auto
qed (auto simp: thread_alone alone_agrees)

text \<open>The second member had the floor, the first one speaks: its packet leaves with its own SSRC, 100.\<close>

lemma demo_parted:
  fixes a w :: ptt_rewriter
  defines "r \<equiv> demo_room Ptt (Taken ''b'' 1 1)\<lparr>r_floor := Taken ''a'' 9 9, audio_rewriter := a, video_rewriter := w\<rparr>"
  defines "s \<equiv> set_room ''r'' r (demo_app Ptt (Taken ''b'' 1 1))"
  shows "store_ok s" and "sends_media demo_env s (V4 1 0) demo_rtp 0 ''r'' demo_rtp" and "p_user_id (pt s 0) = ''a''"
    and "room_of s ''r'' = Some r" and "delivers_to s r ''a'' 1" and "egress_queue (pt s 1) = []"
proof -
  let ?s = "demo_app Ptt (Taken ''b'' 1 1)"
  have "app_ok ?s" by simp
  then show "store_ok s"
    unfolding s_def by (intro store_ok_set_room app_ok_store) (simp_all add: r_def store_okD(3) [OF app_ok_store demo_room_of])
  have pt: "pt s q = pt ?s q" for q by (simp add: s_def)
  have u: "p_user_id (pt ?s 0) = ''a''" by (simp add: demo_app_defs participant_new_def)
  then show "p_user_id (pt s 0) = ''a''" by (simp add: pt)
  have "find_by_addr (hub s) (V4 1 0) = Some (0, Publish, ''r'')"
    by (simp add: s_def r_def find_by_addr_def get_by_addr_def demo_app_defs)
  then show "sends_media demo_env s (V4 1 0) demo_rtp 0 ''r'' demo_rtp" using demo_sends by (simp add: sends_media_def pt)
  show "room_of s ''r'' = Some r" by (simp add: s_def)
  show "delivers_to s r ''a'' 1" "egress_queue (pt s 1) = []"
    using demo_delivers [of Ptt "Taken ''b'' 1 1"] by (simp_all add: delivers_to_def get_participant_def pt u r_def)
qed

theorem floor_overlap_witness:
  "\<exists>r' s s'. floor_steps (demo_room Ptt (Taken ''b'' 1 1), [Quiet, Quiet]) (r', [Quiet, Quiet]) \<and>
     current_speaker (r_floor r') = Some ''a'' \<and> room_of s ''r'' = Some r' \<and>
     handle_srtp demo_env (\<lambda>m. m) 9 1 demo_rtp (V4 1 0) s = Some s' \<and> egress_queue (pt s' 1) = [Rtp demo_rtp] \<and>
     rtp_ssrc demo_rtp = 100 \<and> voices_agree (alone (CallRequest ''a'' 10) r')"
proof -
  let ?r = "demo_room Ptt (Taken ''b'' 1 1)"
  have "current_speaker (r_floor ?r) = Some ''b'' \<and> ''b'' \<noteq> ''a''" by (simp add: demo_room_def)
  then obtain r' a w where r': "floor_steps (?r, [Quiet, Quiet]) (r', [Quiet, Quiet])"
      "r' = ?r\<lparr>r_floor := Taken ''a'' 9 9, audio_rewriter := a, video_rewriter := w\<rparr>"
      and out: "\<forall>s remote buf p rid pl order t arrival.
        store_ok s \<and> sends_media demo_env s remote buf p rid pl \<and> p_user_id (pt s p) = ''a'' \<and> room_of s rid = Some r' \<longrightarrow>
          (\<exists>s'. handle_srtp demo_env order t arrival buf remote s = Some s' \<and>
            (\<forall>q. egress_queue (pt s' q) = egress_queue (pt s q) @ (if delivers_to s r' ''a'' q then [Rtp pl] else [])))"
    using conjunct1 [OF conjunct2 [OF floor_overlap [where r = "?r" and u = "''b''" and v = "''a''" and now = 9 and e = demo_env]]]
    by blast
  let ?s = "set_room ''r'' r' (demo_app Ptt (Taken ''b'' 1 1))"
  note D = demo_parted [where a = a and w = w, folded r'(2)]
  obtain s' where s': "handle_srtp demo_env (\<lambda>m. m) 9 1 demo_rtp (V4 1 0) ?s = Some s'"
      "\<forall>q. egress_queue (pt s' q) = egress_queue (pt ?s q) @ (if delivers_to ?s r' ''a'' q then [Rtp demo_rtp] else [])"
    using out D(1-4) by blast
  have "answer_call (CallRequest ''a'' 10) (r_floor r') = (Some (SwitchTo ''a''), r_floor r')"
    using floor_overlap [where r = r' and u = "''a''" and now = 10] r'(2) by simp
  then have "voices_agree (alone (CallRequest ''a'' 10) r')"
    using floor_overlap [where r = r' and c = "CallRequest ''a'' 10" and ch = "SwitchTo ''a''" and f = "r_floor r'"] by blast
  moreover have "rtp_ssrc demo_rtp = 100" by (simp add: demo_rtp_def rtp_ssrc_def of_be32_def)
  moreover have "egress_queue (pt s' 1) = [Rtp demo_rtp]" using s'(2) D(5,6) by simp
  moreover have "current_speaker (r_floor r') = Some ''a''" by (simp add: r'(2))
  ultimately show ?thesis using r'(1) D(4) s'(1) by blast
qed

end
