(* ===== verification/Spec2Isabelle.thy ===== *)
theory Spec2Isabelle
  imports Halls Admin Media Runtime Boot Shutdown Lifecycle Overlap Floor_Overlap
begin

text \<open>
  A verification of light-livechat, a selective forwarding unit with push-to-talk rooms.

  THE PROGRAM. Clients talk to the server twice: over a WebSocket for signaling
  (\<open>src/signaling/\<close>) and over one UDP port for media (\<open>src/transport/\<close>). Signaling
  identifies a user, opens, joins and leaves rooms, announces tracks, and asks for the floor
  of a push-to-talk room. A datagram is told apart by its first byte: STUN latches the sender's
  address to a session of a participant and may start a DTLS task; DTLS goes through a
  bounded channel to that task, whose end installs SRTP keys; SRTP is decrypted, passed
  through the floor gate and the rewriter of a push-to-talk room, and put in the bounded
  egress queue of every other member, from which one task per subscriber sends it.
  Subscribers' RTCP asks for retransmissions or is relayed to the publisher. Two timers
  revoke floors and remove silent participants, the first UDP worker flushes metrics and
  sends bandwidth feedback, and administrators read a broadcast channel. All parts share
  the room hub and the metrics (\<open>src/state.rs\<close>).

  THE MODEL. An operation is a function on explicit state. \<open>'c\<close> is the type of the cipher
  state. Participants are shared by reference in the code, so they live in a heap (a list)
  and the indices of rooms hold references into it. What a handler does to the outside
  (datagrams, WebSocket texts, spawned tasks, texts to administrators) is appended to the log
  \<open>out\<close> of the shared state \<open>app\<close>. A panic is the value \<open>None\<close>, an error result an \<open>Inl\<close>,
  and a UDP turn may also be waiting in a send. Machine integers are words, so their
  wrap-around is that of the code; indices and slices are checked as in Rust. Concurrent maps
  that the code iterates are association lists whose order stands for the iteration order.

  THE THEORIES, by what they model.
  Prelude: words, byte buffers, big-endian fields, the invariant-of-a-run locale.
  Config, Settings, Startup, Boot: \<open>config.rs\<close>, \<open>error.rs\<close>, the environment variables, and
  \<open>run_server\<close> of \<open>lib.rs\<close> with the certificate of \<open>dtls.rs\<close>, up to the start state.
  Floor_Control: \<open>room/floor.rs\<close>. Ptt_Rewrite: \<open>room/ptt_rewriter.rs\<close>.
  Rtcp, Twcc, Ingress, Egress, Udp: \<open>transport/udp/\<close> file by file.
  Stun, Ice, Srtp: \<open>transport/stun.rs\<close> and \<open>demux.rs\<close>, \<open>ice.rs\<close>, \<open>srtp.rs\<close> and the keys of \<open>dtls.rs\<close>.
  Participant, Room: \<open>room/participant.rs\<close>, \<open>room/room.rs\<close> with the hub.
  Threads: interleavings of threads over shared data. Overlap: joins of \<open>room/room.rs\<close> access by
  access. Floor_Overlap: the floor handlers of \<open>handler.rs\<close> and the floor timer lock by lock.
  Metrics, Runtime: \<open>metrics/\<close>. Media: the routing table of \<open>media/\<close>.
  App, Effects: \<open>state.rs\<close>, the log, and the invariant of the shared state.
  Messages, Signaling: \<open>signaling/message.rs\<close>, \<open>opcode.rs\<close>, every handler of \<open>handler.rs\<close>,
  the dispatcher and the loop of a connection. Admin: the connection of an administrator.
  Readers: what a client reads from the JSON the server sends, written independently of the
  code that builds it; the handler specifications state messages through these readers.
  Server: the floor timer, the reaper and the default rooms of \<open>lib.rs\<close>.
  System: all of these as one transition system, \<open>sys_step\<close>. Lifecycle: its DTLS tasks.
  Shutdown: the process around it, \<open>main\<close> and the shutdown of \<open>run_server\<close>.
  A definition carries the name of the function it models; an operation that two types of
  the code share has the type in its name (\<open>room_add_participant\<close> and the hub's
  \<open>add_participant\<close>).

  THE SYSTEM. A state of \<open>sys\<close> is the shared state, the workers, the phase of every DTLS
  task and the connections. A step is one turn of one task (\<open>task_step\<close>, labelled with the
  \<open>task\<close>): a datagram at a worker, a timer, the end of a handshake (its outcome is an input,
  its key material has the length asked for), a read or write of a DTLS task, one packet of an
  egress task, one keyframe request, one event of a connection. A turn is atomic in the
  model: this is the granularity of the theorems. In the process two handlers on different
  threads may overlap between their operations on shared data. Such overlaps are modelled
  where they lead to states that no order of whole turns gives: joins (Overlap), where a room
  can exceed its capacity by less than the number of threads, and two joins of one user can
  leave a stale index entry; and the calls that change the floor (Floor_Overlap), where the
  rewriters can lose the speaker who holds it. Lemmas \<open>..._is_call\<close> tie these to the handlers.
  The operations under one lock (floor, rewriter, cache, SRTP
  context, queue) are atomic in the code as well. The order and the timing of turns are
  unrestricted, and the clocks and random bytes are inputs of every step, so the theorems
  hold for all interleavings of turns and all these values.
  \<open>reachable\<close> are the states of all runs from \<open>system_start\<close>, where \<open>boot_spec\<close> shows the
  process to begin. \<open>process_step\<close> adds the stages of the process: serving, draining after the
  signal, closing, exited; \<open>may_run\<close> says which tasks a stage stops.

  WHAT IS SHOWN.
  Invariants: \<open>state_ok\<close> (Effects) is kept by every operation (lemmas \<open>..._good\<close>, relation
  \<open>good_step\<close>), \<open>sys_ok\<close> by every step; \<open>store_ok\<close> (App) is its part that also holds in the
  states between the turns, where floor and rewriters may disagree; \<open>system_safe\<close> and \<open>system_responsive\<close> say
  what it means for the rooms, the queues, the rewriters and the workers: in particular no
  handler panics and a waiting worker gets on.
  Refinement: \<open>system_refines_halls\<close> (Halls): every run is a run of an abstract machine of
  rooms, members and speakers, and each actor causes only events it is entitled to.
  Process: \<open>boot_spec\<close> and \<open>shutdown_spec\<close>, from the environment of the host to the exit.
  Authority: \<open>floor_only_on_request\<close>, \<open>membership_authority\<close>, \<open>unauthenticated_inert\<close>;
  \<open>handshake_without_password\<close> shows what the media side lets anybody do.
  Types: \<open>protocol_typed\<close> (Wire): everything sent to a client or an administrator has the
  type that the protocol fixes for its opcode (schemas in Protocol).
  Handlers: a specification per request, timer and datagram kind that gives answer, state
  and effects on each branch (Signaling_Spec, Server, Udp, Ingress, Egress, Admin). The
  tracks a join answer lists, the events of joins and publications and the snapshot are what
  \<open>read_join_answer\<close>, \<open>read_room_event\<close>, \<open>read_tracks_update\<close> and \<open>read_snapshot\<close> read in them;
  retransmissions and grouped feedback are compared with definitions of their own.
  Formats: STUN, RTP, RTCP and TWCC against decoders of what is built, totality on all byte
  strings, integrity codes. Data structures: floor controller, rewriter, caches, rings,
  queues, registries and hub indices against their contracts.

  INTERFACES. A locale states what a client relies on and is interpreted on the model's own
  operations: \<open>floor_arbiter\<close> and \<open>action_log\<close> (floor controller), \<open>seq_ring\<close>
  (retransmission cache and arrival recorder), \<open>bounded_queue\<close> (egress queue and DTLS
  channel), \<open>broadcast_channel\<close> (administrators), \<open>ssrc_table\<close> (routing table),
  \<open>be_field\<close> (16 and 32 bit fields), \<open>preserved\<close> (runs of track and hub operations), and
  \<open>step_frame\<close> (Frames), which walks once through every handler for any relation between the
  states around a step; the three theorems on authority, types and refinement are three
  interpretations of it. \<open>task_phase\<close> is a linear order, by which \<open>dtls_lifecycle\<close> states
  that tasks only advance.

  BOUNDS. An egress queue holds 256 packets, a DTLS channel 128 datagrams, the channel of the
  administrators 256 texts, a retransmission cache 512 packets, an arrival recorder 8192
  entries; they are the code's constants. No function takes fuel: loops over bytes and lists
  terminate by measures on what is left to read. Numbers of turns in liveness statements
  (ticks of the floor timer, turns of an egress task) are explicit.

  PARAMETERS. The record \<open>env\<close> holds what other packages compute: the SRTP cipher with its
  state, HMAC-SHA1, CRC-32, the printer of JSON and the fate of a datagram at the socket.
  \<open>decoders\<close> are the derived readers of JSON requests; \<open>host\<close> (Boot) is what the process
  finds when it starts; \<open>recv\<close> (Admin) is the broadcast channel of the runtime library, with
  the laws of \<open>broadcast_channel\<close>. No law of them is assumed except in the statements that name it.

  NOT MODELLED. Log lines (but \<open>w_tracing\<close> keeps the one that can panic). The text format of
  JSON and floating point numbers in metrics (parameters). The handshake, certificates and
  ciphers of other packages. Creating sockets, the truncation of a datagram to the 2048 bytes
  of the receive buffer, and the delivery order between different sockets. The durations the
  hot path measures enter as a step of their own (\<open>duration_measured\<close>), not at the place of
  measurement. The relative order of a client's direct replies and its queued events on the
  WebSocket: the log keeps the order of each. Waiting inside a handler for a slow socket, and
  the overlaps of two handlers that are not named above (see THE SYSTEM). The scheduler of
  the runtime and the setup of logging.
\<close>

end
